(* ===== verification/Gudgeon_Prelude.thy ===== *)
theory Gudgeon_Prelude
  imports Main "HOL-Library.Word" "HOL-Library.Sublist"
begin

text \<open>
  Shared material of the development: the parts of Go's standard library for strings that the
  program uses, the outcome type of a Go call (a value, a panic, or a recursion that has used up
  its fuel), the pointer type of heap cells and generic list lemmas.

  A Go \<open>string\<close> is a sequence of bytes and is modelled as \<^typ>\<open>string\<close> (a list of bytes). The case
  mapping and the white space of \<open>strings.ToLower\<close>, \<open>strings.EqualFold\<close> and \<open>strings.TrimSpace\<close> are
  those of Go on ASCII text; on bytes above 127 the model leaves the text alone, while Go decodes
  UTF-8 first. \<open>strings.Index\<close> returns \<open>-1\<close> for a substring that does not occur; the model returns
  \<^const>\<open>None\<close>.
\<close>

named_theorems go_strings \<open>definitions of the string functions\<close>
named_theorems run_simps \<open>rules of the outcome type\<close>

section \<open>Outcomes\<close>

text \<open>
  \<open>Ret\<close> is a normal return, \<open>Panic\<close> a run-time panic (a nil dereference or an index out of range;
  no caller in the program recovers from one, since every \<open>recover()\<close> in it is called outside a
  deferred function), \<open>NoFuel\<close> a recursion that did not finish within the fuel it was given.
\<close>

datatype 'a run = Ret 'a | Panic | NoFuel

primrec bind_run :: "'a run \<Rightarrow> ('a \<Rightarrow> 'b run) \<Rightarrow> 'b run" where
  "bind_run (Ret a) f = f a"
| "bind_run Panic f = Panic"
| "bind_run NoFuel f = NoFuel"

text \<open>A Go function that returns a value and an error.\<close>

type_synonym 'a result = "string + 'a"

text \<open>The address of a heap cell.\<close>

type_synonym ptr = nat

section \<open>Go strings\<close>

definition ToLowerC :: "char \<Rightarrow> char" where
  [go_strings]: "ToLowerC c =
     (if 65 \<le> (of_char c :: nat) \<and> (of_char c :: nat) \<le> 90 then char_of ((of_char c :: nat) + 32) else c)"

definition ToLower :: "string \<Rightarrow> string" where
  [go_strings]: "ToLower s = map ToLowerC s"

definition ToUpperC :: "char \<Rightarrow> char" where
  [go_strings]: "ToUpperC c =
     (if 97 \<le> (of_char c :: nat) \<and> (of_char c :: nat) \<le> 122 then char_of ((of_char c :: nat) - 32) else c)"

definition ToUpper :: "string \<Rightarrow> string" where
  [go_strings]: "ToUpper s = map ToUpperC s"

definition EqualFold :: "string \<Rightarrow> string \<Rightarrow> bool" where
  [go_strings]: "EqualFold s t = (ToLower s = ToLower t)"

definition IsSpace :: "char \<Rightarrow> bool" where
  [go_strings]: "IsSpace c = ((of_char c :: nat) \<in> {9, 10, 11, 12, 13, 32})"

definition TrimLeft :: "string \<Rightarrow> string" where
  [go_strings]: "TrimLeft s = dropWhile IsSpace s"

definition TrimSpace :: "string \<Rightarrow> string" where
  [go_strings]: "TrimSpace s = rev (dropWhile IsSpace (rev (dropWhile IsSpace s)))"

definition HasPrefix :: "string \<Rightarrow> string \<Rightarrow> bool" where
  [go_strings]: "HasPrefix s p = (take (length p) s = p)"

definition HasSuffix :: "string \<Rightarrow> string \<Rightarrow> bool" where
  [go_strings]: "HasSuffix s p = (length p \<le> length s \<and> drop (length s - length p) s = p)"

fun Index :: "string \<Rightarrow> string \<Rightarrow> nat option" where
  "Index [] sub = (if sub = [] then Some 0 else None)"
| "Index (c # s) sub =
     (if HasPrefix (c # s) sub then Some 0 else map_option Suc (Index s sub))"

definition Contains :: "string \<Rightarrow> string \<Rightarrow> bool" where
  [go_strings]: "Contains s sub = (Index s sub \<noteq> None)"

text \<open>\<open>strings.Split\<close> with a separator of one byte, and \<open>strings.SplitN(s, sep, 2)\<close>.\<close>

fun Split :: "char \<Rightarrow> string \<Rightarrow> string list" where
  "Split sep [] = [[]]"
| "Split sep (c # s) =
     (if c = sep then [] # Split sep s
      else case Split sep s of [] \<Rightarrow> [[c]] | w # ws \<Rightarrow> (c # w) # ws)"

definition SplitN2 :: "char \<Rightarrow> string \<Rightarrow> string list" where
  [go_strings]: "SplitN2 sep s =
     (case Index s [sep] of None \<Rightarrow> [s] | Some i \<Rightarrow> [take i s, drop (Suc i) s])"

fun Join :: "string list \<Rightarrow> string \<Rightarrow> string" where
  "Join [] sep = []"
| "Join [w] sep = w"
| "Join (w # v # ws) sep = w @ sep @ Join (v # ws) sep"

text \<open>\<open>strings.Replace(s, "  ", " ", -1)\<close> and the loop that repeats it until nothing changes.\<close>

fun ReplaceDoubleSpace :: "string \<Rightarrow> string" where
  "ReplaceDoubleSpace [] = []"
| "ReplaceDoubleSpace [c] = [c]"
| "ReplaceDoubleSpace (c # d # s) =
     (if c = CHR '' '' \<and> d = CHR '' '' then CHR '' '' # ReplaceDoubleSpace s
      else c # ReplaceDoubleSpace (d # s))"

definition ReplaceChar :: "char \<Rightarrow> char \<Rightarrow> string \<Rightarrow> string" where
  [go_strings]: "ReplaceChar old new s = map (\<lambda>c. if c = old then new else c) s"

text \<open>\<open>strconv.Itoa\<close> and \<open>fmt\<close>'s \<open>%d\<close> on a number that is not negative.\<close>

definition digit_char :: "nat \<Rightarrow> char" where
  "digit_char d = char_of (48 + d)"

fun Itoa :: "nat \<Rightarrow> string" where
  "Itoa n = (if n < 10 then [digit_char n] else Itoa (n div 10) @ [digit_char (n mod 10)])"

declare Itoa.simps [simp del]

section \<open>Lemmas\<close>

lemma bind_run_assoc [run_simps]:
  "bind_run (bind_run m f) g = bind_run m (\<lambda>x. bind_run (f x) g)"
  by (cases m) auto

lemma bind_run_Ret_iff:
  "bind_run m f = Ret b \<longleftrightarrow> (\<exists>a. m = Ret a \<and> f a = Ret b)"
  by (cases m) auto

lemma bind_run_NoFuel_iff:
  "bind_run m f = NoFuel \<longleftrightarrow> m = NoFuel \<or> (\<exists>a. m = Ret a \<and> f a = NoFuel)"
  by (cases m) auto

lemma ToLowerC_idem [simp]: "ToLowerC (ToLowerC c) = ToLowerC c"
proof (cases "65 \<le> (of_char c :: nat) \<and> (of_char c :: nat) \<le> 90")
  case True
  then have "(of_char (ToLowerC c) :: nat) = of_char c + 32"
    by (simp add: ToLowerC_def)
  then show ?thesis
    using True by (simp add: ToLowerC_def)
next
  case False
  then have "ToLowerC c = c"
    unfolding ToLowerC_def by (rule if_not_P)
  then show ?thesis by simp
qed

lemma ToLower_idem [simp]: "ToLower (ToLower s) = ToLower s"
  by (simp add: ToLower_def)

lemma length_ToLower [simp]: "length (ToLower s) = length s"
  by (simp add: ToLower_def)

lemma ToLower_append [simp]: "ToLower (s @ t) = ToLower s @ ToLower t"
  by (simp add: ToLower_def)

lemma ToLower_Nil_iff [simp]: "ToLower s = [] \<longleftrightarrow> s = []"
  by (simp add: ToLower_def)

lemma ToLower_Nil [simp]: "ToLower [] = []"
  by (simp add: ToLower_def)

lemma ToLower_drop: "ToLower (drop n s) = drop n (ToLower s)"
  by (simp add: ToLower_def drop_map)

lemma ToLower_take: "ToLower (take n s) = take n (ToLower s)"
  by (simp add: ToLower_def take_map)

lemma EqualFold_lower [simp]: "EqualFold (ToLower s) t = EqualFold s t" "EqualFold s (ToLower t) = EqualFold s t"
  by (simp_all add: EqualFold_def)

lemma HasPrefix_iff: "HasPrefix s p \<longleftrightarrow> prefix p s"
  by (metis HasPrefix_def append_eq_conv_conj append_take_drop_id prefix_def)

lemma HasSuffix_iff: "HasSuffix s p \<longleftrightarrow> suffix p s"
proof
  assume "HasSuffix s p"
  then have "s = take (length s - length p) s @ p"
    by (metis HasSuffix_def append_take_drop_id)
  then show "suffix p s"
    by (metis suffix_def)
next
  assume "suffix p s"
  then show "HasSuffix s p"
    by (auto simp: HasSuffix_def suffix_def)
qed

lemma HasSuffix_snoc: "HasSuffix s [c] \<longleftrightarrow> s \<noteq> [] \<and> last s = c"
  by (cases s rule: rev_cases) (auto simp: HasSuffix_iff suffix_def)

lemma HasPrefix_single: "HasPrefix s [c] \<longleftrightarrow> (\<exists>t. s = c # t)"
  by (cases s) (auto simp: HasPrefix_def)

lemma Index_single:
  "Index s [c] = (if c \<in> set s then Some (length (takeWhile (\<lambda>d. d \<noteq> c) s)) else None)"
  by (induction s) (auto simp: HasPrefix_single)

lemma Index_Some_bound: "Index s sub = Some i \<Longrightarrow> i + length sub \<le> length s"
  by (induction s arbitrary: i) (auto simp: HasPrefix_iff prefix_length_le dest: prefix_length_le split: if_splits)

lemma Contains_single [simp]: "Contains s [c] \<longleftrightarrow> c \<in> set s"
  by (simp add: Contains_def Index_single)

lemma Contains_iff_sublist: "Contains s sub \<longleftrightarrow> sublist sub s"
proof (induction s)
  case Nil
  then show ?case by (auto simp: Contains_def)
next
  case (Cons c s)
  then show ?case
    by (auto simp: Contains_def HasPrefix_iff sublist_Cons_right)
qed

lemma Split_not_Nil [simp]: "Split sep s \<noteq> []"
  by (induction s) (auto split: list.splits)

lemma Split_no_sep: "sep \<notin> set s \<Longrightarrow> Split sep s = [s]"
  by (induction s) auto

lemma Join_Cons [simp]: "ws \<noteq> [] \<Longrightarrow> Join (w # ws) sep = w @ sep @ Join ws sep"
  by (cases ws) auto

lemma Join_Split [simp]: "Join (Split sep s) [sep] = s"
proof (induction s)
  case Nil
  then show ?case by simp
next
  case (Cons c s)
  obtain w ws where w: "Split sep s = w # ws"
    by (cases "Split sep s") auto
  then show ?case
    using Cons by (cases ws) auto
qed

lemma length_ReplaceDoubleSpace: "length (ReplaceDoubleSpace s) \<le> length s"
  by (induction s rule: ReplaceDoubleSpace.induct) auto

lemma ReplaceDoubleSpace_shrinks:
  "ReplaceDoubleSpace s \<noteq> s \<Longrightarrow> length (ReplaceDoubleSpace s) < length s"
  by (induction s rule: ReplaceDoubleSpace.induct)
    (auto split: if_splits intro: le_imp_less_Suc simp: length_ReplaceDoubleSpace less_Suc_eq_le le_SucI)

lemma TrimSpace_no_edge:
  assumes "s \<noteq> []" "\<not> IsSpace (hd s)" "\<not> IsSpace (last s)"
  shows "TrimSpace s = s"
proof -
  have "dropWhile IsSpace s = s"
    using assms by (cases s) auto
  moreover have "dropWhile IsSpace (rev s) = rev s"
    using assms by (cases s rule: rev_cases) auto
  ultimately show ?thesis by (simp add: TrimSpace_def)
qed

lemma TrimSpace_no_space:
  assumes "\<forall>c \<in> set s. \<not> IsSpace c"
  shows "TrimSpace s = s"
  using assms by (cases "s = []") (simp add: TrimSpace_def, simp add: TrimSpace_no_edge)

lemma TrimSpace_hd: "TrimSpace s \<noteq> [] \<Longrightarrow> \<not> IsSpace (hd (TrimSpace s))"
proof -
  let ?u = "dropWhile IsSpace s"
  assume ne: "TrimSpace s \<noteq> []"
  then have u: "?u \<noteq> []"
    by (metis TrimSpace_def dropWhile.simps(1) rev.simps(1))
  have "suffix (dropWhile IsSpace (rev ?u)) (rev ?u)"
    by (rule suffix_dropWhile)
  then have "prefix (TrimSpace s) ?u"
    by (simp add: TrimSpace_def suffix_to_prefix)
  then have "hd (TrimSpace s) = hd ?u"
    using ne by (auto simp: prefix_def)
  then show ?thesis
    using hd_dropWhile [of IsSpace s] u by simp
qed

lemma length_TrimSpace: "length (TrimSpace s) \<le> length s"
  by (metis TrimSpace_def length_dropWhile_le length_rev order_trans)

end
