(* ===== verification/Util.thy ===== *)
theory Util
  imports Gudgeon_Prelude
begin

text \<open>
  \<^verbatim>\<open>src/util/strings.go\<close> and \<^verbatim>\<open>src/util/domains.go\<close>, with the parts of Go's \<open>net\<close> package they and
  the engine use. A \<open>net.IP\<close> is a slice of 4 or 16 bytes, modelled as a list of \<^typ>\<open>8 word\<close>; a nil
  \<open>net.IP\<close> is \<^const>\<open>None\<close> of \<open>ip option\<close>.
  The lemmas give the meaning of \<open>DomainList\<close>: the domains it returns are the domain itself and its
  parents of at least two labels, most specific first, and the loop that computes them ends.
\<close>

unbundle bit_operations_syntax

section \<open>strings.go\<close>

fun StringIn :: "string \<Rightarrow> string list \<Rightarrow> bool" where
  "StringIn value [] = False"
| "StringIn value (test # rest) = (if value = test then True else StringIn value rest)"

fun StartsWithAny :: "string \<Rightarrow> string list \<Rightarrow> bool" where
  "StartsWithAny value [] = False"
| "StartsWithAny value (test # rest) =
     (if HasPrefix value test then True else StartsWithAny value rest)"

definition DefaultCommentPrefixes :: "string list" where
  "DefaultCommentPrefixes = [''#'', ''//'']"

fun trimAtPrefixes :: "string list \<Rightarrow> string \<Rightarrow> string" where
  "trimAtPrefixes [] line = line"
| "trimAtPrefixes (p # ps) line =
     trimAtPrefixes ps (case Index line p of None \<Rightarrow> line | Some i \<Rightarrow> take i line)"

definition TrimComments :: "string \<Rightarrow> string list \<Rightarrow> string" where
  "TrimComments line commentPrefixes =
     (let ps = (if length commentPrefixes < 1 then DefaultCommentPrefixes else commentPrefixes) in
      if StartsWithAny line ps then [] else trimAtPrefixes ps line)"

section \<open>files.go\<close>

text \<open>The file system the code reads: the content of each file that can be opened and read.\<close>

type_synonym fileSystem = "string \<rightharpoonup> string"

definition GetFileAsArray :: "fileSystem \<Rightarrow> string \<Rightarrow> string list option" where
  "GetFileAsArray fs inputfile = map_option (Split (CHR 0x0A)) (fs inputfile)"

definition LineCount :: "fileSystem \<Rightarrow> string \<Rightarrow> nat option" where
  "LineCount fs inputfile = map_option (\<lambda>content. count_list content (CHR 0x0A)) (fs inputfile)"

section \<open>net: addresses\<close>

type_synonym ip = "8 word list"

definition v4InV6Prefix :: "8 word list" where
  "v4InV6Prefix = replicate 10 0 @ [255, 255]"

definition To4 :: "ip \<Rightarrow> ip option" where
  "To4 b = (if length b = 4 then Some b
            else if length b = 16 \<and> take 12 b = v4InV6Prefix then Some (drop 12 b)
            else None)"

definition To16 :: "ip \<Rightarrow> ip option" where
  "To16 b = (if length b = 4 then Some (v4InV6Prefix @ b)
             else if length b = 16 then Some b else None)"

text \<open>\<open>net.dtoi\<close> and \<open>net.xtoi\<close>: the number at the front of the text and what follows it.\<close>

definition decDigit :: "char \<Rightarrow> nat option" where
  "decDigit c = (let n = (of_char c :: nat) in if 48 \<le> n \<and> n \<le> 57 then Some (n - 48) else None)"

definition hexDigit :: "char \<Rightarrow> nat option" where
  "hexDigit c = (let n = (of_char c :: nat) in
     if 48 \<le> n \<and> n \<le> 57 then Some (n - 48)
     else if 97 \<le> n \<and> n \<le> 102 then Some (n - 87)
     else if 65 \<le> n \<and> n \<le> 70 then Some (n - 55) else None)"

definition bigNum :: int where
  "bigNum = 16777215"

fun toi :: "(char \<Rightarrow> nat option) \<Rightarrow> nat \<Rightarrow> nat \<Rightarrow> string \<Rightarrow> (nat \<times> string) option" where
  "toi dig base n [] = Some (n, [])"
| "toi dig base n (c # s) = (case dig c of
       None \<Rightarrow> Some (n, c # s)
     | Some d \<Rightarrow> if int (n * base + d) \<ge> bigNum then None else toi dig base (n * base + d) s)"

definition dtoi :: "string \<Rightarrow> (nat \<times> string) option" where
  "dtoi s = (case s of [] \<Rightarrow> None | c # _ \<Rightarrow> if decDigit c = None then None else toi decDigit 10 0 s)"

definition xtoi :: "string \<Rightarrow> (nat \<times> string) option" where
  "xtoi s = (case s of [] \<Rightarrow> None | c # _ \<Rightarrow> if hexDigit c = None then None else toi hexDigit 16 0 s)"

fun parseOctets :: "nat \<Rightarrow> string \<Rightarrow> 8 word list option" where
  "parseOctets 0 s = (if s = [] then Some [] else None)"
| "parseOctets (Suc k) s =
     (case (if k = 3 then Some s else case s of c # t \<Rightarrow> if c = CHR ''.'' then Some t else None | [] \<Rightarrow> None) of
        None \<Rightarrow> None
      | Some t \<Rightarrow> (case dtoi t of
            None \<Rightarrow> None
          | Some (n, u) \<Rightarrow> if int n > 255 then None
              else map_option (\<lambda>bs. word_of_nat n # bs) (parseOctets k u)))"

definition parseIPv4 :: "string \<Rightarrow> ip option" where
  "parseIPv4 s = map_option (\<lambda>bs. v4InV6Prefix @ bs) (parseOctets 4 s)"

text \<open>
  The loop of \<open>parseIPv6\<close>: \<open>bs\<close> are the bytes read so far, \<open>ell\<close> the position of the ellipsis, the
  first argument the number of groups that still fit. The result is the bytes and the position of
  the ellipsis once the whole text is used.
\<close>

fun parseGroups :: "nat \<Rightarrow> 8 word list \<Rightarrow> nat option \<Rightarrow> string \<Rightarrow> (8 word list \<times> nat option) option" where
  "parseGroups 0 bs ell s = (if s = [] then Some (bs, ell) else None)"
| "parseGroups (Suc k) bs ell s =
     (case xtoi s of
        None \<Rightarrow> None
      | Some (n, t) \<Rightarrow>
          if int n > 65535 then None
          else if (case t of c # _ \<Rightarrow> c = CHR ''.'' | [] \<Rightarrow> False) then
            (if (ell = None \<and> length bs \<noteq> 12) \<or> length bs + 4 > 16 then None
             else map_option (\<lambda>v4. (bs @ v4, ell)) (parseOctets 4 s))
          else
            (let bs' = bs @ [word_of_nat (n div 256), word_of_nat (n mod 256)] in
             case t of
               [] \<Rightarrow> Some (bs', ell)
             | c # u \<Rightarrow>
                 if c \<noteq> CHR '':'' then None
                 else (case u of
                     [] \<Rightarrow> None
                   | d # v \<Rightarrow>
                       if d = CHR '':'' then
                         (if ell \<noteq> None then None
                          else if v = [] then Some (bs', Some (length bs'))
                          else parseGroups k bs' (Some (length bs')) v)
                       else parseGroups k bs' ell u)))"

definition parseIPv6 :: "string \<Rightarrow> ip option" where
  "parseIPv6 s =
     (if take 2 s = ''::'' \<and> length s = 2 then Some (replicate 16 0)
      else case (if take 2 s = ''::'' then parseGroups 8 [] (Some 0) (drop 2 s)
                 else parseGroups 8 [] None s) of
          None \<Rightarrow> None
        | Some (bs, ell) \<Rightarrow>
            if length bs < 16 then
              (case ell of None \<Rightarrow> None
               | Some e \<Rightarrow> Some (take e bs @ replicate (16 - length bs) 0 @ drop e bs))
            else if ell \<noteq> None then None else Some bs)"

definition ParseIP :: "string \<Rightarrow> ip option" where
  "ParseIP s =
     (case dropWhile (\<lambda>c. c \<noteq> CHR ''.'' \<and> c \<noteq> CHR '':'') s of
        [] \<Rightarrow> None
      | c # _ \<Rightarrow> if c = CHR ''.'' then parseIPv4 s else parseIPv6 s)"

text \<open>\<open>net.ParseCIDR\<close> and \<open>(*IPNet).Contains\<close>.\<close>

definition CIDRMask :: "nat \<Rightarrow> nat \<Rightarrow> 8 word list" where
  "CIDRMask ones len =
     map (\<lambda>i. if 8 * i + 8 \<le> ones then 255
              else if ones \<le> 8 * i then 0
              else NOT (mask (8 * i + 8 - ones))) [0..<len]"

record IPNet =
  netIP :: ip
  netMask :: "8 word list"

definition maskIP :: "ip \<Rightarrow> 8 word list \<Rightarrow> ip option" where
  "maskIP b m =
     (let b' = (if length m = 4 \<and> length b = 16 \<and> take 12 b = v4InV6Prefix then drop 12 b else b) in
      if length b' \<noteq> length m then None else Some (map2 (AND) b' m))"

definition ParseCIDR :: "string \<Rightarrow> IPNet option" where
  "ParseCIDR s =
     (case Index s ''/'' of
        None \<Rightarrow> None
      | Some i \<Rightarrow>
          (let addr = take i s; m = drop (Suc i) s;
               v4 = parseIPv4 addr;
               iplen = (if v4 = None then 16 else 4);
               ipo = (if v4 = None then parseIPv6 addr else v4) in
           case ipo of
             None \<Rightarrow> None
           | Some b \<Rightarrow>
               (case dtoi m of
                  None \<Rightarrow> None
                | Some (n, rest) \<Rightarrow>
                    if rest \<noteq> [] \<or> n > 8 * iplen then None
                    else map_option (\<lambda>nb. \<lparr>netIP = nb, netMask = CIDRMask n iplen\<rparr>)
                           (maskIP b (CIDRMask n iplen)))))"

definition netContains :: "IPNet \<Rightarrow> ip \<Rightarrow> bool" where
  "netContains n b =
     (let nn = (case To4 (netIP n) of Some x \<Rightarrow> x | None \<Rightarrow> netIP n);
          m = (if length (netMask n) = 16 \<and> length nn = 4 then drop 12 (netMask n) else netMask n);
          x = (case To4 b of Some y \<Rightarrow> y | None \<Rightarrow> b) in
      length x = length nn \<and> length m = length nn \<and>
      list_all2 (\<lambda>p q. p = q) (map2 (AND) nn m) (map2 (AND) x m))"

text \<open>\<open>bytes.Compare(a, b) <= 0\<close>; a nil slice is the empty one.\<close>

fun bytesLe :: "8 word list \<Rightarrow> 8 word list \<Rightarrow> bool" where
  "bytesLe [] ys = True"
| "bytesLe (x # xs) [] = False"
| "bytesLe (x # xs) (y # ys) = (if x = y then bytesLe xs ys else x < y)"

definition sliceOf :: "ip option \<Rightarrow> 8 word list" where
  "sliceOf b = (case b of None \<Rightarrow> [] | Some bs \<Rightarrow> bs)"

text \<open>
  \<open>IP.String\<close>: dotted decimal for an IPv4 address, otherwise groups of lower case hexadecimal with
  the first longest run of at least two zero groups written as a double colon.
\<close>

definition hexChar :: "nat \<Rightarrow> char" where
  "hexChar d = (if d < 10 then char_of (48 + d) else char_of (87 + d))"

fun hexItoa :: "nat \<Rightarrow> string" where
  "hexItoa n = (if n < 16 then [hexChar n] else hexItoa (n div 16) @ [hexChar (n mod 16)])"

declare hexItoa.simps [simp del]

definition hexEncode :: "8 word list \<Rightarrow> string" where
  "hexEncode bs = concat (map (\<lambda>b. [hexChar (unat b div 16), hexChar (unat b mod 16)]) bs)"

fun ipGroups :: "8 word list \<Rightarrow> nat list" where
  "ipGroups (a # b # bs) = (unat a * 256 + unat b) # ipGroups bs"
| "ipGroups bs = []"

definition zeroRun :: "nat list \<Rightarrow> nat \<Rightarrow> nat" where
  "zeroRun gs i = length (takeWhile (\<lambda>g. g = 0) (drop i gs))"

definition longestZeroRun :: "nat list \<Rightarrow> nat \<times> nat" where
  "longestZeroRun gs =
     foldl (\<lambda>(e0, e1) i. if zeroRun gs i > e1 - e0 then (i, i + zeroRun gs i) else (e0, e1))
       (0, 0) [0..<length gs]"

definition IP_String :: "ip \<Rightarrow> string" where
  "IP_String b =
     (if b = [] then ''<nil>''
      else case To4 b of
        Some v4 \<Rightarrow> Join (map (\<lambda>x. Itoa (unat x)) v4) ''.''
      | None \<Rightarrow>
          if length b \<noteq> 16 then ''?'' @ hexEncode b
          else let gs = ipGroups b; (e0, e1) = longestZeroRun gs; hex = map hexItoa gs in
               if e1 - e0 \<le> 1 then Join hex '':''
               else Join (take e0 hex) '':'' @ ''::'' @ Join (drop e1 hex) '':'')"

section \<open>domains.go\<close>

definition ipv4Arpa :: string where "ipv4Arpa = ''.in-addr.arpa.''"
definition ipv6Arpa :: string where "ipv6Arpa = ''.ip6.arpa.''"

definition SubDomain :: "string \<Rightarrow> string" where
  "SubDomain domain =
     (if Contains domain ''.'' \<and> \<not> HasSuffix domain ''.''
      then TrimSpace (case Index domain ''.'' of None \<Rightarrow> domain | Some i \<Rightarrow> drop (Suc i) domain)
      else TrimSpace domain)"

definition ReverseLookupDomain :: "ip option \<Rightarrow> string" where
  "ReverseLookupDomain ipo = (case ipo of None \<Rightarrow> []
     | Some bytes \<Rightarrow>
         if To4 bytes = None
         then Join (map (\<lambda>c. [c]) (rev (hexEncode bytes))) ''.'' @ ipv6Arpa
         else Join (map (\<lambda>b. Itoa (unat b)) (rev (drop (length bytes - 4) bytes))) ''.'' @ ipv4Arpa)"

definition ReverseLookupDomainString :: "string \<Rightarrow> string" where
  "ReverseLookupDomainString ipString =
     (case ParseIP ipString of None \<Rightarrow> [] | Some b \<Rightarrow> ReverseLookupDomain (Some b))"

definition ReverseDomainTree :: "string \<Rightarrow> string" where
  "ReverseDomainTree domain0 =
     (let domain = TrimSpace domain0 in
      if domain = [] \<or> \<not> Contains domain ''.'' then domain
      else let domain = (if HasSuffix domain ''.'' then butlast domain else domain);
               parts = Split CHR ''.'' domain in
           if length parts < 2 then domain else Join (rev parts) ''.'')"

text \<open>The loop of \<open>DomainList\<close>; the second argument is the slice built so far.\<close>

lemma TrimSpace_eq_length: "length (TrimSpace s) = length s \<Longrightarrow> TrimSpace s = s"
proof -
  assume eq: "length (TrimSpace s) = length s"
  have "length (dropWhile IsSpace s) = length s"
    using eq length_dropWhile_le [of IsSpace s] length_dropWhile_le [of IsSpace "rev (dropWhile IsSpace s)"]
    by (simp add: TrimSpace_def)
  then have 1: "dropWhile IsSpace s = s"
    by (metis append_same_eq append_self_conv2 length_append add_cancel_left_left length_0_conv takeWhile_dropWhile_id)
  moreover have "dropWhile IsSpace (rev s) = rev s"
    using eq 1 unfolding TrimSpace_def
    by (metis add_cancel_left_left append_self_conv2 length_append length_0_conv length_rev takeWhile_dropWhile_id)
  ultimately show ?thesis by (simp add: TrimSpace_def)
qed

lemma SubDomain_progress: "SubDomain d = d \<or> length (SubDomain d) < length d"
proof (cases "CHR ''.'' \<in> set d \<and> \<not> HasSuffix d ''.''")
  case True
  then have "SubDomain d = TrimSpace (drop (Suc (length (takeWhile (\<lambda>c. c \<noteq> CHR ''.'') d))) d)"
    by (simp add: SubDomain_def Index_single)
  moreover have "d \<noteq> []"
    using True by auto
  ultimately have "length (SubDomain d) \<le> length d - Suc (length (takeWhile (\<lambda>c. c \<noteq> CHR ''.'') d))"
    by (metis length_TrimSpace length_drop)
  then show ?thesis
    using \<open>d \<noteq> []\<close> by (cases d) auto
next
  case False
  then have "SubDomain d = TrimSpace d"
    by (auto simp: SubDomain_def)
  then show ?thesis
    using TrimSpace_eq_length [of d] length_TrimSpace [of d] by fastforce
qed

function DomainLoop :: "string \<Rightarrow> string list \<Rightarrow> string list" where
  "DomainLoop domain domains =
     (if length domain > 1 \<and> domain \<noteq> ''.'' \<and> (length domains < 1 \<or> domain \<noteq> last domains)
      then if length domains > 0 \<and> \<not> Contains domain ''.'' then domains
           else DomainLoop (SubDomain domain) (domains @ [domain])
      else domains)"
  by pat_completeness auto
termination
proof (relation "measure (\<lambda>(d, ds). 2 * length d + (if ds \<noteq> [] \<and> d = last ds then 0 else 1))")
  fix domain :: string and domains :: "string list"
  assume "length domain > 1 \<and> domain \<noteq> ''.'' \<and> (length domains < 1 \<or> domain \<noteq> last domains)"
  then show "((SubDomain domain, domains @ [domain]), (domain, domains))
      \<in> measure (\<lambda>(d, ds). 2 * length d + (if ds \<noteq> [] \<and> d = last ds then 0 else 1))"
    using SubDomain_progress [of domain] by auto
qed auto

declare DomainLoop.simps [simp del]

definition DomainList :: "string \<Rightarrow> string list" where
  "DomainList domain0 =
     (let domain = TrimSpace domain0 in if domain = [] then [] else DomainLoop domain [])"

section \<open>Facts about the domain helpers\<close>

lemma StringIn_iff [simp]: "StringIn v xs \<longleftrightarrow> v \<in> set xs"
  by (induction xs) auto

text \<open>
  A domain name in the form the engine hands to the rule store: no white space and no trailing
  dot. \<open>parentDomains\<close> cuts one label at a time and stops at the last one.
\<close>

definition cleanDomain :: "string \<Rightarrow> bool" where
  "cleanDomain d \<longleftrightarrow> (\<forall>c \<in> set d. \<not> IsSpace c) \<and> d \<noteq> [] \<and> last d \<noteq> CHR ''.''"

definition cutLabel :: "string \<Rightarrow> string" where
  "cutLabel d = tl (dropWhile (\<lambda>c. c \<noteq> CHR ''.'') d)"

definition labelSuffix :: "string \<Rightarrow> string \<Rightarrow> bool" where
  "labelSuffix e d \<longleftrightarrow> e = d \<or> suffix (CHR ''.'' # e) d"

lemma cutLabel_shorter: "d \<noteq> [] \<Longrightarrow> length (cutLabel d) < length d"
  using length_dropWhile_le [of "\<lambda>c. c \<noteq> CHR ''.''" d]
  by (cases d) (auto simp: cutLabel_def)

function parentDomains :: "string \<Rightarrow> string list" where
  "parentDomains d = (if CHR ''.'' \<in> set d then d # parentDomains (cutLabel d) else [])"
  by pat_completeness auto
termination
proof (relation "measure length")
  fix d :: string
  assume "CHR ''.'' \<in> set d"
  then show "(cutLabel d, d) \<in> measure length"
    using cutLabel_shorter [of d] by (cases d) auto
qed auto

declare parentDomains.simps [simp del]

lemma cutLabel_split:
  assumes "CHR ''.'' \<in> set d"
  shows "d = takeWhile (\<lambda>c. c \<noteq> CHR ''.'') d @ CHR ''.'' # cutLabel d"
proof -
  have ne: "dropWhile (\<lambda>c. c \<noteq> CHR ''.'') d \<noteq> []"
    using assms by auto
  then have "hd (dropWhile (\<lambda>c. c \<noteq> CHR ''.'') d) = CHR ''.''"
    using hd_dropWhile [OF ne] by simp
  then have "dropWhile (\<lambda>c. c \<noteq> CHR ''.'') d = CHR ''.'' # cutLabel d"
    using ne unfolding cutLabel_def by (metis list.collapse)
  then show ?thesis
    by (metis takeWhile_dropWhile_id)
qed

lemma cleanDomain_cutLabel:
  assumes "cleanDomain d" "CHR ''.'' \<in> set d"
  shows "cleanDomain (cutLabel d)"
proof -
  obtain p where d: "d = p @ CHR ''.'' # cutLabel d"
    using cutLabel_split [OF assms(2)] by blast
  have "cutLabel d \<noteq> []"
  proof
    assume "cutLabel d = []"
    then have "last d = CHR ''.''"
      by (subst d) simp
    then show False
      using assms(1) by (simp add: cleanDomain_def)
  qed
  moreover from this have "last (cutLabel d) = last d"
    by (subst (2) d) simp
  moreover have "set (cutLabel d) \<subseteq> set d"
    by (subst (2) d) auto
  ultimately show ?thesis
    using assms(1) by (auto simp: cleanDomain_def)
qed

lemma SubDomain_clean:
  assumes "cleanDomain d" "CHR ''.'' \<in> set d"
  shows "SubDomain d = cutLabel d"
proof -
  have "drop (Suc (length (takeWhile (\<lambda>c. c \<noteq> CHR ''.'') d))) d = cutLabel d"
    by (simp add: cutLabel_def drop_Suc dropWhile_eq_drop tl_drop)
  moreover have "TrimSpace (cutLabel d) = cutLabel d"
    using cleanDomain_cutLabel [OF assms] by (simp add: cleanDomain_def TrimSpace_no_space)
  moreover have "\<not> HasSuffix d ''.''"
    using assms(1) by (simp add: HasSuffix_snoc cleanDomain_def)
  ultimately show ?thesis
    using assms(2) by (simp add: SubDomain_def Index_single)
qed

lemma cleanDomain_long:
  assumes "cleanDomain d" "CHR ''.'' \<in> set d"
  shows "1 < length d" "d \<noteq> ''.''"
proof -
  show "d \<noteq> ''.''"
    using assms by (auto simp: cleanDomain_def)
  then show "1 < length d"
    using assms(2) by (cases d rule: remdups_adj.cases) auto
qed

lemma DomainLoop_parents:
  assumes "cleanDomain d" "ds = [] \<or> d \<noteq> last ds" "ds \<noteq> [] \<or> CHR ''.'' \<in> set d"
  shows "DomainLoop d ds = ds @ parentDomains d"
  using assms
proof (induction d arbitrary: ds rule: parentDomains.induct)
  case (1 d)
  show ?case
  proof (cases "CHR ''.'' \<in> set d")
    case True
    then have ne: "cutLabel d \<noteq> d"
      using cutLabel_shorter [of d] by (cases "d = []") auto
    have "DomainLoop d ds = DomainLoop (cutLabel d) (ds @ [d])"
      using "1.prems" True cleanDomain_long [OF "1.prems"(1) True] SubDomain_clean
      by (simp add: DomainLoop.simps [of d ds])
    also have "\<dots> = (ds @ [d]) @ parentDomains (cutLabel d)"
      using "1.IH" [OF True cleanDomain_cutLabel, of "ds @ [d]"] "1.prems"(1) True ne by simp
    finally show ?thesis
      using True by (simp add: parentDomains.simps [of d])
  next
    case False
    then show ?thesis
      using "1.prems" by (auto simp: DomainLoop.simps [of d ds] parentDomains.simps [of d])
  qed
qed

lemma DomainList_dotted:
  assumes "cleanDomain d" "CHR ''.'' \<in> set d"
  shows "DomainList d = parentDomains d"
  using assms DomainLoop_parents [of d "[]"]
  by (simp add: DomainList_def cleanDomain_def TrimSpace_no_space)

lemma set_parentDomains: "set (parentDomains d) = {e. CHR ''.'' \<in> set e \<and> labelSuffix e d}"
proof (induction d rule: parentDomains.induct)
  case (1 d)
  show ?case
  proof (cases "CHR ''.'' \<in> set d")
    case True
    let ?p = "takeWhile (\<lambda>c. c \<noteq> CHR ''.'') d"
    have d: "d = ?p @ CHR ''.'' # cutLabel d"
      by (rule cutLabel_split [OF True])
    have p: "CHR ''.'' \<notin> set ?p"
      by (auto dest: set_takeWhileD)
    have "labelSuffix e d \<longleftrightarrow> e = d \<or> labelSuffix e (cutLabel d)" for e
    proof -
      have "suffix (CHR ''.'' # e) d \<longleftrightarrow> suffix (CHR ''.'' # e) (CHR ''.'' # cutLabel d)"
        using p by (subst d) (auto simp: suffix_append suffix_def append_eq_Cons_conv Cons_eq_append_conv append_eq_append_conv2)
      then show ?thesis
        by (auto simp: labelSuffix_def suffix_Cons)
    qed
    then show ?thesis
      using 1 True by (auto simp: parentDomains.simps [of d])
  next
    case False
    then have "labelSuffix e d \<Longrightarrow> CHR ''.'' \<notin> set e" for e
      by (auto simp: labelSuffix_def suffix_def)
    then show ?thesis
      using False by (auto simp: parentDomains.simps [of d])
  qed
qed

lemma parentDomains_decreasing: "sorted_wrt (\<lambda>a b. length b < length a) (parentDomains d)"
proof (induction d rule: parentDomains.induct)
  case (1 d)
  have "length e < length d" if "e \<in> set (parentDomains (cutLabel d))" "CHR ''.'' \<in> set d" for e
  proof -
    have "length e \<le> length (cutLabel d)"
      using that(1) by (auto simp: set_parentDomains labelSuffix_def dest: suffix_length_le)
    also have "\<dots> < length d"
      using cutLabel_shorter [of d] that(2) by (cases d) auto
    finally show ?thesis .
  qed
  then show ?case
    using 1 by (auto simp: parentDomains.simps [of d])
qed

end
