(* ===== verification/Config.thy ===== *)
theory Config
  imports Util
begin

text \<open>
  \<^verbatim>\<open>src/config/config.go\<close>, \<^verbatim>\<open>src/config/config_init.go\<close> and \<^verbatim>\<open>src/util/time.go\<close>: the configuration, the
  accessors of its parts and the pass \<open>verifyAndInit\<close> that fills in defaults, normalises names and
  builds the name maps.

  A pointer field that may be nil is an \<open>option\<close>; so is an element of a list of pointers (an empty
  item of the YAML file is a nil pointer). The pass mutates the objects in place; here it returns the
  updated configuration together with the warnings. \<open>time.ParseDuration\<close> (which works in floating
  point on fractions), \<open>user.Current\<close> and the path functions of the operating system are the fields
  of \<open>hostenv\<close>, a parameter of the definitions that use them.
\<close>

section \<open>Environment\<close>

record hostenv =
  stdParseDuration :: "string \<Rightarrow> int result"   \<comment> \<open>nanoseconds\<close>
  userHome :: "string option"
  pathJoin :: "string \<Rightarrow> string \<Rightarrow> string"
  absPath :: "string \<Rightarrow> string option"
  evalSymlinks :: "string \<Rightarrow> string option"

section \<open>util/time.go\<close>

text \<open>Go's \<open>int\<close> has 64 bits here.\<close>

definition wrap64 :: "int \<Rightarrow> int" where
  "wrap64 x = (x + 2 ^ 63) mod 2 ^ 64 - 2 ^ 63"

fun decVal :: "nat \<Rightarrow> string \<Rightarrow> nat" where
  "decVal n [] = n"
| "decVal n (c # s) = decVal (10 * n + (case decDigit c of None \<Rightarrow> 0 | Some d \<Rightarrow> d)) s"

text \<open>
  \<open>FindStringSubmatch\<close> of \<open>([0-9]+?)u\<close> for a unit letter \<open>u\<close>: the leftmost run of digits that is
  followed at once by the unit, as the text before it, the digits, and the text after the unit.
\<close>

fun findToken :: "char \<Rightarrow> string \<Rightarrow> (string \<times> string \<times> string) option" where
  "findToken u [] = None"
| "findToken u (c # s) =
     (let ds = takeWhile (\<lambda>x. decDigit x \<noteq> None) (c # s);
          rest = dropWhile (\<lambda>x. decDigit x \<noteq> None) (c # s) in
      if ds \<noteq> [] \<and> rest \<noteq> [] \<and> hd rest = u then Some ([], ds, tl rest)
      else map_option (\<lambda>(pre, d, post). (c # pre, d, post)) (findToken u s))"

definition regexpTokens :: "(char \<times> int) list" where
  "regexpTokens = [(CHR ''h'', 1), (CHR ''d'', 24), (CHR ''w'', 24 * 7)]"

text \<open>
  One round of the loop: a token that \<open>strconv.Atoi\<close> rejects (out of the range of \<open>int\<close>) is left in
  the text. The text replaced is the first occurrence of the token.
\<close>

definition replaceFirst :: "string \<Rightarrow> string \<Rightarrow> string" where
  "replaceFirst s tok = (case Index s tok of None \<Rightarrow> s | Some i \<Rightarrow> take i s @ drop (i + length tok) s)"

definition durationToken :: "(char \<times> int) \<Rightarrow> int \<times> string \<Rightarrow> int \<times> string" where
  "durationToken t st = (case findToken (fst t) (snd st) of
       None \<Rightarrow> st
     | Some (pre, ds, post) \<Rightarrow>
         let value = int (decVal 0 ds) in
         if value \<le> 2 ^ 63 - 1
         then (wrap64 (fst st + value * snd t), replaceFirst (snd st) (ds @ [fst t]))
         else st)"

definition ParseDuration :: "hostenv \<Rightarrow> string \<Rightarrow> int result" where
  "ParseDuration H input =
     (let (hours, rest) = fold durationToken regexpTokens (0, input) in
      stdParseDuration H (if hours > 0 then Itoa (nat hours) @ ''h'' @ rest else rest))"

section \<open>config.go: data\<close>

datatype ListType = BLOCK | ALLOW

record GudgeonSystemd =
  sdEnabled :: "bool option"
  sdDnsPorts :: "32 word list option"
  sdHttpPorts :: "32 word list option"

record GudgeonDatabase =
  dbFlush :: string

record GudgeonQueryLog =
  qlEnabled :: "bool option"
  qlPersist :: "bool option"
  qlDuration :: string
  qlStdout :: "bool option"
  qlFile :: string
  qlReverseLookup :: "bool option"
  qlMdnsLookup :: "bool option"
  qlNetbiosLookup :: "bool option"

record GudgeonMetrics =
  mtEnabled :: "bool option"
  mtPersist :: "bool option"
  mtDetailed :: "bool option"
  mtDuration :: string
  mtInterval :: string

record GudgeonStorage =
  stRuleStorage :: string
  stCacheEnabled :: "bool option"

record GudgeonInterface =
  ifIP :: string
  ifPort :: int
  ifTCP :: "bool option"
  ifUDP :: "bool option"

record GudgeonNetwork =
  nwTCP :: "bool option"
  nwUDP :: "bool option"
  nwInterfaces :: "GudgeonInterface list"

record GudgeonSource =
  srName :: string
  srSpecs :: "string list"
  srLoadBalance :: bool

record GudgeonResolver =
  rsName :: string
  rsDomains :: "string list"
  rsSkipDomains :: "string list"
  rsSearch :: "string list"
  rsHosts :: "string list"
  rsSources :: "string list"

record GudgeonList =
  lsName :: string
  lsShortName :: string
  lsType :: string
  lsParsedType :: ListType
  lsRegex :: "bool option"
  lsTags :: "string list option"
  lsSource :: string

record GudgeonGroup =
  gpName :: string
  gpInherit :: "string list"
  gpResolvers :: "string list"
  gpLists :: "string list"
  gpTags :: "string list option"

record GudgeonMatchRange =
  rgStart :: string
  rgEnd :: string

record GudgeonMatch =
  mcIP :: string
  mcRange :: "GudgeonMatchRange option"
  mcNet :: string

record GudgeonConsumer =
  csName :: string
  csBlock :: bool
  csGroups :: "string list"
  csMatches :: "GudgeonMatch list"

record GudgeonWeb =
  wbEnabled :: bool
  wbAddress :: string
  wbPort :: int

record GudgeonConfig =
  cfHome :: string
  cfSystemd :: "GudgeonSystemd option"
  cfStorage :: "GudgeonStorage option"
  cfDatabase :: "GudgeonDatabase option"
  cfMetrics :: "GudgeonMetrics option"
  cfQueryLog :: "GudgeonQueryLog option"
  cfNetwork :: "GudgeonNetwork option"
  cfWeb :: "GudgeonWeb option"
  cfSources :: "GudgeonSource option list"
  cfResolvers :: "GudgeonResolver option list"
  cfLists :: "GudgeonList option list"
  cfGroups :: "GudgeonGroup option list"
  cfConsumers :: "GudgeonConsumer option list"
  cfSourceMap :: "string \<rightharpoonup> GudgeonSource"
  cfResolverMap :: "string \<rightharpoonup> GudgeonResolver"
  cfListMap :: "string \<rightharpoonup> GudgeonList"
  cfGroupMap :: "string \<rightharpoonup> GudgeonGroup"
  cfConsumerMap :: "string \<rightharpoonup> GudgeonConsumer"

abbreviation ALLOWSTRING :: string where "ALLOWSTRING \<equiv> ''allow''"
abbreviation BLOCKSTRING :: string where "BLOCKSTRING \<equiv> ''block''"
abbreviation defaultString :: string where "defaultString \<equiv> ''default''"
abbreviation systemString :: string where "systemString \<equiv> ''system''"

definition remoteProtocols :: "string list" where
  "remoteProtocols = [''http:'', ''https:'']"

section \<open>config.go: accessors\<close>

definition CanonicalName :: "GudgeonList \<Rightarrow> string" where
  "CanonicalName l = (if lsName l = [] then lsSource l else lsName l)"

definition ShortName :: "GudgeonList \<Rightarrow> string" where
  "ShortName l = (if lsShortName l = [] then lsName l else lsShortName l)"

definition IsRemote :: "GudgeonList option \<Rightarrow> bool" where
  "IsRemote lo = (case lo of None \<Rightarrow> False
     | Some l \<Rightarrow> lsSource l \<noteq> [] \<and> StartsWithAny (lsSource l) remoteProtocols)"

definition ParsedType :: "GudgeonList \<Rightarrow> ListType" where
  "ParsedType l = lsParsedType l"

definition listPath :: "hostenv \<Rightarrow> GudgeonList \<Rightarrow> string \<Rightarrow> string" where
  "listPath H l cachePath =
     (if IsRemote (Some l) then pathJoin H cachePath (ShortName l @ ''.list'')
      else let source = (case absPath H (lsSource l) of None \<Rightarrow> lsSource l | Some a \<Rightarrow> a) in
           (case evalSymlinks H source of None \<Rightarrow> source | Some e \<Rightarrow> e))"

definition SafeTagsOf :: "string list option \<Rightarrow> string list" where
  "SafeTagsOf tags = (case tags of None \<Rightarrow> [''default''] | Some ts \<Rightarrow> if length ts = 0 then [] else ts)"

definition SafeTags :: "GudgeonList \<Rightarrow> string list" where
  "SafeTags l = SafeTagsOf (lsTags l)"

definition GroupSafeTags :: "GudgeonGroup \<Rightarrow> string list" where
  "GroupSafeTags g = SafeTagsOf (gpTags g)"

definition GetResolver :: "GudgeonConfig \<Rightarrow> string \<Rightarrow> GudgeonResolver option" where
  "GetResolver c name = cfResolverMap c name"

definition GetList :: "GudgeonConfig \<Rightarrow> string \<Rightarrow> GudgeonList option" where
  "GetList c name = cfListMap c name"

definition GetGroup :: "GudgeonConfig \<Rightarrow> string \<Rightarrow> GudgeonGroup option" where
  "GetGroup c name = cfGroupMap c name"

definition GetConsumer :: "GudgeonConfig \<Rightarrow> string \<Rightarrow> GudgeonConsumer option" where
  "GetConsumer c name = cfConsumerMap c name"

definition SessionRoot :: "hostenv \<Rightarrow> GudgeonConfig \<Rightarrow> string" where
  "SessionRoot H c = pathJoin H (cfHome c) ''sessions''"

definition CacheRoot :: "hostenv \<Rightarrow> GudgeonConfig \<Rightarrow> string" where
  "CacheRoot H c = pathJoin H (cfHome c) ''cache''"

definition DataRoot :: "hostenv \<Rightarrow> GudgeonConfig \<Rightarrow> string" where
  "DataRoot H c = pathJoin H (cfHome c) ''data''"

definition PathToList :: "hostenv \<Rightarrow> GudgeonConfig \<Rightarrow> GudgeonList option \<Rightarrow> string" where
  "PathToList H c lo = (case lo of None \<Rightarrow> [] | Some l \<Rightarrow> listPath H l (CacheRoot H c))"

end
