(* ===== verification/Rule.thy ===== *)
theory Rule
  imports Config "HOL-Library.List_Lexorder"
begin

text \<open>
  \<^verbatim>\<open>src/rule/rule.go\<close>, \<^verbatim>\<open>src/rule/rule_complex.go\<close> and the \<open>baseStore\<close> of \<^verbatim>\<open>src/rule/store.go\<close>: how a line of
  a list becomes a rule, which rules are complex, and the bookkeeping of lists that every store
  shares.

  \<open>rulelib\<close> holds the functions of packages outside the repository that the rule code calls:
  \<open>glob.Glob\<close>, \<open>regexp.Compile\<close> (with \<open>MatchString\<close> of the result), the two \<open>murmur3\<close> sums,
  \<open>sortfold.CompareFold\<close> and the Bloom filter of willf/bloom, whose type is the type parameter.
\<close>

record 'f rulelib =
  Glob :: "string \<Rightarrow> string \<Rightarrow> bool"
  RegexCompile :: "string \<Rightarrow> (string \<Rightarrow> bool) option"
  StringSum64 :: "string \<Rightarrow> 64 word"
  StringSum32 :: "string \<Rightarrow> 32 word"
  CompareFold :: "string \<Rightarrow> string \<Rightarrow> int"
  NewWithEstimates :: "nat \<Rightarrow> 'f"
  AddString :: "string \<Rightarrow> 'f \<Rightarrow> 'f"
  TestString :: "'f \<Rightarrow> string \<Rightarrow> bool"

section \<open>rule.go\<close>

abbreviation ruleRegex :: string where "ruleRegex \<equiv> ''/''"
abbreviation ruleGlob :: string where "ruleGlob \<equiv> ''*''"

definition ParseLine :: "string \<Rightarrow> string" where
  "ParseLine line0 =
     (let line = TrimSpace (TrimComments line0 []) in
      case Index line '' '' of None \<Rightarrow> line | Some idx \<Rightarrow> drop (Suc idx) line)"

definition IsComplex :: "string \<Rightarrow> bool" where
  "IsComplex ruleText =
     (Contains ruleText ruleGlob \<or> (HasPrefix ruleText ruleRegex \<and> HasSuffix ruleText ruleRegex))"

section \<open>rule\_complex.go\<close>

datatype ComplexRule =
    WildcardMatchRule string
  | RegexMatchRule string "string \<Rightarrow> bool"

primrec Text :: "ComplexRule \<Rightarrow> string" where
  "Text (WildcardMatchRule t) = t"
| "Text (RegexMatchRule t m) = t"

primrec IsMatch :: "'f rulelib \<Rightarrow> ComplexRule \<Rightarrow> string \<Rightarrow> bool" where
  "IsMatch R (WildcardMatchRule t) sample = Glob R t sample"
| "IsMatch R (RegexMatchRule t m) sample = m sample"

definition createWildcardMatchRule :: "string \<Rightarrow> ComplexRule" where
  "createWildcardMatchRule rule = WildcardMatchRule rule"

definition specifyRegexOnlyRule :: "'f rulelib \<Rightarrow> string \<Rightarrow> ComplexRule option" where
  "specifyRegexOnlyRule R rule = map_option (RegexMatchRule rule) (RegexCompile R rule)"

text \<open>The slice \<open>rule[1 : len(rule)-1]\<close> is out of range for a rule of a single byte.\<close>

definition createRegexMatchRule :: "'f rulelib \<Rightarrow> string \<Rightarrow> ComplexRule option run" where
  "createRegexMatchRule R rule =
     (if length rule < 2 then Panic else Ret (specifyRegexOnlyRule R (butlast (tl rule))))"

definition createComplexRule :: "'f rulelib \<Rightarrow> string \<Rightarrow> ComplexRule option run" where
  "createComplexRule R rule =
     (if HasPrefix rule ruleRegex \<and> HasSuffix rule ruleRegex then createRegexMatchRule R rule
      else if Contains rule ruleGlob then Ret (Some (createWildcardMatchRule rule))
      else Ret None)"

section \<open>store.go: baseStore\<close>

datatype Match = MatchNone | MatchBlock | MatchAllow

type_synonym matchResult = "Match \<times> GudgeonList option \<times> string"

abbreviation noMatch :: matchResult where "noMatch \<equiv> (MatchNone, None, [])"

text \<open>Block or allow, then short name, to list; a type that has no map yet is \<^const>\<open>None\<close>.\<close>

type_synonym baseStore = "ListType \<Rightarrow> (string \<rightharpoonup> GudgeonList) option"

definition emptyBase :: baseStore where
  "emptyBase = (\<lambda>_. None)"

definition addList :: "GudgeonList \<Rightarrow> baseStore \<Rightarrow> baseStore" where
  "addList l b =
     (let m = (case b (ParsedType l) of None \<Rightarrow> Map.empty | Some m \<Rightarrow> m) in
      b(ParsedType l := Some (m(ShortName l \<mapsto> l))))"

definition removeList :: "GudgeonList \<Rightarrow> baseStore \<Rightarrow> baseStore" where
  "removeList l b = (case b (ParsedType l) of
       None \<Rightarrow> b
     | Some m \<Rightarrow> b(ParsedType l := Some (m(ShortName l := None))))"

text \<open>
  \<open>getList\<close> ranges over a Go map, in an order the language leaves open: \<open>ord\<close> is the order in which
  the two types are visited.
\<close>

fun getListIn :: "ListType list \<Rightarrow> baseStore \<Rightarrow> string \<Rightarrow> GudgeonList option" where
  "getListIn [] b name = None"
| "getListIn (t # ts) b name = (case b t of
       None \<Rightarrow> getListIn ts b name
     | Some m \<Rightarrow> (case m name of Some l \<Rightarrow> Some l | None \<Rightarrow> getListIn ts b name))"

definition getList :: "ListType list \<Rightarrow> baseStore \<Rightarrow> string \<Rightarrow> GudgeonList option" where
  "getList ord b name = (if name = [] then None else getListIn ord b name)"

text \<open>
  \<open>forEachOfTypeIn\<close> and \<open>forEachIn\<close> call an action on the lists they find, in order, with a running
  index: the model returns those lists in order; the number of calls is its length.
\<close>

definition forEachOfTypeIn :: "baseStore \<Rightarrow> ListType \<Rightarrow> GudgeonList list \<Rightarrow> GudgeonList list" where
  "forEachOfTypeIn b t ls = (if length ls < 1 then [] else case b t of
       None \<Rightarrow> []
     | Some m \<Rightarrow> List.map_filter (\<lambda>v. m (ShortName v)) ls)"

definition forEachIn :: "ListType list \<Rightarrow> baseStore \<Rightarrow> GudgeonList list \<Rightarrow> GudgeonList list" where
  "forEachIn ord b ls =
     (if length ls < 1 then [] else List.map_filter (\<lambda>l. getList ord b (ShortName l)) ls)"

fun matchLoop :: "(string \<rightharpoonup> GudgeonList) \<Rightarrow> GudgeonList list \<Rightarrow> (GudgeonList \<Rightarrow> matchResult) \<Rightarrow> matchResult" where
  "matchLoop m [] action = noMatch"
| "matchLoop m (v # vs) action = (case m (ShortName v) of
       None \<Rightarrow> matchLoop m vs action
     | Some l \<Rightarrow> (let r = action l in if fst r \<noteq> MatchNone then r else matchLoop m vs action))"

definition matchForEachOfTypeIn ::
  "baseStore \<Rightarrow> ListType \<Rightarrow> GudgeonList list \<Rightarrow> (GudgeonList \<Rightarrow> matchResult) \<Rightarrow> matchResult" where
  "matchForEachOfTypeIn b t ls action =
     (if length ls < 1 then noMatch else case b t of
        None \<Rightarrow> noMatch
      | Some m \<Rightarrow> matchLoop m ls action)"

section \<open>Facts about rules and list bookkeeping\<close>

text \<open>The list that the base store knows under a type and a short name.\<close>

definition baseLookup :: "baseStore \<Rightarrow> ListType \<Rightarrow> string \<Rightarrow> GudgeonList option" where
  "baseLookup b t name = (case b t of None \<Rightarrow> None | Some m \<Rightarrow> m name)"

lemma baseLookup_empty [simp]: "baseLookup emptyBase t n = None"
  by (simp add: baseLookup_def emptyBase_def)

lemma baseLookup_addList [simp]:
  "baseLookup (addList l b) t n = (if t = ParsedType l \<and> n = ShortName l then Some l else baseLookup b t n)"
  by (auto simp: baseLookup_def addList_def Let_def split: option.splits)

lemma baseLookup_removeList [simp]:
  "baseLookup (removeList l b) t n = (if t = ParsedType l \<and> n = ShortName l then None else baseLookup b t n)"
  by (auto simp: baseLookup_def removeList_def split: option.splits)

fun lookupLoop :: "baseStore \<Rightarrow> ListType \<Rightarrow> GudgeonList list \<Rightarrow> (GudgeonList \<Rightarrow> matchResult) \<Rightarrow> matchResult" where
  "lookupLoop b t [] action = noMatch"
| "lookupLoop b t (v # vs) action = (case baseLookup b t (ShortName v) of
       None \<Rightarrow> lookupLoop b t vs action
     | Some l \<Rightarrow> if fst (action l) \<noteq> MatchNone then action l else lookupLoop b t vs action)"

lemma matchForEachOfTypeIn_eq: "matchForEachOfTypeIn b t ls action = lookupLoop b t ls action"
proof (cases "b t")
  case None
  then have "lookupLoop b t ls action = noMatch"
    by (induction ls) (auto simp: baseLookup_def)
  with None show ?thesis by (simp add: matchForEachOfTypeIn_def)
next
  case (Some m)
  then have "matchLoop m ls action = lookupLoop b t ls action"
    by (induction ls) (auto simp: baseLookup_def Let_def split: option.splits)
  with Some show ?thesis by (cases ls) (auto simp: matchForEachOfTypeIn_def)
qed

lemma lookupLoop_None_iff:
  "fst (lookupLoop b t ls action) = MatchNone \<longleftrightarrow>
     (\<forall>v \<in> set ls. \<forall>l. baseLookup b t (ShortName v) = Some l \<longrightarrow> fst (action l) = MatchNone)"
  by (induction ls) (auto split: option.splits)

lemma lookupLoop_found:
  "fst (lookupLoop b t ls action) \<noteq> MatchNone \<Longrightarrow>
     \<exists>v \<in> set ls. \<exists>l. baseLookup b t (ShortName v) = Some l \<and> lookupLoop b t ls action = action l"
  by (induction ls) (auto split: option.splits if_splits)

lemma lookupLoop_None: "fst (lookupLoop b t ls action) = MatchNone \<Longrightarrow> lookupLoop b t ls action = noMatch"
  by (induction ls) (auto split: option.splits if_splits)

lemma lookupLoop_cong:
  "(\<And>n l. baseLookup b t n = Some l \<Longrightarrow> f l = g l) \<Longrightarrow> lookupLoop b t ls f = lookupLoop b t ls g"
  by (induction ls) (auto split: option.splits)

lemma IsComplex_createComplexRule:
  "\<not> IsComplex r \<Longrightarrow> createComplexRule R r = Ret None"
  by (auto simp: IsComplex_def createComplexRule_def)

section \<open>A concrete library\<close>

text \<open>
  An instance of \<open>rulelib\<close> and two lists, on which examples evaluate: globs that start with a star
  match by suffix, every regular expression is refused, sums are polynomial, the comparison is
  the lexicographic one on lower case bytes, and the Bloom filter is an exact list.
\<close>

definition foldKey :: "string \<Rightarrow> nat list" where
  "foldKey s = map of_char (ToLower s)"

definition demoSum :: "string \<Rightarrow> int" where
  "demoSum s = foldl (\<lambda>h c. h * 31 + of_char c) 7 s"

definition demoLib :: "string list rulelib" where
  "demoLib = \<lparr>Glob = (\<lambda>p s. HasPrefix p ''*'' \<and> HasSuffix s (tl p)), RegexCompile = (\<lambda>p. None),
     StringSum64 = (\<lambda>s. word_of_int (demoSum s)), StringSum32 = (\<lambda>s. word_of_int (demoSum s)),
     CompareFold = (\<lambda>a b. if foldKey a < foldKey b then -1 else if foldKey a = foldKey b then 0 else 1),
     NewWithEstimates = (\<lambda>n. []), AddString = (\<lambda>s f. s # f), TestString = (\<lambda>f s. s \<in> set f)\<rparr>"

definition demoBlock :: GudgeonList where
  "demoBlock = \<lparr>lsName = ''ads'', lsShortName = ''ads'', lsType = ''block'', lsParsedType = BLOCK, lsRegex = None,
     lsTags = None, lsSource = ''ads.list''\<rparr>"

definition demoAllow :: GudgeonList where
  "demoAllow = \<lparr>lsName = ''good'', lsShortName = ''good'', lsType = ''allow'', lsParsedType = ALLOW, lsRegex = None,
     lsTags = None, lsSource = ''good.list''\<rparr>"

lemma demo_names [simp]:
  "CanonicalName demoBlock = ''ads''" "ShortName demoBlock = ''ads''" "ParsedType demoBlock = BLOCK"
  "CanonicalName demoAllow = ''good''" "ShortName demoAllow = ''good''" "ParsedType demoAllow = ALLOW"
  "lsRegex demoBlock = None" "lsRegex demoAllow = None" "lsSource demoBlock = ''ads.list''" "lsSource demoAllow = ''good.list''"
  by (simp_all add: demoBlock_def demoAllow_def CanonicalName_def ShortName_def ParsedType_def)

lemma foldKey_eq: "foldKey a = foldKey b \<longleftrightarrow> EqualFold a b"
  by (simp add: foldKey_def EqualFold_def inj_map_eq_map inj_def)

end
