(* ===== verification/Store_Spec.thy ===== *)
theory Store_Spec
  imports Rule
begin

text \<open>
  The contract of the interface \<open>Store\<close> of \<^verbatim>\<open>src/rule/store.go\<close>, as a locale.

  A store keeps, per canonical list name, a set of rules; \<open>hit s n d\<close> says that the rules kept for the
  list named \<open>n\<close> cover the domain \<open>d\<close>. \<open>same r d\<close> says that the rule text \<open>r\<close> alone covers \<open>d\<close>: equality
  up to case for the memory store, equality of hashes for the hash stores. \<open>searchable s n\<close> says that
  lookups in the list \<open>n\<close> can be trusted (the memory store must have sorted it). The laws say what
  \<open>Load\<close>, \<open>Clear\<close> and \<open>Finalize\<close> do to this view and that \<open>FindMatch\<close> decides by it: the first allow
  list with a hit wins over every block list, and the first block list with a hit comes next.

  The lemmas inside the locale are about the sequences of calls the program makes: loading a list and
  reloading it after its file changed.
\<close>

section \<open>The decision\<close>

definition firstList :: "baseStore \<Rightarrow> ListType \<Rightarrow> GudgeonList list \<Rightarrow> (GudgeonList \<Rightarrow> bool) \<Rightarrow> GudgeonList option" where
  "firstList b t ls P = List.find P (List.map_filter (\<lambda>v. baseLookup b t (ShortName v)) ls)"

definition listHit :: "(string \<Rightarrow> string \<Rightarrow> bool) \<Rightarrow> string \<Rightarrow> GudgeonList \<Rightarrow> bool" where
  "listHit hit domain l = list_ex (hit (CanonicalName l)) (DomainList domain)"

definition specMatchBy :: "baseStore \<Rightarrow> (GudgeonList \<Rightarrow> bool) \<Rightarrow> GudgeonList list \<Rightarrow> Match \<times> GudgeonList option" where
  "specMatchBy b P ls =
     (case firstList b ALLOW ls P of
        Some l \<Rightarrow> (MatchAllow, Some l)
      | None \<Rightarrow> (case firstList b BLOCK ls P of
          Some l \<Rightarrow> (MatchBlock, Some l)
        | None \<Rightarrow> (MatchNone, None)))"

definition specMatch :: "baseStore \<Rightarrow> (string \<Rightarrow> string \<Rightarrow> bool) \<Rightarrow> GudgeonList list \<Rightarrow> string
    \<Rightarrow> Match \<times> GudgeonList option" where
  "specMatch b hit ls domain = specMatchBy b (listHit hit domain) ls"

definition decision :: "matchResult \<Rightarrow> Match \<times> GudgeonList option" where
  "decision r = (fst r, fst (snd r))"

text \<open>
  The shape of every \<open>FindMatch\<close>: one pass over the allow lists, then one over the block lists. The
  action gets the answer it gives on a hit.
\<close>

definition allowThenBlock :: "baseStore \<Rightarrow> GudgeonList list \<Rightarrow> (Match \<Rightarrow> GudgeonList \<Rightarrow> matchResult) \<Rightarrow> matchResult" where
  "allowThenBlock b ls action =
     (let r = matchForEachOfTypeIn b ALLOW ls (action MatchAllow) in
      if fst r \<noteq> MatchNone then r else matchForEachOfTypeIn b BLOCK ls (action MatchBlock))"

lemma decision_simp [simp]: "decision (m, l, r) = (m, l)"
  by (simp add: decision_def)

lemma firstList_Cons:
  "firstList b t (v # vs) P = (case baseLookup b t (ShortName v) of
      None \<Rightarrow> firstList b t vs P
    | Some l \<Rightarrow> if P l then Some l else firstList b t vs P)"
  by (simp add: firstList_def List.map_filter_def split: option.splits)

lemma firstList_Nil [simp]: "firstList b t [] P = None"
  by (simp add: firstList_def List.map_filter_def)

lemma firstList_cong:
  "(\<And>n l. baseLookup b t n = Some l \<Longrightarrow> P l = Q l) \<Longrightarrow> firstList b t ls P = firstList b t ls Q"
  by (induction ls) (auto simp: firstList_Cons split: option.splits)

lemma firstList_None_iff:
  "firstList b t ls P = None \<longleftrightarrow> (\<forall>v \<in> set ls. \<forall>l. baseLookup b t (ShortName v) = Some l \<longrightarrow> \<not> P l)"
  by (induction ls) (auto simp: firstList_Cons split: option.splits)

lemma firstList_SomeD:
  "firstList b t ls P = Some l \<Longrightarrow> P l \<and> (\<exists>v \<in> set ls. baseLookup b t (ShortName v) = Some l)"
  by (induction ls) (auto simp: firstList_Cons split: option.splits if_splits)

lemma listHit_iff: "listHit hit domain l \<longleftrightarrow> (\<exists>d \<in> set (DomainList domain). hit (CanonicalName l) d)"
  by (simp add: listHit_def list_ex_iff)

lemma lookupLoop_firstList:
  assumes "m \<noteq> MatchNone"
    and "\<And>n l. baseLookup b t n = Some l \<Longrightarrow> decision (action l) = (if P l then (m, Some l) else (MatchNone, None))"
  shows "decision (lookupLoop b t ls action) =
    (case firstList b t ls P of Some l \<Rightarrow> (m, Some l) | None \<Rightarrow> (MatchNone, None))"
  using assms
proof (induction ls)
  case Nil
  then show ?case by (simp add: decision_def)
next
  case (Cons v vs)
  then show ?case
  proof (cases "baseLookup b t (ShortName v)")
    case (Some l)
    have IH: "decision (lookupLoop b t vs action) =
        (case firstList b t vs P of Some l \<Rightarrow> (m, Some l) | None \<Rightarrow> (MatchNone, None))"
      by (rule Cons.IH) (use Cons.prems in auto)
    show ?thesis
      using Cons.prems(2) [OF Some] Cons.prems(1) Some IH
      by (cases "P l") (auto simp: firstList_Cons decision_def)
  qed (use Cons in \<open>auto simp: firstList_Cons\<close>)
qed

lemma allowThenBlock_specBy:
  assumes "\<And>t n l m. baseLookup b t n = Some l \<Longrightarrow> m \<noteq> MatchNone \<Longrightarrow>
      decision (action m l) = (if P l then (m, Some l) else (MatchNone, None))"
  shows "decision (allowThenBlock b ls action) = specMatchBy b P ls"
proof -
  have A: "decision (lookupLoop b ALLOW ls (action MatchAllow)) =
      (case firstList b ALLOW ls P of Some l \<Rightarrow> (MatchAllow, Some l) | None \<Rightarrow> (MatchNone, None))"
    by (rule lookupLoop_firstList) (use assms in auto)
  have B: "decision (lookupLoop b BLOCK ls (action MatchBlock)) =
      (case firstList b BLOCK ls P of Some l \<Rightarrow> (MatchBlock, Some l) | None \<Rightarrow> (MatchNone, None))"
    by (rule lookupLoop_firstList) (use assms in auto)
  from A have "fst (lookupLoop b ALLOW ls (action MatchAllow)) \<noteq> MatchNone \<longleftrightarrow> firstList b ALLOW ls P \<noteq> None"
    by (auto simp: decision_def split: option.splits)
  with A B show ?thesis
    by (auto simp: allowThenBlock_def specMatchBy_def matchForEachOfTypeIn_eq Let_def split: option.splits)
qed

lemma allowThenBlock_spec:
  assumes "\<And>t n l m. baseLookup b t n = Some l \<Longrightarrow> m \<noteq> MatchNone \<Longrightarrow>
      decision (action m l) = (if listHit hit domain l then (m, Some l) else (MatchNone, None))"
  shows "decision (allowThenBlock b ls action) = specMatch b hit ls domain"
  unfolding specMatch_def by (rule allowThenBlock_specBy) (rule assms)

lemma specMatchBy_cong:
  assumes "\<And>t n l. baseLookup b t n = Some l \<Longrightarrow> P l = Q l"
  shows "specMatchBy b P ls = specMatchBy b Q ls"
proof -
  have "firstList b t ls P = firstList b t ls Q" for t
    by (rule firstList_cong) (rule assms)
  then show ?thesis by (simp only: specMatchBy_def)
qed

lemma specMatchBy_None_iff:
  "fst (specMatchBy b P ls) = MatchNone \<longleftrightarrow> (\<forall>t. firstList b t ls P = None)"
  unfolding specMatchBy_def by (auto split: option.splits) (metis ListType.exhaust)

section \<open>The interface\<close>

locale rule_store =
  fixes same :: "string \<Rightarrow> string \<Rightarrow> bool"
    and inv :: "'s \<Rightarrow> bool"
    and base :: "'s \<Rightarrow> baseStore"
    and known :: "'s \<Rightarrow> string set"
    and hit :: "'s \<Rightarrow> string \<Rightarrow> string \<Rightarrow> bool"
    and searchable :: "'s \<Rightarrow> string \<Rightarrow> bool"
    and load :: "'s \<Rightarrow> GudgeonList \<Rightarrow> string \<Rightarrow> 's run"
    and clear :: "'s \<Rightarrow> GudgeonList \<Rightarrow> 's"
    and finalize :: "'s \<Rightarrow> GudgeonList list \<Rightarrow> 's"
    and findMatch :: "'s \<Rightarrow> GudgeonList list \<Rightarrow> string \<Rightarrow> matchResult"
  assumes same_refl: "ToLower r = ToLower d \<Longrightarrow> same r d"
    and load_ok: "inv s \<Longrightarrow> CanonicalName l \<in> known s \<Longrightarrow> \<exists>s'. load s l r = Ret s' \<and> inv s' \<and>
      known s' = known s \<and> base s' = addList l (base s) \<and>
      (\<forall>n d. hit s' n d \<longleftrightarrow> hit s n d \<or> n = CanonicalName l \<and> same r d) \<and>
      (\<forall>n. n \<noteq> CanonicalName l \<longrightarrow> searchable s' n = searchable s n)"
    and clear_ok: "inv s \<Longrightarrow> inv (clear s l) \<and> known (clear s l) = insert (CanonicalName l) (known s) \<and>
      base (clear s l) = removeList l (base s) \<and>
      (\<forall>n d. hit (clear s l) n d \<longleftrightarrow> n \<noteq> CanonicalName l \<and> hit s n d) \<and>
      (\<forall>n. searchable (clear s l) n \<longleftrightarrow> n = CanonicalName l \<or> searchable s n)"
    and finalize_ok: "inv s \<Longrightarrow> inv (finalize s ls) \<and> known (finalize s ls) = known s \<and>
      base (finalize s ls) = base s \<and> hit (finalize s ls) = hit s \<and>
      (\<forall>n. searchable s n \<or> n \<in> CanonicalName ` set ls \<longrightarrow> searchable (finalize s ls) n)"
    and findMatch_ok: "inv s \<Longrightarrow> (\<And>t n l. baseLookup (base s) t n = Some l \<Longrightarrow> searchable s (CanonicalName l)) \<Longrightarrow>
      decision (findMatch s ls domain) = specMatch (base s) (hit s) ls domain"
begin

text \<open>Loading the rules of a list one after the other, as \<open>loadList\<close> does.\<close>

primrec loadAll :: "'s \<Rightarrow> GudgeonList \<Rightarrow> string list \<Rightarrow> 's run" where
  "loadAll s l [] = Ret s"
| "loadAll s l (r # rs) = bind_run (load s l r) (\<lambda>s'. loadAll s' l rs)"

definition reload :: "'s \<Rightarrow> GudgeonList \<Rightarrow> string list \<Rightarrow> 's run" where
  "reload s l rs = bind_run (loadAll (clear s l) l rs) (\<lambda>s'. Ret (finalize s' [l]))"

lemma loadAll_ok:
  assumes "inv s" "CanonicalName l \<in> known s"
  shows "\<exists>s'. loadAll s l rs = Ret s' \<and> inv s' \<and> known s' = known s \<and>
      base s' = (if rs = [] then base s else addList l (base s)) \<and>
      (\<forall>n d. hit s' n d \<longleftrightarrow> hit s n d \<or> n = CanonicalName l \<and> (\<exists>r \<in> set rs. same r d)) \<and>
      (\<forall>n. n \<noteq> CanonicalName l \<longrightarrow> searchable s' n = searchable s n)"
  using assms
proof (induction rs arbitrary: s)
  case Nil
  then show ?case by simp
next
  case (Cons r rs)
  from load_ok [OF Cons.prems, of r] obtain s1 where s1:
    "load s l r = Ret s1" "inv s1" "known s1 = known s" "base s1 = addList l (base s)"
    "\<forall>n d. hit s1 n d \<longleftrightarrow> hit s n d \<or> n = CanonicalName l \<and> same r d"
    "\<forall>n. n \<noteq> CanonicalName l \<longrightarrow> searchable s1 n = searchable s n"
    by blast
  with Cons.prems Cons.IH [of s1] obtain s2 where s2:
    "loadAll s1 l rs = Ret s2" "inv s2" "known s2 = known s1"
    "base s2 = (if rs = [] then base s1 else addList l (base s1))"
    "\<forall>n d. hit s2 n d \<longleftrightarrow> hit s1 n d \<or> n = CanonicalName l \<and> (\<exists>r \<in> set rs. same r d)"
    "\<forall>n. n \<noteq> CanonicalName l \<longrightarrow> searchable s2 n = searchable s1 n"
    by auto
  have "addList l (addList l (base s)) = addList l (base s)"
    by (auto simp: addList_def Let_def fun_eq_iff)
  then have "base s2 = addList l (base s)"
    using s1(4) s2(4) by simp
  then show ?case
    using s1 s2 by auto
qed

text \<open>
  After a reload the list decides by exactly its new rules, every other list as before; lookups are
  trusted again.
\<close>

lemma reload_exact:
  assumes "inv s" "\<And>n. searchable s n"
  shows "\<exists>s'. reload s l rs = Ret s' \<and> inv s' \<and> (\<forall>n. searchable s' n) \<and>
      base s' = (if rs = [] then removeList l (base s) else addList l (removeList l (base s))) \<and>
      (\<forall>n d. hit s' n d \<longleftrightarrow> (if n = CanonicalName l then \<exists>r \<in> set rs. same r d else hit s n d)) \<and>
      (\<forall>ls domain. decision (findMatch s' ls domain) = specMatch (base s') (hit s') ls domain)"
proof -
  let ?s = "clear s l"
  have c: "inv ?s" "known ?s = insert (CanonicalName l) (known s)" "base ?s = removeList l (base s)"
    "\<forall>n d. hit ?s n d \<longleftrightarrow> n \<noteq> CanonicalName l \<and> hit s n d" "\<forall>n. searchable ?s n"
    using clear_ok [OF assms(1)] assms(2) by auto
  obtain s1 where s1: "loadAll ?s l rs = Ret s1" "inv s1"
      "base s1 = (if rs = [] then base ?s else addList l (base ?s))"
      "\<forall>n d. hit s1 n d \<longleftrightarrow> hit ?s n d \<or> n = CanonicalName l \<and> (\<exists>r \<in> set rs. same r d)"
      "\<forall>n. n \<noteq> CanonicalName l \<longrightarrow> searchable s1 n = searchable ?s n"
    using loadAll_ok [of ?s l rs] c by auto
  let ?t = "finalize s1 [l]"
  have f: "inv ?t" "base ?t = base s1" "hit ?t = hit s1"
    using finalize_ok [OF s1(2), of "[l]"] by auto
  have sr: "searchable ?t n" for n
    using finalize_ok [OF s1(2), of "[l]"] s1(5) c(5) by (cases "n = CanonicalName l") auto
  have "decision (findMatch ?t ls domain) = specMatch (base ?t) (hit ?t) ls domain" for ls domain
    by (rule findMatch_ok) (use f sr in auto)
  then show ?thesis
    using f sr s1 c by (auto simp: reload_def)
qed

text \<open>A store never blocks a domain that an allow list of the request covers.\<close>

lemma allow_wins:
  assumes "inv s" "\<And>n. searchable s n"
    and "v \<in> set ls" "baseLookup (base s) ALLOW (ShortName v) = Some l"
    and "d \<in> set (DomainList domain)" "hit s (CanonicalName l) d"
  shows "fst (findMatch s ls domain) = MatchAllow"
proof -
  have "decision (findMatch s ls domain) = specMatch (base s) (hit s) ls domain"
    by (rule findMatch_ok) (use assms in auto)
  moreover have "firstList (base s) ALLOW ls (listHit (hit s) domain) \<noteq> None"
    using assms(3-6) by (auto simp: firstList_None_iff listHit_iff)
  ultimately show ?thesis
    by (auto simp: specMatch_def specMatchBy_def decision_def)
qed

end

end
