(* ===== verification/Store_Memory.thy ===== *)
theory Store_Memory
  imports Store_Spec "HOL-Library.Multiset"
begin

text \<open>
  \<^verbatim>\<open>src/rule/store_memory.go\<close>: rules as sorted slices with binary search, and an implementation of the
  contract \<open>rule_store\<close>.

  \<open>sort.Search\<close> is Go's bisection loop. \<open>sort.Slice\<close> is modelled by insertion; Go picks other
  algorithms for long slices, which makes no difference here: \<open>sortSlice_unique\<close> shows that the rules,
  all lower case, have only one sorted order. \<open>compareFold_ok\<close> is what the code relies on of
  \<open>sortfold.CompareFold\<close>: an order whose equality is equality up to case.
\<close>

section \<open>sort\<close>

function searchLoop :: "(nat \<Rightarrow> bool) \<Rightarrow> nat \<Rightarrow> nat \<Rightarrow> nat" where
  "searchLoop f i j =
     (if i < j then
        (let h = (i + j) div 2 in if \<not> f h then searchLoop f (Suc h) j else searchLoop f i h)
      else i)"
  by pat_completeness auto
termination
  by (relation "measure (\<lambda>(f, i, j). j - i)") auto

declare searchLoop.simps [simp del]

definition Search :: "nat \<Rightarrow> (nat \<Rightarrow> bool) \<Rightarrow> nat" where
  "Search n f = searchLoop f 0 n"

primrec insertBy :: "('a \<Rightarrow> 'a \<Rightarrow> bool) \<Rightarrow> 'a \<Rightarrow> 'a list \<Rightarrow> 'a list" where
  "insertBy lt x [] = [x]"
| "insertBy lt x (y # ys) = (if lt x y then x # y # ys else y # insertBy lt x ys)"

definition sortSlice :: "('a \<Rightarrow> 'a \<Rightarrow> bool) \<Rightarrow> 'a list \<Rightarrow> 'a list" where
  "sortSlice lt xs = foldl (\<lambda>acc x. insertBy lt x acc) [] xs"

section \<open>memoryStore\<close>

record memoryStore =
  memBase :: baseStore
  memRules :: "string \<rightharpoonup> string list"

fun memInitLoop :: "GudgeonList list \<Rightarrow> (string \<rightharpoonup> string list) \<Rightarrow> (string \<rightharpoonup> string list)" where
  "memInitLoop [] m = m"
| "memInitLoop (l # ls) m =
     memInitLoop ls (if m (CanonicalName l) = None then m(CanonicalName l \<mapsto> []) else m)"

definition memInit :: "memoryStore \<Rightarrow> GudgeonList list \<Rightarrow> memoryStore" where
  "memInit s ls = s\<lparr>memRules := memInitLoop ls Map.empty\<rparr>"

definition memClear :: "memoryStore \<Rightarrow> GudgeonList \<Rightarrow> memoryStore" where
  "memClear s l = s\<lparr>memRules := (memRules s)(CanonicalName l \<mapsto> []), memBase := removeList l (memBase s)\<rparr>"

definition memLoad :: "memoryStore \<Rightarrow> GudgeonList \<Rightarrow> string \<Rightarrow> memoryStore" where
  "memLoad s l rule =
     (let old = (case memRules s (CanonicalName l) of None \<Rightarrow> [] | Some rs \<Rightarrow> rs) in
      s\<lparr>memRules := (memRules s)(CanonicalName l \<mapsto> old @ [ToLower rule]), memBase := addList l (memBase s)\<rparr>)"

definition foldLess :: "'f rulelib \<Rightarrow> string \<Rightarrow> string \<Rightarrow> bool" where
  "foldLess R a b = (CompareFold R a b < 0)"

fun memFinalizeLoop :: "'f rulelib \<Rightarrow> GudgeonList list \<Rightarrow> (string \<rightharpoonup> string list) \<Rightarrow> (string \<rightharpoonup> string list)" where
  "memFinalizeLoop R [] m = m"
| "memFinalizeLoop R (l # ls) m =
     memFinalizeLoop R ls (case m (CanonicalName l) of
         None \<Rightarrow> m
       | Some rs \<Rightarrow> m(CanonicalName l \<mapsto> sortSlice (foldLess R) rs))"

definition memFinalize :: "'f rulelib \<Rightarrow> memoryStore \<Rightarrow> GudgeonList list \<Rightarrow> memoryStore" where
  "memFinalize R s ls = s\<lparr>memRules := memFinalizeLoop R ls (memRules s)\<rparr>"

definition memFoundInList :: "'f rulelib \<Rightarrow> string list \<Rightarrow> string \<Rightarrow> bool \<times> string" where
  "memFoundInList R rules domain =
     (let idx = Search (length rules) (\<lambda>i. CompareFold R (rules ! i) domain \<ge> 0) in
      if idx < length rules \<and> EqualFold (rules ! idx) domain then (True, rules ! idx) else (False, []))"

fun memDomainLoop :: "'f rulelib \<Rightarrow> string list \<Rightarrow> string list \<Rightarrow> Match \<Rightarrow> GudgeonList \<Rightarrow> matchResult" where
  "memDomainLoop R rules [] m l = noMatch"
| "memDomainLoop R rules (d # ds) m l =
     (let (found, ruleString) = memFoundInList R rules d in
      if found then (m, Some l, ruleString) else memDomainLoop R rules ds m l)"

definition memFindMatch :: "'f rulelib \<Rightarrow> memoryStore \<Rightarrow> GudgeonList list \<Rightarrow> string \<Rightarrow> matchResult" where
  "memFindMatch R s ls domain =
     (let domains = DomainList domain in
      allowThenBlock (memBase s) ls (\<lambda>m l.
        case memRules s (CanonicalName l) of
          None \<Rightarrow> noMatch
        | Some rules \<Rightarrow> memDomainLoop R rules domains m l))"

definition memClose :: "memoryStore \<Rightarrow> memoryStore" where
  "memClose s = s\<lparr>memRules := Map.empty\<rparr>"

section \<open>Bisection and sorting\<close>

lemma searchLoop_correct:
  assumes "i \<le> j" "j \<le> n" "\<forall>k < i. \<not> f k" "\<forall>k. j \<le> k \<and> k < n \<longrightarrow> f k"
    and "\<forall>k k'. k \<le> k' \<and> k' < n \<and> f k \<longrightarrow> f k'"
  shows "searchLoop f i j \<le> n \<and> (\<forall>k < searchLoop f i j. \<not> f k) \<and>
    (\<forall>k. searchLoop f i j \<le> k \<and> k < n \<longrightarrow> f k)"
  using assms
proof (induction f i j rule: searchLoop.induct)
  case (1 f i j)
  let ?h = "(i + j) div 2"
  show ?case
  proof (cases "i < j")
    case True
    then have h: "i \<le> ?h" "?h < j" "?h < n"
      using "1.prems"(2) by auto
    show ?thesis
    proof (cases "f ?h")
      case False
      have "\<forall>k < Suc ?h. \<not> f k"
        using "1.prems"(5) h False by (meson less_Suc_eq_le)
      then have "searchLoop f (Suc ?h) j \<le> n \<and> (\<forall>k < searchLoop f (Suc ?h) j. \<not> f k) \<and>
          (\<forall>k. searchLoop f (Suc ?h) j \<le> k \<and> k < n \<longrightarrow> f k)"
        by (intro "1.IH"(1)) (use True False "1.prems" h in auto)
      then show ?thesis
        using True False by (simp add: searchLoop.simps [of f i j] Let_def)
    next
      case fh: True
      have "\<forall>k. ?h \<le> k \<and> k < n \<longrightarrow> f k"
        using "1.prems"(5) fh by blast
      then have "searchLoop f i ?h \<le> n \<and> (\<forall>k < searchLoop f i ?h. \<not> f k) \<and>
          (\<forall>k. searchLoop f i ?h \<le> k \<and> k < n \<longrightarrow> f k)"
        by (intro "1.IH"(2)) (use True fh "1.prems" h in auto)
      then show ?thesis
        using True fh by (simp add: searchLoop.simps [of f i j] Let_def)
    qed
  next
    case False
    then have "searchLoop f i j = i"
      by (simp add: searchLoop.simps [of f i j])
    with "1.prems" False show ?thesis
      by auto
  qed
qed

lemma Search_correct:
  assumes "\<forall>k k'. k \<le> k' \<and> k' < n \<and> f k \<longrightarrow> f k'"
  shows "Search n f \<le> n \<and> (\<forall>k < Search n f. \<not> f k) \<and> (\<forall>k. Search n f \<le> k \<and> k < n \<longrightarrow> f k)"
  unfolding Search_def by (rule searchLoop_correct) (use assms in auto)

lemma mset_insertBy: "mset (insertBy lt x ys) = add_mset x (mset ys)"
  by (induction ys) auto

lemma set_insertBy [simp]: "set (insertBy lt x ys) = insert x (set ys)"
  by (induction ys) auto

lemma foldl_insertBy_mset: "mset (foldl (\<lambda>acc x. insertBy lt x acc) acc xs) = mset acc + mset xs"
  by (induction xs arbitrary: acc) (auto simp: mset_insertBy)

lemma mset_sortSlice [simp]: "mset (sortSlice lt xs) = mset xs"
  by (simp add: sortSlice_def foldl_insertBy_mset)

lemma set_sortSlice [simp]: "set (sortSlice lt xs) = set xs"
  by (metis mset_sortSlice set_mset_mset)

definition compareFold_ok :: "'f rulelib \<Rightarrow> bool" where
  "compareFold_ok R \<longleftrightarrow>
     (\<forall>a b. CompareFold R a b = 0 \<longleftrightarrow> EqualFold a b) \<and>
     (\<forall>a b. CompareFold R a b < 0 \<longleftrightarrow> CompareFold R b a > 0) \<and>
     (\<forall>a b c. CompareFold R a b \<le> 0 \<longrightarrow> CompareFold R b c \<le> 0 \<longrightarrow> CompareFold R a c \<le> 0)"

abbreviation foldLe :: "'f rulelib \<Rightarrow> string \<Rightarrow> string \<Rightarrow> bool" where
  "foldLe R a b \<equiv> CompareFold R a b \<le> 0"

lemma foldLe_trans: "compareFold_ok R \<Longrightarrow> foldLe R a b \<Longrightarrow> foldLe R b c \<Longrightarrow> foldLe R a c"
  unfolding compareFold_ok_def by blast

lemma foldLe_total: "compareFold_ok R \<Longrightarrow> \<not> foldLess R a b \<Longrightarrow> foldLe R b a"
  unfolding compareFold_ok_def foldLess_def by (meson not_less)

lemma foldLess_Le: "foldLess R a b \<Longrightarrow> foldLe R a b"
  by (simp add: foldLess_def)

lemma sorted_insertBy:
  assumes "compareFold_ok R" "sorted_wrt (foldLe R) ys"
  shows "sorted_wrt (foldLe R) (insertBy (foldLess R) x ys)"
  using assms(2)
proof (induction ys)
  case (Cons y ys)
  then show ?case
    using foldLe_trans [OF assms(1), of x y] foldLess_Le [of R x y] foldLe_total [OF assms(1), of x y]
    by (auto split: if_splits)
qed simp

lemma sorted_sortSlice:
  assumes "compareFold_ok R"
  shows "sorted_wrt (foldLe R) (sortSlice (foldLess R) xs)"
proof -
  have "sorted_wrt (foldLe R) acc \<Longrightarrow> sorted_wrt (foldLe R) (foldl (\<lambda>acc x. insertBy (foldLess R) x acc) acc xs)" for acc
    by (induction xs arbitrary: acc) (auto intro: sorted_insertBy [OF assms])
  then show ?thesis by (simp add: sortSlice_def)
qed

lemma sorted_mset_unique:
  assumes anti: "\<And>a b. a \<in> set xs \<Longrightarrow> b \<in> set xs \<Longrightarrow> le a b \<Longrightarrow> le b a \<Longrightarrow> a = b"
    and "sorted_wrt le xs" "sorted_wrt le ys" "mset xs = mset ys"
  shows "xs = ys"
  using assms
proof (induction xs arbitrary: ys)
  case (Cons x xs)
  then obtain y zs where ys: "ys = y # zs"
    by (cases ys) auto
  have eq: "x = y"
  proof (rule ccontr)
    assume "x \<noteq> y"
    have st: "set (x # xs) = set (y # zs)"
      using Cons.prems(4) unfolding ys by (metis set_mset_mset)
    with \<open>x \<noteq> y\<close> have "x \<in> set zs" "y \<in> set xs"
      by auto
    with Cons.prems(2,3) have "le x y" "le y x"
      by (auto simp: ys)
    with Cons.prems(1) [of x y] \<open>y \<in> set xs\<close> \<open>x \<noteq> y\<close> show False
      by simp
  qed
  have "xs = zs"
    by (rule Cons.IH) (use Cons.prems in \<open>auto simp: ys eq\<close>)
  then show ?case
    by (simp add: ys eq)
qed simp

lemma sortSlice_unique:
  assumes "compareFold_ok R" "\<forall>r \<in> set xs. ToLower r = r"
    and "sorted_wrt (foldLe R) ys" "mset ys = mset xs"
  shows "ys = sortSlice (foldLess R) xs"
proof (rule sorted_mset_unique)
  fix a b assume ab: "a \<in> set ys" "b \<in> set ys" "foldLe R a b" "foldLe R b a"
  have "set ys = set xs"
    using assms(4) by (metis set_mset_mset)
  moreover have "CompareFold R a b = 0"
    using ab(3,4) assms(1) unfolding compareFold_ok_def by (meson antisym_conv2 not_less)
  then have "ToLower a = ToLower b"
    using assms(1) by (simp add: compareFold_ok_def EqualFold_def)
  ultimately show "a = b"
    using ab(1,2) assms(2) by auto
qed (use assms in \<open>auto simp: sorted_sortSlice\<close>)

section \<open>Lookup in a sorted list\<close>

lemma memFoundInList_correct:
  assumes ok: "compareFold_ok R" and sorted: "sorted_wrt (foldLe R) rules"
  shows "fst (memFoundInList R rules domain) \<longleftrightarrow> (\<exists>r \<in> set rules. EqualFold r domain)"
proof -
  let ?f = "\<lambda>i. CompareFold R (rules ! i) domain \<ge> 0"
  let ?n = "length rules"
  have ge: "CompareFold R a b \<ge> 0 \<longleftrightarrow> foldLe R b a" for a b
    using ok unfolding compareFold_ok_def by (meson not_less)
  have "\<forall>k k'. k \<le> k' \<and> k' < ?n \<and> ?f k \<longrightarrow> ?f k'"
    using sorted foldLe_trans [OF ok] unfolding ge by (metis le_neq_implies_less sorted_wrt_iff_nth_less)
  from Search_correct [OF this] have S: "\<forall>k < Search ?n ?f. \<not> ?f k" "\<forall>k. Search ?n ?f \<le> k \<and> k < ?n \<longrightarrow> ?f k"
    by blast+
  have "Search ?n ?f < ?n \<and> EqualFold (rules ! Search ?n ?f) domain" if "r \<in> set rules" "EqualFold r domain" for r
  proof -
    from that(1) obtain k where k: "k < ?n" "rules ! k = r"
      by (auto simp: in_set_conv_nth)
    have "CompareFold R r domain = 0"
      using ok that(2) by (simp add: compareFold_ok_def)
    then have le: "Search ?n ?f \<le> k"
      using S(1) k by (metis order_refl not_le_imp_less)
    then have n: "Search ?n ?f < ?n"
      using k by simp
    have "foldLe R (rules ! Search ?n ?f) r"
      using sorted le k \<open>CompareFold R r domain = 0\<close> foldLe_trans [OF ok] ok
      by (metis EqualFold_def compareFold_ok_def le_neq_implies_less order_refl sorted_wrt_iff_nth_less)
    then have "foldLe R (rules ! Search ?n ?f) domain"
      using foldLe_trans [OF ok] \<open>CompareFold R r domain = 0\<close> by (metis order_refl)
    moreover have "?f (Search ?n ?f)"
      using S(2) n by blast
    ultimately show ?thesis
      using n ok by (simp add: compareFold_ok_def)
  qed
  then show ?thesis
    by (auto simp: memFoundInList_def Let_def)
qed

section \<open>The memory store keeps the contract\<close>

definition memHit :: "memoryStore \<Rightarrow> string \<Rightarrow> string \<Rightarrow> bool" where
  "memHit s n d = (case memRules s n of None \<Rightarrow> False | Some rs \<Rightarrow> list_ex (\<lambda>r. EqualFold r d) rs)"

definition memSearchable :: "'f rulelib \<Rightarrow> memoryStore \<Rightarrow> string \<Rightarrow> bool" where
  "memSearchable R s n = (case memRules s n of None \<Rightarrow> True | Some rs \<Rightarrow> sorted_wrt (foldLe R) rs)"

lemma memDomainLoop_decision:
  assumes "compareFold_ok R" "sorted_wrt (foldLe R) rules" "m \<noteq> MatchNone"
  shows "decision (memDomainLoop R rules ds m l) =
    (if \<exists>d \<in> set ds. \<exists>r \<in> set rules. EqualFold r d then (m, Some l) else (MatchNone, None))"
proof (induction ds)
  case (Cons d ds)
  then show ?case
    using memFoundInList_correct [OF assms(1,2), of d]
    by (cases "memFoundInList R rules d") auto
qed simp

lemma memFinalizeLoop_eq:
  "\<exists>sel. memFinalizeLoop R ls m = (\<lambda>n. map_option (\<lambda>rs. (sortSlice (foldLess R) ^^ sel n) rs) (m n)) \<and>
    (\<forall>n. sel n > 0 \<longleftrightarrow> n \<in> CanonicalName ` set ls)"
proof (induction ls arbitrary: m)
  case Nil
  show ?case
    by (rule exI [of _ "\<lambda>_. 0"]) (simp add: option.map_ident)
next
  case (Cons l ls)
  let ?m = "case m (CanonicalName l) of None \<Rightarrow> m | Some rs \<Rightarrow> m(CanonicalName l \<mapsto> sortSlice (foldLess R) rs)"
  obtain sel where sel: "memFinalizeLoop R ls ?m = (\<lambda>n. map_option (\<lambda>rs. (sortSlice (foldLess R) ^^ sel n) rs) (?m n))"
    "\<forall>n. sel n > 0 \<longleftrightarrow> n \<in> CanonicalName ` set ls"
    using Cons.IH [of ?m] by blast
  let ?sel = "sel(CanonicalName l := Suc (sel (CanonicalName l)))"
  have "memFinalizeLoop R (l # ls) m = (\<lambda>n. map_option (\<lambda>rs. (sortSlice (foldLess R) ^^ ?sel n) rs) (m n))"
    by (rule ext) (auto simp: sel(1) funpow_swap1 split: option.splits)
  moreover have "\<forall>n. ?sel n > 0 \<longleftrightarrow> n \<in> CanonicalName ` set (l # ls)"
    using sel(2) by auto
  ultimately show ?case by blast
qed

lemma sortSlice_funpow:
  assumes "compareFold_ok R"
  shows "set ((sortSlice (foldLess R) ^^ k) rs) = set rs"
    and "k > 0 \<or> sorted_wrt (foldLe R) rs \<Longrightarrow> sorted_wrt (foldLe R) ((sortSlice (foldLess R) ^^ k) rs)"
  by (induction k) (auto simp: sorted_sortSlice [OF assms])

lemma memFinalize_props:
  assumes "compareFold_ok R"
  shows "memBase (memFinalize R s ls) = memBase s" "memHit (memFinalize R s ls) = memHit s"
    "memSearchable R s n \<or> n \<in> CanonicalName ` set ls \<Longrightarrow> memSearchable R (memFinalize R s ls) n"
proof -
  obtain sel where sel: "memFinalizeLoop R ls (memRules s) = (\<lambda>n. map_option (\<lambda>rs. (sortSlice (foldLess R) ^^ sel n) rs) (memRules s n))"
    "\<forall>n. sel n > 0 \<longleftrightarrow> n \<in> CanonicalName ` set ls"
    using memFinalizeLoop_eq by blast
  show "memBase (memFinalize R s ls) = memBase s"
    by (simp add: memFinalize_def)
  show "memHit (memFinalize R s ls) = memHit s"
    by (auto simp: memHit_def memFinalize_def sel(1) fun_eq_iff list_ex_iff sortSlice_funpow(1) [OF assms] split: option.splits)
  show "memSearchable R (memFinalize R s ls) n" if "memSearchable R s n \<or> n \<in> CanonicalName ` set ls"
    using that sel(2) by (auto simp: memSearchable_def memFinalize_def sel(1) intro: sortSlice_funpow(2) [OF assms] split: option.splits)
qed

lemma memFindMatch_spec:
  assumes "compareFold_ok R" "\<And>t n l. baseLookup (memBase s) t n = Some l \<Longrightarrow> memSearchable R s (CanonicalName l)"
  shows "decision (memFindMatch R s ls domain) = specMatch (memBase s) (memHit s) ls domain"
  unfolding memFindMatch_def Let_def
proof (rule allowThenBlock_spec)
  fix t n l m assume "baseLookup (memBase s) t n = Some l" "m \<noteq> MatchNone"
  then show "decision (case memRules s (CanonicalName l) of None \<Rightarrow> noMatch
      | Some rules \<Rightarrow> memDomainLoop R rules (DomainList domain) m l) =
    (if listHit (memHit s) domain l then (m, Some l) else (MatchNone, None))"
    using assms(2) [of t n l]
    by (cases "memRules s (CanonicalName l)")
      (auto simp: memSearchable_def listHit_iff memHit_def list_ex_iff memDomainLoop_decision [OF assms(1)])
qed

lemma memClear_props:
  "memBase (memClear s l) = removeList l (memBase s)"
  "memHit (memClear s l) n d \<longleftrightarrow> n \<noteq> CanonicalName l \<and> memHit s n d"
  "memSearchable R (memClear s l) n \<longleftrightarrow> n = CanonicalName l \<or> memSearchable R s n"
  by (auto simp: memClear_def memHit_def memSearchable_def)

interpretation mem: rule_store
  EqualFold
  "\<lambda>s. compareFold_ok R"
  memBase
  "\<lambda>s. UNIV"
  memHit
  "memSearchable R"
  "\<lambda>s l r. Ret (memLoad s l r)"
  memClear
  "memFinalize R"
  "memFindMatch R"
  for R :: "'f rulelib"
proof
  fix s :: memoryStore and l r
  show "\<exists>s'. Ret (memLoad s l r) = Ret s' \<and> compareFold_ok R \<and> UNIV = UNIV \<and> memBase s' = addList l (memBase s) \<and>
      (\<forall>n d. memHit s' n d \<longleftrightarrow> memHit s n d \<or> n = CanonicalName l \<and> EqualFold r d) \<and>
      (\<forall>n. n \<noteq> CanonicalName l \<longrightarrow> memSearchable R s' n = memSearchable R s n)"
    if "compareFold_ok R"
    using that by (auto simp: memLoad_def memHit_def memSearchable_def Let_def split: option.splits)
qed (auto simp: EqualFold_def memClear_props memFinalize_props memFindMatch_spec)

lemma demoLib_compareFold: "compareFold_ok demoLib"
  unfolding compareFold_ok_def by (auto simp: demoLib_def foldKey_eq [symmetric] split: if_splits)

text \<open>
  C29. The binary search of the memory store is exact: on rules in the order \<open>Finalize\<close> leaves them in,
  it finds a rule equal to the domain up to case exactly when there is one.
\<close>

theorem memory_search_correct:
  assumes "compareFold_ok R"
  shows "fst (memFoundInList R (sortSlice (foldLess R) rules) domain) \<longleftrightarrow> (\<exists>r \<in> set rules. EqualFold r domain)"
  using memFoundInList_correct [OF assms sorted_sortSlice [OF assms]] by simp

theorem memory_search_correct_witness:
  "compareFold_ok demoLib \<and>
   fst (memFoundInList demoLib (sortSlice (foldLess demoLib) [''b.com'', ''A.com'']) ''a.COM'')"
proof -
  have "EqualFold ''A.com'' ''a.COM''"
    by code_simp
  then show ?thesis
    using memory_search_correct [OF demoLib_compareFold, of "[''b.com'', ''A.com'']" "''a.COM''"] demoLib_compareFold by auto
qed

end
