(* ===== verification/Store_Filter.thy ===== *)
theory Store_Filter
  imports Store_Spec
begin

text \<open>
  \<^verbatim>\<open>src/rule/store_hash.go\<close>, \<^verbatim>\<open>src/rule/store_hash32.go\<close> and \<^verbatim>\<open>src/rule/store_bloom.go\<close>: stores that keep a
  digest of each rule (a 64 or 32 bit hash, or a Bloom filter) and may ask a second store before
  they answer.

  The two hash stores are the same code at two widths: the \<open>hs\<close> definitions have the width and the
  summ as parameters, and each store's operations are their instances. The optional delegate of a
  store is a parameter \<open>del\<close> of \<open>FindMatch\<close>, the delegate's own \<open>FindMatch\<close>; the theory \<open>Stores\<close> ties
  the stores together. Go panics when \<open>Load\<close> assigns into the map of a list that \<open>Init\<close> and \<open>Clear\<close>
  have never seen; the model returns \<^const>\<open>Panic\<close> there.
\<close>

section \<open>Hash stores\<close>

record 'h hashStore =
  hashBase :: baseStore
  hashes :: "string \<rightharpoonup> 'h set"

type_synonym delegateFind = "(GudgeonList list \<Rightarrow> string \<Rightarrow> matchResult) option"

fun hsInitLoop :: "GudgeonList list \<Rightarrow> (string \<rightharpoonup> 'h set) \<Rightarrow> (string \<rightharpoonup> 'h set)" where
  "hsInitLoop [] m = m"
| "hsInitLoop (l # ls) m =
     hsInitLoop ls (if m (CanonicalName l) = None then m(CanonicalName l \<mapsto> {}) else m)"

definition hsInit :: "'h hashStore \<Rightarrow> GudgeonList list \<Rightarrow> 'h hashStore" where
  "hsInit s ls = s\<lparr>hashes := hsInitLoop ls Map.empty\<rparr>"

definition hsClear :: "'h hashStore \<Rightarrow> GudgeonList \<Rightarrow> 'h hashStore" where
  "hsClear s l = s\<lparr>hashes := (hashes s)(CanonicalName l \<mapsto> {}), hashBase := removeList l (hashBase s)\<rparr>"

definition hsLoad :: "(string \<Rightarrow> 'h) \<Rightarrow> 'h hashStore \<Rightarrow> GudgeonList \<Rightarrow> string \<Rightarrow> 'h hashStore run" where
  "hsLoad summ s l rule = (case hashes s (CanonicalName l) of
       None \<Rightarrow> Panic
     | Some hs \<Rightarrow> Ret (s\<lparr>hashes := (hashes s)(CanonicalName l \<mapsto> insert (summ (ToLower rule)) hs),
                       hashBase := addList l (hashBase s)\<rparr>))"

definition hsFoundInList :: "'h set \<Rightarrow> 'h \<Rightarrow> bool" where
  "hsFoundInList rules domainHash = (domainHash \<in> rules)"

fun hsDomainLoop :: "(string \<Rightarrow> 'h) \<Rightarrow> delegateFind \<Rightarrow> string \<Rightarrow> 'h set \<Rightarrow> string list \<Rightarrow> Match \<Rightarrow> GudgeonList \<Rightarrow> matchResult" where
  "hsDomainLoop summ del domain rules [] m l = noMatch"
| "hsDomainLoop summ del domain rules (d # ds) m l =
     (if hsFoundInList rules (summ (ToLower d)) then
        (case del of Some ask \<Rightarrow> ask [l] domain | None \<Rightarrow> (m, Some l, d))
      else hsDomainLoop summ del domain rules ds m l)"

definition hsFindMatch :: "(string \<Rightarrow> 'h) \<Rightarrow> delegateFind \<Rightarrow> 'h hashStore \<Rightarrow> GudgeonList list \<Rightarrow> string \<Rightarrow> matchResult" where
  "hsFindMatch summ del s ls domain =
     allowThenBlock (hashBase s) ls (\<lambda>m l.
       case hashes s (CanonicalName l) of
         None \<Rightarrow> noMatch
       | Some rules \<Rightarrow> hsDomainLoop summ del domain rules (DomainList domain) m l)"

definition hsClose :: "'h hashStore \<Rightarrow> 'h hashStore" where
  "hsClose s = s\<lparr>hashes := Map.empty\<rparr>"

type_synonym hashStore64 = "64 word hashStore"
type_synonym hashStore32 = "32 word hashStore"

definition hash64Init :: "hashStore64 \<Rightarrow> GudgeonList list \<Rightarrow> hashStore64" where
  "hash64Init = hsInit"

definition hash64Clear :: "hashStore64 \<Rightarrow> GudgeonList \<Rightarrow> hashStore64" where
  "hash64Clear = hsClear"

definition hash64Load :: "'f rulelib \<Rightarrow> hashStore64 \<Rightarrow> GudgeonList \<Rightarrow> string \<Rightarrow> hashStore64 run" where
  "hash64Load R = hsLoad (StringSum64 R)"

definition hash64FindMatch :: "'f rulelib \<Rightarrow> delegateFind \<Rightarrow> hashStore64 \<Rightarrow> GudgeonList list \<Rightarrow> string \<Rightarrow> matchResult" where
  "hash64FindMatch R = hsFindMatch (StringSum64 R)"

definition hash64Close :: "hashStore64 \<Rightarrow> hashStore64" where
  "hash64Close = hsClose"

definition hash32Init :: "hashStore32 \<Rightarrow> GudgeonList list \<Rightarrow> hashStore32" where
  "hash32Init = hsInit"

definition hash32Clear :: "hashStore32 \<Rightarrow> GudgeonList \<Rightarrow> hashStore32" where
  "hash32Clear = hsClear"

definition hash32Load :: "'f rulelib \<Rightarrow> hashStore32 \<Rightarrow> GudgeonList \<Rightarrow> string \<Rightarrow> hashStore32 run" where
  "hash32Load R = hsLoad (StringSum32 R)"

definition hash32FindMatch :: "'f rulelib \<Rightarrow> delegateFind \<Rightarrow> hashStore32 \<Rightarrow> GudgeonList list \<Rightarrow> string \<Rightarrow> matchResult" where
  "hash32FindMatch R = hsFindMatch (StringSum32 R)"

definition hash32Close :: "hashStore32 \<Rightarrow> hashStore32" where
  "hash32Close = hsClose"

section \<open>Bloom store\<close>

record 'f bloomStore =
  bloomBase :: baseStore
  blooms :: "string \<rightharpoonup> 'f"
  bloomRuleCount :: nat

abbreviation defaultRuleCount :: nat where "defaultRuleCount \<equiv> 1000"

text \<open>
  \<open>lineCount l\<close> is what \<open>util.LineCount\<close> says of the file of the list, \<^const>\<open>None\<close> its error (and the
  case of a missing configuration, which takes the same branch).
\<close>

definition createBloom :: "'f rulelib \<Rightarrow> (GudgeonList \<Rightarrow> nat option) \<Rightarrow> 'f bloomStore \<Rightarrow> GudgeonList \<Rightarrow> 'f bloomStore" where
  "createBloom R lineCount s l =
     (if blooms s (CanonicalName l) = None then
        (let linesInFile = (case lineCount l of None \<Rightarrow> bloomRuleCount s | Some n \<Rightarrow> n) in
         s\<lparr>blooms := (blooms s)(CanonicalName l \<mapsto> NewWithEstimates R linesInFile)\<rparr>)
      else s)"

definition bloomInit :: "'f rulelib \<Rightarrow> (GudgeonList \<Rightarrow> nat option) \<Rightarrow> 'f bloomStore \<Rightarrow> GudgeonList list \<Rightarrow> 'f bloomStore" where
  "bloomInit R lineCount s0 ls =
     (let s1 = s0\<lparr>blooms := Map.empty\<rparr>;
          s2 = (if bloomRuleCount s1 = 0 then s1\<lparr>bloomRuleCount := defaultRuleCount\<rparr> else s1)
      in foldl (createBloom R lineCount) s2 ls)"

definition bloomClear :: "'f rulelib \<Rightarrow> (GudgeonList \<Rightarrow> nat option) \<Rightarrow> 'f bloomStore \<Rightarrow> GudgeonList \<Rightarrow> 'f bloomStore" where
  "bloomClear R lineCount s0 l =
     (let s = createBloom R lineCount s0 l in s\<lparr>bloomBase := removeList l (bloomBase s)\<rparr>)"

definition bloomLoad :: "'f rulelib \<Rightarrow> 'f bloomStore \<Rightarrow> GudgeonList \<Rightarrow> string \<Rightarrow> 'f bloomStore run" where
  "bloomLoad R s l rule = (case blooms s (CanonicalName l) of
       None \<Rightarrow> Panic
     | Some f \<Rightarrow> Ret (s\<lparr>blooms := (if \<not> TestString R f rule
                                  then (blooms s)(CanonicalName l \<mapsto> AddString R rule f) else blooms s),
                       bloomBase := addList l (bloomBase s)\<rparr>))"

definition bloomFoundInList :: "'f rulelib \<Rightarrow> 'f \<Rightarrow> string \<Rightarrow> bool \<times> string" where
  "bloomFoundInList R flt domain = (TestString R flt domain, [])"

fun bloomDomainLoop :: "'f rulelib \<Rightarrow> delegateFind \<Rightarrow> string \<Rightarrow> 'f \<Rightarrow> string list \<Rightarrow> Match \<Rightarrow> GudgeonList \<Rightarrow> matchResult" where
  "bloomDomainLoop R del domain f [] m l = noMatch"
| "bloomDomainLoop R del domain f (d # ds) m l =
     (let (found, ruleString) = bloomFoundInList R f d in
      if found then (case del of Some ask \<Rightarrow> ask [l] domain | None \<Rightarrow> (m, Some l, ruleString))
      else bloomDomainLoop R del domain f ds m l)"

definition bloomFindMatch :: "'f rulelib \<Rightarrow> delegateFind \<Rightarrow> 'f bloomStore \<Rightarrow> GudgeonList list \<Rightarrow> string \<Rightarrow> matchResult" where
  "bloomFindMatch R del s ls domain =
     allowThenBlock (bloomBase s) ls (\<lambda>m l.
       case blooms s (CanonicalName l) of
         None \<Rightarrow> noMatch
       | Some f \<Rightarrow> bloomDomainLoop R del domain f (DomainList domain) m l)"

definition bloomClose :: "'f bloomStore \<Rightarrow> 'f bloomStore" where
  "bloomClose s = s\<lparr>blooms := Map.empty\<rparr>"

section \<open>Hash stores keep the contract up to collisions\<close>

definition hsHit :: "(string \<Rightarrow> 'h) \<Rightarrow> 'h hashStore \<Rightarrow> string \<Rightarrow> string \<Rightarrow> bool" where
  "hsHit summ s n d = (case hashes s n of None \<Rightarrow> False | Some hs \<Rightarrow> summ (ToLower d) \<in> hs)"

definition hsSame :: "(string \<Rightarrow> 'h) \<Rightarrow> string \<Rightarrow> string \<Rightarrow> bool" where
  "hsSame summ r d = (summ (ToLower r) = summ (ToLower d))"

lemma hsDomainLoop_decision:
  "decision (hsDomainLoop summ del domain hs ds m l) =
     (if \<exists>d \<in> set ds. summ (ToLower d) \<in> hs then
        (case del of None \<Rightarrow> (m, Some l) | Some ask \<Rightarrow> decision (ask [l] domain))
      else (MatchNone, None))"
  by (induction ds) (auto simp: hsFoundInList_def split: option.splits)

lemma hsAction_decision:
  "decision (case hashes s (CanonicalName l) of None \<Rightarrow> noMatch
     | Some rules \<Rightarrow> hsDomainLoop summ del domain rules (DomainList domain) m l) =
   (if listHit (hsHit summ s) domain l then
      (case del of None \<Rightarrow> (m, Some l) | Some ask \<Rightarrow> decision (ask [l] domain))
    else (MatchNone, None))"
  by (cases "hashes s (CanonicalName l)") (auto simp: listHit_iff hsHit_def hsDomainLoop_decision)

lemma hsFindMatch_spec:
  "decision (hsFindMatch summ None s ls domain) = specMatch (hashBase s) (hsHit summ s) ls domain"
  unfolding hsFindMatch_def by (rule allowThenBlock_spec) (simp add: hsAction_decision)

lemma hsStore_laws:
  "rule_store (hsSame summ) (\<lambda>s. True) hashBase (\<lambda>s. dom (hashes s)) (hsHit summ) (\<lambda>s n. True)
     (hsLoad summ) hsClear (\<lambda>s ls. s) (hsFindMatch summ None)"
proof (unfold_locales, goal_cases)
  case (2 s l r)
  then show ?case
    by (auto simp: hsLoad_def hsHit_def hsSame_def split: option.splits)
qed (auto simp: hsSame_def hsHit_def hsClear_def hsFindMatch_spec)

interpretation hash64: rule_store
  "hsSame (StringSum64 R)" "\<lambda>s. True" hashBase "\<lambda>s. dom (hashes s)" "hsHit (StringSum64 R)" "\<lambda>s n. True"
  "hash64Load R" hash64Clear "\<lambda>s ls. s" "hash64FindMatch R None"
  for R :: "'f rulelib"
  unfolding hash64Load_def hash64Clear_def hash64FindMatch_def by (rule hsStore_laws)

interpretation hash32: rule_store
  "hsSame (StringSum32 R)" "\<lambda>s. True" hashBase "\<lambda>s. dom (hashes s)" "hsHit (StringSum32 R)" "\<lambda>s n. True"
  "hash32Load R" hash32Clear "\<lambda>s ls. s" "hash32FindMatch R None"
  for R :: "'f rulelib"
  unfolding hash32Load_def hash32Clear_def hash32FindMatch_def by (rule hsStore_laws)

section \<open>A digest in front of an exact store\<close>

text \<open>
  A store whose action asks a second store, list by list, decides as the second store would, when its
  own digest never misses what the second store knows.
\<close>

definition typeMatch :: "ListType \<Rightarrow> Match" where
  "typeMatch t = (case t of ALLOW \<Rightarrow> MatchAllow | BLOCK \<Rightarrow> MatchBlock)"

lemma typeMatch_not_None [simp]: "typeMatch t \<noteq> MatchNone"
  by (cases t) (auto simp: typeMatch_def)

lemma typeMatch_inj [simp]: "typeMatch t = typeMatch u \<longleftrightarrow> t = u"
  by (cases t; cases u) (auto simp: typeMatch_def)

lemma lookupLoop_filtered:
  assumes "\<And>n l. baseLookup b t n = Some l \<Longrightarrow> decision (action l) =
      (if front l then decision (ask [l] domain) else (MatchNone, None))"
    and "\<And>n l. baseLookup b t n = Some l \<Longrightarrow> decision (ask [l] domain) =
      (if P l then (typeMatch t, Some l) else (MatchNone, None))"
    and "\<And>n l. baseLookup b t n = Some l \<Longrightarrow> P l \<Longrightarrow> front l"
  shows "decision (lookupLoop b t ls action) =
    (case firstList b t ls P of Some l \<Rightarrow> (typeMatch t, Some l) | None \<Rightarrow> (MatchNone, None))"
proof (rule lookupLoop_firstList)
  show "typeMatch t \<noteq> MatchNone"
    by simp
  show "decision (action l) = (if P l then (typeMatch t, Some l) else (MatchNone, None))"
    if "baseLookup b t n = Some l" for n l
    using assms(1,2,3) [OF that] by auto
qed

lemma filtered_spec:
  assumes "\<And>t n l m. baseLookup b t n = Some l \<Longrightarrow> decision (action m l) =
      (if front l then decision (ask [l] domain) else (MatchNone, None))"
    and "\<And>t n l. baseLookup b t n = Some l \<Longrightarrow> decision (ask [l] domain) =
      (if P l then (typeMatch t, Some l) else (MatchNone, None))"
    and "\<And>t n l. baseLookup b t n = Some l \<Longrightarrow> P l \<Longrightarrow> front l"
  shows "decision (allowThenBlock b ls action) = specMatchBy b P ls"
proof -
  have L: "decision (lookupLoop b t ls (action m)) =
      (case firstList b t ls P of Some l \<Rightarrow> (typeMatch t, Some l) | None \<Rightarrow> (MatchNone, None))" for t m
    by (rule lookupLoop_filtered [of b t "action m" front ask]) (use assms in auto)
  from L [of ALLOW MatchAllow]
  have "fst (lookupLoop b ALLOW ls (action MatchAllow)) \<noteq> MatchNone \<longleftrightarrow> firstList b ALLOW ls P \<noteq> None"
    by (auto simp: decision_def typeMatch_def split: option.splits)
  with L [of ALLOW MatchAllow] L [of BLOCK MatchBlock] show ?thesis
    by (auto simp: allowThenBlock_def specMatchBy_def matchForEachOfTypeIn_eq Let_def typeMatch_def split: option.splits)
qed

section \<open>Bloom filters\<close>

text \<open>A Bloom filter answers yes for every string that was added, whatever else was.\<close>

definition bloom_ok :: "'f rulelib \<Rightarrow> bool" where
  "bloom_ok R \<longleftrightarrow> (\<forall>f x. TestString R (AddString R x f) x) \<and>
     (\<forall>f x y. TestString R f y \<longrightarrow> TestString R (AddString R x f) y)"

definition bloomHit :: "'f rulelib \<Rightarrow> 'f bloomStore \<Rightarrow> string \<Rightarrow> string \<Rightarrow> bool" where
  "bloomHit R s n d = (case blooms s n of None \<Rightarrow> False | Some f \<Rightarrow> TestString R f d)"

lemma bloomDomainLoop_decision:
  "decision (bloomDomainLoop R del domain f ds m l) =
     (if \<exists>d \<in> set ds. TestString R f d then
        (case del of None \<Rightarrow> (m, Some l) | Some ask \<Rightarrow> decision (ask [l] domain))
      else (MatchNone, None))"
  by (induction ds) (auto simp: bloomFoundInList_def split: option.splits)

lemma bloomFindMatch_spec:
  "decision (bloomFindMatch R None s ls domain) = specMatch (bloomBase s) (bloomHit R s) ls domain"
  unfolding bloomFindMatch_def
proof (rule allowThenBlock_spec)
  show "decision (case blooms s (CanonicalName l) of None \<Rightarrow> noMatch
      | Some f \<Rightarrow> bloomDomainLoop R None domain f (DomainList domain) m l) =
    (if listHit (bloomHit R s) domain l then (m, Some l) else (MatchNone, None))" for m l
    by (cases "blooms s (CanonicalName l)") (auto simp: listHit_iff bloomHit_def bloomDomainLoop_decision)
qed

lemma bloomLoad_ok:
  assumes "bloom_ok R" "CanonicalName l \<in> dom (blooms s)"
  shows "\<exists>s'. bloomLoad R s l r = Ret s' \<and> dom (blooms s') = dom (blooms s) \<and>
    bloomBase s' = addList l (bloomBase s) \<and> bloomHit R s' (CanonicalName l) r \<and>
    (\<forall>n d. bloomHit R s n d \<longrightarrow> bloomHit R s' n d)"
  using assms by (auto simp: bloomLoad_def bloomHit_def bloom_ok_def split: option.splits)

lemma bloomClear_keeps:
  "bloomHit R s n d \<Longrightarrow> bloomHit R (bloomClear R lc s l) n d"
  by (auto simp: bloomClear_def createBloom_def bloomHit_def Let_def split: option.splits)

end
