(* ===== verification/Store_Sql.thy ===== *)
theory Store_Sql
  imports Store_Spec
begin

text \<open>
  \<^verbatim>\<open>src/rule/store_sqlite.go\<close>: rules in the tables of an SQLite database.

  The two tables of the schema are lists of rows, in the order of insertion. SQL leaves open which row
  \<open>LIMIT 1\<close> takes among equals: \<open>sqllib\<close> holds that choice, for the subquery that finds the id of a list
  and for the query that finds a rule, together with the answer to a query made while a transaction
  of the store is open (SQLite may refuse it, since the cache is shared). The database is taken to
  work: \<open>Open\<close>, \<open>Begin\<close>, \<open>Prepare\<close> and \<open>Commit\<close> succeed, and the only statement that fails is one prepared
  in a transaction that is over, which \<open>database/sql\<close> refuses. The cache of prepared queries is left
  out: its key determines the text of the query.
\<close>

type_synonym listRow = "nat \<times> string \<times> ListType"
type_synonym ruleRow = "nat option \<times> string"
type_synonym foundRow = "string \<times> ListType \<times> string"

record sqllib =
  pickId :: "nat list \<Rightarrow> nat"
  pickRow :: "foundRow list \<Rightarrow> foundRow"
  pendingRow :: "foundRow list \<Rightarrow> foundRow option"

definition sqllib_ok :: "sqllib \<Rightarrow> bool" where
  "sqllib_ok D \<longleftrightarrow> (\<forall>xs. xs \<noteq> [] \<longrightarrow> pickId D xs \<in> set xs) \<and> (\<forall>xs. xs \<noteq> [] \<longrightarrow> pickRow D xs \<in> set xs)"

text \<open>
  \<open>sqlStmt\<close> is the prepared insert: \<^const>\<open>None\<close> for nil, \<open>Some live\<close> with whether the transaction it was
  prepared in is still open.
\<close>

record sqlStore =
  sqlBase :: baseStore
  sqlOpen :: bool
  sqlLists :: "listRow list"
  sqlRules :: "ruleRow list"
  sqlTx :: bool
  sqlStmt :: "bool option"
  sqlClosing :: bool

definition nextId :: "listRow list \<Rightarrow> nat" where
  "nextId t = Suc (foldr max (map fst t) 0)"

definition insertListRow :: "listRow list \<Rightarrow> GudgeonList \<Rightarrow> listRow list" where
  "insertListRow t l = t @ [(nextId t, ShortName l, ParsedType l)]"

definition sqlInit :: "sqlStore \<Rightarrow> GudgeonList list \<Rightarrow> sqlStore" where
  "sqlInit s ls = s\<lparr>sqlOpen := True, sqlLists := foldl insertListRow (sqlLists s) ls, sqlClosing := False\<rparr>"

text \<open>\<open>SELECT Id FROM lists WHERE ShortName = ? LIMIT 1\<close>; SQL's NULL is \<^const>\<open>None\<close>.\<close>

definition listId :: "sqllib \<Rightarrow> listRow list \<Rightarrow> string \<Rightarrow> nat option" where
  "listId D t name =
     (let ids = map fst (filter (\<lambda>(i, n, ty). n = name) t) in
      if ids = [] then None else Some (pickId D ids))"

text \<open>A comparison with NULL is never true, so a list that is not in the table deletes nothing.\<close>

definition deleteRules :: "sqllib \<Rightarrow> sqlStore \<Rightarrow> string \<Rightarrow> ruleRow list" where
  "deleteRules D s name = (case listId D (sqlLists s) name of
       None \<Rightarrow> sqlRules s
     | Some i \<Rightarrow> filter (\<lambda>(j, r). j \<noteq> Some i) (sqlRules s))"

text \<open>\<open>INSERT OR IGNORE\<close> under the primary key (ListRowId, Rule), in which NULLs count as different.\<close>

definition insertRule :: "sqllib \<Rightarrow> sqlStore \<Rightarrow> string \<Rightarrow> string \<Rightarrow> ruleRow list" where
  "insertRule D s name rule =
     (let i = listId D (sqlLists s) name in
      if i \<noteq> None \<and> (i, rule) \<in> set (sqlRules s) then sqlRules s else sqlRules s @ [(i, rule)])"

definition sqlClear :: "sqllib \<Rightarrow> sqlStore \<Rightarrow> GudgeonList \<Rightarrow> sqlStore" where
  "sqlClear D s0 l =
     (let s1 = (if sqlTx s0 then s0\<lparr>sqlTx := False, sqlStmt := map_option (\<lambda>_. False) (sqlStmt s0)\<rparr> else s0) in
      s1\<lparr>sqlRules := deleteRules D s1 (ShortName l), sqlTx := False, sqlBase := removeList l (sqlBase s1)\<rparr>)"

definition sqlLoad :: "sqllib \<Rightarrow> sqlStore \<Rightarrow> GudgeonList \<Rightarrow> string \<Rightarrow> sqlStore" where
  "sqlLoad D s0 l rule =
     (let s1 = s0\<lparr>sqlBase := addList l (sqlBase s0), sqlTx := True\<rparr>;
          s2 = (if sqlStmt s1 = None then s1\<lparr>sqlStmt := Some True\<rparr> else s1)
      in if sqlStmt s2 = Some True then s2\<lparr>sqlRules := insertRule D s2 (ShortName l) rule\<rparr>
         else s2\<lparr>sqlTx := False\<rparr>)"

definition sqlFinalize :: "sqlStore \<Rightarrow> sqlStore" where
  "sqlFinalize s = s\<lparr>sqlStmt := None, sqlTx := False\<rparr>"

text \<open>The rows of the join that pass the \<open>WHERE\<close> clause, and those that come first in \<open>ORDER BY\<close>.\<close>

definition joinRows :: "listRow list \<Rightarrow> ruleRow list \<Rightarrow> foundRow list" where
  "joinRows t rs = concat (map (\<lambda>(j, r). map (\<lambda>(i, n, ty). (n, ty, r)) (filter (\<lambda>(i, n, ty). j = Some i) t)) rs)"

definition selectRows :: "sqlStore \<Rightarrow> string list \<Rightarrow> string list \<Rightarrow> foundRow list" where
  "selectRows s names domains =
     filter (\<lambda>(n, ty, r). n \<in> set names \<and> r \<in> set domains) (joinRows (sqlLists s) (sqlRules s))"

definition topRows :: "foundRow list \<Rightarrow> foundRow list" where
  "topRows rows =
     (let allows = filter (\<lambda>(n, ty, r). ty = ALLOW) rows in if allows \<noteq> [] then allows else rows)"

definition queryRow :: "sqllib \<Rightarrow> sqlStore \<Rightarrow> string list \<Rightarrow> string list \<Rightarrow> foundRow option" where
  "queryRow D s names domains =
     (let rows = topRows (selectRows s names domains) in
      if sqlTx s then pendingRow D rows
      else if rows = [] then None else Some (pickRow D rows))"

definition sqlFoundInLists :: "sqllib \<Rightarrow> ListType list \<Rightarrow> sqlStore \<Rightarrow> GudgeonList list \<Rightarrow> string list \<Rightarrow> foundRow option" where
  "sqlFoundInLists D ord s ls domains =
     (if sqlClosing s then None
      else if length ls < 1 \<or> length domains < 1 then None
      else
        (let names = map ShortName (forEachIn ord (sqlBase s) ls) in
         if length names < 1 then None
         else case queryRow D s names domains of
             None \<Rightarrow> None
           | Some (n, ty, r) \<Rightarrow> if n \<noteq> [] \<and> r \<noteq> [] then Some (n, ty, r) else None))"

definition sqlFindMatch :: "sqllib \<Rightarrow> ListType list \<Rightarrow> sqlStore \<Rightarrow> GudgeonList list \<Rightarrow> string \<Rightarrow> matchResult" where
  "sqlFindMatch D ord s ls domain =
     (if \<not> sqlOpen s then noMatch
      else case sqlFoundInLists D ord s ls (DomainList domain) of
          None \<Rightarrow> noMatch
        | Some (n, ty, r) \<Rightarrow>
            (if ty = BLOCK then MatchBlock else MatchAllow, getList ord (sqlBase s) n, r))"

definition sqlClose :: "sqlStore \<Rightarrow> sqlStore" where
  "sqlClose s = s\<lparr>sqlClosing := True, sqlOpen := False\<rparr>"

section \<open>Facts about the tables\<close>

text \<open>
  A store is in order when its ids and its short names are unique, every list it knows is in the
  table with its own type, and every rule belongs to a list of the table.
\<close>

definition sqlWf :: "sqlStore \<Rightarrow> bool" where
  "sqlWf s \<longleftrightarrow> distinct (map fst (sqlLists s)) \<and> distinct (map (fst \<circ> snd) (sqlLists s)) \<and>
     (\<forall>t n l. baseLookup (sqlBase s) t n = Some l \<longrightarrow>
        n \<noteq> [] \<and> ShortName l = n \<and> ParsedType l = t \<and> (\<exists>i. (i, n, t) \<in> set (sqlLists s)))"

definition sqlHit :: "sqlStore \<Rightarrow> string \<Rightarrow> string \<Rightarrow> bool" where
  "sqlHit s name d = list_ex (\<lambda>(i, n, ty). n = name \<and> (Some i, d) \<in> set (sqlRules s)) (sqlLists s)"

lemma sqlWf_base:
  assumes "sqlWf s" "baseLookup (sqlBase s) t n = Some l"
  shows "n \<noteq> []" "ShortName l = n" "ParsedType l = t" "\<exists>i. (i, n, t) \<in> set (sqlLists s)"
  using assms unfolding sqlWf_def by blast+

lemma sqlHit_iff: "sqlHit s name d \<longleftrightarrow> (\<exists>i ty. (i, name, ty) \<in> set (sqlLists s) \<and> (Some i, d) \<in> set (sqlRules s))"
  by (auto simp: sqlHit_def list_ex_iff)

lemma distinct_map_inj: "distinct (map f xs) \<Longrightarrow> x \<in> set xs \<Longrightarrow> y \<in> set xs \<Longrightarrow> f x = f y \<Longrightarrow> x = y"
  by (auto simp: distinct_map inj_on_def)

lemma sqlWf_row_unique:
  assumes "sqlWf s" "(i, n, t) \<in> set (sqlLists s)" "(j, m, u) \<in> set (sqlLists s)" "i = j \<or> n = m"
  shows "i = j \<and> n = m \<and> t = u"
proof -
  have "distinct (map fst (sqlLists s))" "distinct (map (fst \<circ> snd) (sqlLists s))"
    using assms(1) unfolding sqlWf_def by blast+
  then have "(i, n, t) = (j, m, u)"
    using assms(2-4) distinct_map_inj by (metis comp_apply fst_conv snd_conv)
  then show ?thesis by simp
qed

lemma listId_row:
  assumes "sqllib_ok D" "sqlWf s" "(i, n, t) \<in> set (sqlLists s)"
  shows "listId D (sqlLists s) n = Some i"
proof -
  let ?ids = "map fst (filter (\<lambda>(i, m, ty). m = n) (sqlLists s))"
  have "(i, n, t) \<in> set (filter (\<lambda>(i, m, ty). m = n) (sqlLists s))"
    using assms(3) by simp
  then have "i \<in> set ?ids"
    by (metis fst_conv image_eqI set_map)
  moreover have "j = i" if "j \<in> set ?ids" for j
  proof -
    from that obtain t' where "(j, n, t') \<in> set (sqlLists s)"
      by auto
    then show ?thesis
      using sqlWf_row_unique [OF assms(2) _ assms(3)] by blast
  qed
  moreover have "?ids \<noteq> []" "pickId D ?ids \<in> set ?ids"
    using assms(1) calculation(1) unfolding sqllib_ok_def by (metis empty_iff list.set(1))+
  ultimately have "pickId D ?ids = i"
    by blast
  with \<open>?ids \<noteq> []\<close> show ?thesis
    by (simp only: listId_def Let_def if_False)
qed

lemma sqlWf_row_ids:
  assumes "sqlWf s" "(i, n, t) \<in> set (sqlLists s)"
  shows "(j, n, u) \<in> set (sqlLists s) \<Longrightarrow> j = i" "(i, m, u) \<in> set (sqlLists s) \<Longrightarrow> m = n"
  using sqlWf_row_unique [OF assms] by blast+

lemma sqlLoad_hit:
  assumes "sqllib_ok D" "sqlWf s" "(i, ShortName l, ParsedType l) \<in> set (sqlLists s)" "ShortName l \<noteq> []"
    and "sqlStmt s \<noteq> Some False"
  shows "sqlWf (sqlLoad D s l r)" "sqlTx (sqlLoad D s l r)" "sqlStmt (sqlLoad D s l r) = Some True"
    "sqlBase (sqlLoad D s l r) = addList l (sqlBase s)" "sqlLists (sqlLoad D s l r) = sqlLists s"
    "sqlHit (sqlLoad D s l r) n d \<longleftrightarrow> sqlHit s n d \<or> n = ShortName l \<and> d = r"
    "snd ` set (sqlRules (sqlLoad D s l r)) = insert r (snd ` set (sqlRules s))"
proof -
  let ?s = "sqlLoad D s l r"
  have st: "sqlStmt s = None \<or> sqlStmt s = Some True"
    using assms(5) by (cases "sqlStmt s") auto
  have rules: "set (sqlRules ?s) = insert (Some i, r) (set (sqlRules s))"
    using st listId_row [OF assms(1-3)]
    by (auto simp: sqlLoad_def insertRule_def Let_def)
  then show "snd ` set (sqlRules ?s) = insert r (snd ` set (sqlRules s))"
    by simp
  show L: "sqlLists ?s = sqlLists s" and B: "sqlBase ?s = addList l (sqlBase s)"
    and "sqlTx ?s" "sqlStmt ?s = Some True"
    using st by (auto simp: sqlLoad_def Let_def)
  show "sqlWf ?s"
    using assms(2,3,4) unfolding sqlWf_def L B baseLookup_addList by auto
  show "sqlHit ?s n d \<longleftrightarrow> sqlHit s n d \<or> n = ShortName l \<and> d = r"
    unfolding sqlHit_iff L rules using assms(3) sqlWf_row_ids [OF assms(2,3)] by blast
qed

lemma sqlClear_hit:
  assumes "sqllib_ok D" "sqlWf s" "(i, ShortName l, ty) \<in> set (sqlLists s)"
  shows "sqlHit (sqlClear D s l) n d \<longleftrightarrow> n \<noteq> ShortName l \<and> sqlHit s n d"
proof -
  have rules: "set (sqlRules (sqlClear D s l)) = {(j, r) \<in> set (sqlRules s). j \<noteq> Some i}"
    using listId_row [OF assms] by (auto simp: sqlClear_def deleteRules_def Let_def)
  have L: "sqlLists (sqlClear D s l) = sqlLists s"
    by (auto simp: sqlClear_def Let_def)
  show ?thesis
    unfolding sqlHit_iff L rules using assms(3) sqlWf_row_ids [OF assms(2,3)] by blast
qed

lemma selectRows_iff:
  "(n, ty, r) \<in> set (selectRows s names domains) \<longleftrightarrow>
     n \<in> set names \<and> r \<in> set domains \<and> (\<exists>i. (i, n, ty) \<in> set (sqlLists s) \<and> (Some i, r) \<in> set (sqlRules s))"
  by (force simp: selectRows_def joinRows_def)

definition sqlCovers :: "sqlStore \<Rightarrow> ListType \<Rightarrow> GudgeonList list \<Rightarrow> string \<Rightarrow> bool" where
  "sqlCovers s t ls domain =
     list_ex (\<lambda>v. case baseLookup (sqlBase s) t (ShortName v) of
         None \<Rightarrow> False
       | Some l \<Rightarrow> list_ex (sqlHit s (ShortName l)) (DomainList domain)) ls"

lemma sqlCovers_iff:
  "sqlCovers s t ls domain \<longleftrightarrow> (\<exists>v \<in> set ls. \<exists>l. baseLookup (sqlBase s) t (ShortName v) = Some l \<and>
     (\<exists>d \<in> set (DomainList domain). sqlHit s (ShortName l) d))"
  unfolding sqlCovers_def list_ex_iff
  by (intro bex_cong refl) (auto split: option.splits)

lemma getListIn_unique:
  assumes "t \<in> set ord" "baseLookup b t n = Some l" "\<And>u k. baseLookup b u n = Some k \<Longrightarrow> u = t"
  shows "getListIn ord b n = Some l"
  using assms(1)
proof (induction ord)
  case (Cons u ord)
  show ?case
  proof (cases "u = t")
    case True
    then show ?thesis
      using assms(2) by (auto simp: baseLookup_def split: option.splits)
  next
    case False
    then have "baseLookup b u n = None"
      using assms(3) by fastforce
    then show ?thesis
      using Cons False by (auto simp: baseLookup_def split: option.splits)
  qed
qed simp

lemma getListIn_SomeD: "getListIn ord b n = Some l \<Longrightarrow> \<exists>t. baseLookup b t n = Some l"
  by (induction ord) (auto simp: baseLookup_def split: option.splits)

lemma sqlWf_getList:
  assumes "sqlWf s" "set ord = UNIV" "baseLookup (sqlBase s) t n = Some l"
  shows "getList ord (sqlBase s) n = Some l"
proof -
  have "getListIn ord (sqlBase s) n = Some l"
  proof (rule getListIn_unique [OF _ assms(3)])
    show "u = t" if "baseLookup (sqlBase s) u n = Some k" for u k
      using assms(1,3) that sqlWf_row_unique [OF assms(1)] unfolding sqlWf_def by metis
  qed (use assms(2) in simp)
  moreover have "n \<noteq> []"
    by (rule sqlWf_base [OF assms(1,3)])
  ultimately show ?thesis
    by (simp add: getList_def)
qed

lemma sqlWf_names:
  assumes "sqlWf s" "set ord = UNIV"
  shows "n \<in> set (map ShortName (forEachIn ord (sqlBase s) ls)) \<longleftrightarrow>
    (\<exists>v \<in> set ls. ShortName v = n \<and> (\<exists>t l. baseLookup (sqlBase s) t n = Some l))"
proof
  assume "n \<in> set (map ShortName (forEachIn ord (sqlBase s) ls))"
  then obtain v l where v: "v \<in> set ls" "getList ord (sqlBase s) (ShortName v) = Some l" "ShortName l = n"
    by (auto simp: forEachIn_def List.map_filter_def split: if_splits)
  from v(2) obtain t where "baseLookup (sqlBase s) t (ShortName v) = Some l"
    by (auto simp: getList_def split: if_splits dest: getListIn_SomeD)
  with v assms(1) show "\<exists>v \<in> set ls. ShortName v = n \<and> (\<exists>t l. baseLookup (sqlBase s) t n = Some l)"
    by (metis sqlWf_def)
next
  assume "\<exists>v \<in> set ls. ShortName v = n \<and> (\<exists>t l. baseLookup (sqlBase s) t n = Some l)"
  then obtain v t l where v: "v \<in> set ls" "ShortName v = n" "baseLookup (sqlBase s) t n = Some l"
    by blast
  then have "getList ord (sqlBase s) n = Some l" "ShortName l = n"
    using sqlWf_getList [OF assms v(3)] sqlWf_base [OF assms(1) v(3)] by auto
  moreover have "l \<in> set (forEachIn ord (sqlBase s) ls)"
    using v(1,2) calculation(1) by (cases ls) (force simp: forEachIn_def List.map_filter_def)+
  ultimately show "n \<in> set (map ShortName (forEachIn ord (sqlBase s) ls))"
    by force
qed

lemma sqlWf_selectRows:
  assumes "sqlWf s" "set ord = UNIV"
  shows "(n, ty, r) \<in> set (selectRows s (map ShortName (forEachIn ord (sqlBase s) ls)) (DomainList domain)) \<longleftrightarrow>
    (\<exists>v \<in> set ls. \<exists>l. ShortName v = n \<and> baseLookup (sqlBase s) ty n = Some l \<and> r \<in> set (DomainList domain) \<and> sqlHit s n r)"
  (is "?L \<longleftrightarrow> ?R")
proof
  assume ?L
  then obtain i v t l where *: "v \<in> set ls" "ShortName v = n" "baseLookup (sqlBase s) t n = Some l"
      "r \<in> set (DomainList domain)" "(i, n, ty) \<in> set (sqlLists s)" "(Some i, r) \<in> set (sqlRules s)"
    unfolding selectRows_iff sqlWf_names [OF assms] by blast
  moreover obtain j where "(j, n, t) \<in> set (sqlLists s)"
    using sqlWf_base(4) [OF assms(1) *(3)] by blast
  then have "t = ty"
    using sqlWf_row_unique [OF assms(1) *(5)] by blast
  ultimately show ?R
    by (auto simp: sqlHit_iff)
next
  assume ?R
  then obtain v l where *: "v \<in> set ls" "ShortName v = n" "baseLookup (sqlBase s) ty n = Some l"
      "r \<in> set (DomainList domain)" "sqlHit s n r"
    by blast
  then obtain i t where it: "(i, n, t) \<in> set (sqlLists s)" "(Some i, r) \<in> set (sqlRules s)"
    by (auto simp: sqlHit_iff)
  moreover obtain j where "(j, n, ty) \<in> set (sqlLists s)"
    using sqlWf_base(4) [OF assms(1) *(3)] by blast
  then have "t = ty"
    using sqlWf_row_unique [OF assms(1) it(1)] by blast
  ultimately show ?L
    unfolding selectRows_iff sqlWf_names [OF assms] using * by blast
qed

lemma set_topRows:
  "set (topRows rows) = (if \<exists>n r. (n, ALLOW, r) \<in> set rows then {x \<in> set rows. fst (snd x) = ALLOW} else set rows)"
  by (auto simp: topRows_def Let_def filter_empty_conv)

end
