(* ===== verification/Stores.thy ===== *)
theory Stores
  imports Store_Memory Store_Filter Store_Sql
begin

text \<open>
  \<^verbatim>\<open>src/rule/store_complex.go\<close>, \<^verbatim>\<open>src/rule/reloading_store.go\<close> and the creation and loading of stores in
  \<^verbatim>\<open>src/rule/store.go\<close>.

  \<open>store\<close> is the interface value \<open>Store\<close>: one constructor per implementation, with the store it
  delegates to, if any. The methods of the interface dispatch on it. The lock of \<open>reloadingStore\<close>
  makes each call on it atomic, so the calls are functions from state to state; its event handles
  are numbers. \<open>storelib\<close> collects what the stores take from outside the repository.
\<close>

section \<open>complexStore\<close>

record complexStore =
  complexBase :: baseStore
  complexRules :: "string \<rightharpoonup> ComplexRule list"

fun complexInitLoop :: "GudgeonList list \<Rightarrow> (string \<rightharpoonup> ComplexRule list) \<Rightarrow> (string \<rightharpoonup> ComplexRule list)" where
  "complexInitLoop [] m = m"
| "complexInitLoop (l # ls) m =
     complexInitLoop ls (if m (CanonicalName l) = None then m(CanonicalName l \<mapsto> []) else m)"

definition complexInit :: "complexStore \<Rightarrow> GudgeonList list \<Rightarrow> complexStore" where
  "complexInit s ls = s\<lparr>complexRules := complexInitLoop ls Map.empty\<rparr>"

definition complexClear :: "complexStore \<Rightarrow> GudgeonList \<Rightarrow> complexStore" where
  "complexClear s l =
     s\<lparr>complexRules := (complexRules s)(CanonicalName l \<mapsto> []), complexBase := removeList l (complexBase s)\<rparr>"

definition addComplex :: "complexStore \<Rightarrow> GudgeonList \<Rightarrow> ComplexRule option \<Rightarrow> complexStore" where
  "addComplex s l ro = (case ro of
       None \<Rightarrow> s
     | Some r \<Rightarrow> s\<lparr>complexRules := (complexRules s)(CanonicalName l \<mapsto>
         (case complexRules s (CanonicalName l) of None \<Rightarrow> [] | Some rs \<Rightarrow> rs) @ [r])\<rparr>)"

text \<open>
  What \<open>Load\<close> does with a rule: it becomes a complex rule of this store, or goes on to the backing
  store.
\<close>

definition takesRule :: "GudgeonList \<Rightarrow> string \<Rightarrow> bool" where
  "takesRule l rule = (lsRegex l = Some True \<or> IsComplex rule)"

definition compileRule :: "'f rulelib \<Rightarrow> GudgeonList \<Rightarrow> string \<Rightarrow> ComplexRule option run" where
  "compileRule R l rule =
     (if lsRegex l = Some True then Ret (specifyRegexOnlyRule R rule) else createComplexRule R rule)"

definition complexLoad :: "'f rulelib \<Rightarrow> complexStore \<Rightarrow> GudgeonList \<Rightarrow> string \<Rightarrow> complexStore run" where
  "complexLoad R s l rule =
     (if takesRule l rule then
        bind_run (compileRule R l rule) (\<lambda>ro.
          let s' = addComplex s l ro in Ret (s'\<lparr>complexBase := addList l (complexBase s')\<rparr>))
      else Ret (s\<lparr>complexBase := addList l (complexBase s)\<rparr>))"

fun complexRuleLoop :: "'f rulelib \<Rightarrow> ComplexRule list \<Rightarrow> string \<Rightarrow> Match \<Rightarrow> GudgeonList \<Rightarrow> matchResult" where
  "complexRuleLoop R [] domain m l = noMatch"
| "complexRuleLoop R (rule # rules) domain m l =
     (if IsMatch R rule domain then (m, Some l, Text rule) else complexRuleLoop R rules domain m l)"

definition complexOwnMatch :: "'f rulelib \<Rightarrow> complexStore \<Rightarrow> GudgeonList list \<Rightarrow> string \<Rightarrow> matchResult" where
  "complexOwnMatch R s ls domain =
     allowThenBlock (complexBase s) ls (\<lambda>m l.
       case complexRules s (CanonicalName l) of
         None \<Rightarrow> noMatch
       | Some rules \<Rightarrow> complexRuleLoop R rules domain m l)"

definition complexFindMatch :: "'f rulelib \<Rightarrow> delegateFind \<Rightarrow> complexStore \<Rightarrow> GudgeonList list \<Rightarrow> string \<Rightarrow> matchResult" where
  "complexFindMatch R del s ls domain =
     (let r = complexOwnMatch R s ls domain in
      if fst r \<noteq> MatchNone then r
      else case del of Some ask \<Rightarrow> ask ls domain | None \<Rightarrow> noMatch)"

section \<open>The interface Store\<close>

record 'f storelib =
  slRule :: "'f rulelib"
  slSql :: sqllib
  slOrd :: "ListType list"
  slLines :: "GudgeonList \<Rightarrow> nat option"

datatype 'f store =
    MemoryStore memoryStore
  | HashStore hashStore64 "'f store option"
  | HashStore32 hashStore32 "'f store option"
  | BloomStore "'f bloomStore" "'f store option"
  | SqlStore sqlStore
  | ComplexStore complexStore "'f store option"
  | ReloadingStore "nat list" "'f store option"

fun Init :: "'f storelib \<Rightarrow> 'f store \<Rightarrow> GudgeonList list \<Rightarrow> 'f store" where
  "Init E (MemoryStore m) ls = MemoryStore (memInit m ls)"
| "Init E (HashStore h d) ls = HashStore (hash64Init h ls) (map_option (\<lambda>d. Init E d ls) d)"
| "Init E (HashStore32 h d) ls = HashStore32 (hash32Init h ls) (map_option (\<lambda>d. Init E d ls) d)"
| "Init E (BloomStore b d) ls = BloomStore (bloomInit (slRule E) (slLines E) b ls) (map_option (\<lambda>d. Init E d ls) d)"
| "Init E (SqlStore q) ls = SqlStore (sqlInit q ls)"
| "Init E (ComplexStore c d) ls = ComplexStore (complexInit c ls) (map_option (\<lambda>d. Init E d ls) d)"
| "Init E (ReloadingStore hs d) ls = ReloadingStore hs (map_option (\<lambda>d. Init E d ls) d)"

fun Clear :: "'f storelib \<Rightarrow> 'f store \<Rightarrow> GudgeonList \<Rightarrow> 'f store" where
  "Clear E (MemoryStore m) l = MemoryStore (memClear m l)"
| "Clear E (HashStore h d) l = HashStore (hash64Clear h l) (map_option (\<lambda>d. Clear E d l) d)"
| "Clear E (HashStore32 h d) l = HashStore32 (hash32Clear h l) (map_option (\<lambda>d. Clear E d l) d)"
| "Clear E (BloomStore b d) l = BloomStore (bloomClear (slRule E) (slLines E) b l) (map_option (\<lambda>d. Clear E d l) d)"
| "Clear E (SqlStore q) l = SqlStore (sqlClear (slSql E) q l)"
| "Clear E (ComplexStore c d) l = ComplexStore (complexClear c l) (map_option (\<lambda>d. Clear E d l) d)"
| "Clear E (ReloadingStore hs d) l = ReloadingStore hs (map_option (\<lambda>d. Clear E d l) d)"

fun Load :: "'f storelib \<Rightarrow> 'f store \<Rightarrow> GudgeonList \<Rightarrow> string \<Rightarrow> 'f store run" where
  "Load E (MemoryStore m) l r = Ret (MemoryStore (memLoad m l r))"
| "Load E (HashStore h d) l r = bind_run (hash64Load (slRule E) h l r) (\<lambda>h'.
     case d of None \<Rightarrow> Ret (HashStore h' None)
     | Some d0 \<Rightarrow> bind_run (Load E d0 l r) (\<lambda>d1. Ret (HashStore h' (Some d1))))"
| "Load E (HashStore32 h d) l r = bind_run (hash32Load (slRule E) h l r) (\<lambda>h'.
     case d of None \<Rightarrow> Ret (HashStore32 h' None)
     | Some d0 \<Rightarrow> bind_run (Load E d0 l r) (\<lambda>d1. Ret (HashStore32 h' (Some d1))))"
| "Load E (BloomStore b d) l r = bind_run (bloomLoad (slRule E) b l r) (\<lambda>b'.
     case d of None \<Rightarrow> Ret (BloomStore b' None)
     | Some d0 \<Rightarrow> bind_run (Load E d0 l r) (\<lambda>d1. Ret (BloomStore b' (Some d1))))"
| "Load E (SqlStore q) l r = Ret (SqlStore (sqlLoad (slSql E) q l r))"
| "Load E (ComplexStore c d) l r = (case d of
       None \<Rightarrow> bind_run (complexLoad (slRule E) c l r) (\<lambda>c'. Ret (ComplexStore c' None))
     | Some d0 \<Rightarrow>
         if takesRule l r then bind_run (complexLoad (slRule E) c l r) (\<lambda>c'. Ret (ComplexStore c' d))
         else bind_run (Load E d0 l r) (\<lambda>d1.
                bind_run (complexLoad (slRule E) c l r) (\<lambda>c'. Ret (ComplexStore c' (Some d1)))))"
| "Load E (ReloadingStore hs d) l r = (case d of
       None \<Rightarrow> Ret (ReloadingStore hs None)
     | Some d0 \<Rightarrow> bind_run (Load E d0 l r) (\<lambda>d1. Ret (ReloadingStore hs (Some d1))))"

fun Finalize :: "'f storelib \<Rightarrow> 'f store \<Rightarrow> GudgeonList list \<Rightarrow> 'f store" where
  "Finalize E (MemoryStore m) ls = MemoryStore (memFinalize (slRule E) m ls)"
| "Finalize E (HashStore h d) ls = HashStore h (map_option (\<lambda>d. Finalize E d ls) d)"
| "Finalize E (HashStore32 h d) ls = HashStore32 h (map_option (\<lambda>d. Finalize E d ls) d)"
| "Finalize E (BloomStore b d) ls = BloomStore b (map_option (\<lambda>d. Finalize E d ls) d)"
| "Finalize E (SqlStore q) ls = SqlStore (sqlFinalize q)"
| "Finalize E (ComplexStore c d) ls = ComplexStore c (map_option (\<lambda>d. Finalize E d ls) d)"
| "Finalize E (ReloadingStore hs d) ls = ReloadingStore hs (map_option (\<lambda>d. Finalize E d ls) d)"

fun FindMatch :: "'f storelib \<Rightarrow> 'f store \<Rightarrow> GudgeonList list \<Rightarrow> string \<Rightarrow> matchResult" where
  "FindMatch E (MemoryStore m) = memFindMatch (slRule E) m"
| "FindMatch E (HashStore h d) = hash64FindMatch (slRule E) (map_option (\<lambda>d. FindMatch E d) d) h"
| "FindMatch E (HashStore32 h d) = hash32FindMatch (slRule E) (map_option (\<lambda>d. FindMatch E d) d) h"
| "FindMatch E (BloomStore b d) = bloomFindMatch (slRule E) (map_option (\<lambda>d. FindMatch E d) d) b"
| "FindMatch E (SqlStore q) = sqlFindMatch (slSql E) (slOrd E) q"
| "FindMatch E (ComplexStore c d) = complexFindMatch (slRule E) (map_option (\<lambda>d. FindMatch E d) d) c"
| "FindMatch E (ReloadingStore hs d) = (\<lambda>ls domain. case d of
     None \<Rightarrow> noMatch | Some d0 \<Rightarrow> FindMatch E d0 ls domain)"

text \<open>\<open>complexStore.Close\<close> does nothing: what it delegates to is not closed.\<close>

fun Close :: "'f store \<Rightarrow> 'f store" where
  "Close (MemoryStore m) = MemoryStore (memClose m)"
| "Close (HashStore h d) = HashStore (hash64Close h) (map_option Close d)"
| "Close (HashStore32 h d) = HashStore32 (hash32Close h) (map_option Close d)"
| "Close (BloomStore b d) = BloomStore (bloomClose b) (map_option Close d)"
| "Close (SqlStore q) = SqlStore (sqlClose q)"
| "Close (ComplexStore c d) = ComplexStore c d"
| "Close (ReloadingStore hs d) = ReloadingStore hs (map_option Close d)"

section \<open>CreateStore\<close>

definition newMemory :: "'f store" where
  "newMemory = MemoryStore \<lparr>memBase = emptyBase, memRules = Map.empty\<rparr>"

definition newHash :: "'f store option \<Rightarrow> 'f store" where
  "newHash d = HashStore \<lparr>hashBase = emptyBase, hashes = Map.empty\<rparr> d"

definition newHash32 :: "'f store option \<Rightarrow> 'f store" where
  "newHash32 d = HashStore32 \<lparr>hashBase = emptyBase, hashes = Map.empty\<rparr> d"

definition newBloom :: "'f store option \<Rightarrow> 'f store" where
  "newBloom d = BloomStore \<lparr>bloomBase = emptyBase, blooms = Map.empty, bloomRuleCount = 0\<rparr> d"

definition newSql :: "'f store" where
  "newSql = SqlStore \<lparr>sqlBase = emptyBase, sqlOpen = False, sqlLists = [], sqlRules = [], sqlTx = False,
     sqlStmt = None, sqlClosing = False\<rparr>"

definition newComplex :: "'f store option \<Rightarrow> 'f store" where
  "newComplex d = ComplexStore \<lparr>complexBase = emptyBase, complexRules = Map.empty\<rparr> d"

definition backingStore :: "string \<Rightarrow> 'f store" where
  "backingStore ruleStorage =
     (let t = ToLower ruleStorage in
      if t = ''bloom+hash'' then newBloom (Some (newHash None))
      else if t = ''hash'' \<or> t = ''hash64'' then newHash None
      else if t = ''hash+sqlite'' then newHash (Some newSql)
      else if t = ''hash32'' then newHash32 None
      else if t = ''hash32+sqlite'' then newHash32 (Some newSql)
      else if t = ''sqlite'' \<or> t = ''sql'' then newSql
      else if t = ''bloom'' then newBloom None
      else if t = ''bloom+sqlite'' \<or> t = ''bloom+sql'' then newBloom (Some newSql)
      else newMemory)"

text \<open>
  \<open>bufio.Scanner\<close> with a buffer of 32 KiB that may not grow: the lines without their end of line, up
  to the first that does not fit, where the scan ends.
\<close>

abbreviation loadBufferSize :: int where "loadBufferSize \<equiv> 32 * 1024"

definition dropCR :: "string \<Rightarrow> string" where
  "dropCR line = (if HasSuffix line [CHR 0x0D] then butlast line else line)"

definition scanLines :: "string \<Rightarrow> string list" where
  "scanLines content =
     (let pieces = Split (CHR 0x0A) content;
          lines = (if last pieces = [] then butlast pieces else pieces)
      in map dropCR (takeWhile (\<lambda>l. int (length l) < loadBufferSize) lines))"

fun loadLines :: "'f storelib \<Rightarrow> 'f store \<Rightarrow> GudgeonList \<Rightarrow> string list \<Rightarrow> nat \<Rightarrow> ('f store \<times> nat) run" where
  "loadLines E s l [] n = Ret (s, n)"
| "loadLines E s l (line # rest) n =
     (let t = ParseLine line in
      if t \<noteq> [] then bind_run (Load E s l t) (\<lambda>s'. loadLines E s' l rest (Suc n))
      else loadLines E s l rest n)"

definition loadList :: "'f storelib \<Rightarrow> fileSystem \<Rightarrow> (GudgeonList \<Rightarrow> string) \<Rightarrow> 'f store \<Rightarrow> GudgeonList \<Rightarrow> ('f store \<times> nat) run" where
  "loadList E fs path s l = (case fs (path l) of
       None \<Rightarrow> Ret (s, 0)
     | Some content \<Rightarrow> loadLines E s l (scanLines content) 0)"

fun loadLists :: "'f storelib \<Rightarrow> fileSystem \<Rightarrow> (GudgeonList \<Rightarrow> string) \<Rightarrow> 'f store \<Rightarrow> GudgeonList list \<Rightarrow> ('f store \<times> nat list) run" where
  "loadLists E fs path s [] = Ret (s, [])"
| "loadLists E fs path s (l # ls) =
     bind_run (loadList E fs path s l) (\<lambda>(s1, n).
     bind_run (loadLists E fs path s1 ls) (\<lambda>(s2, ns). Ret (s2, n # ns)))"

text \<open>
  The store over the configured lists. A nil list in the configuration is dereferenced by
  \<open>complexStore.Init\<close>. Each list has one handle for its file events; \<open>fileChanged\<close> is its handler.
\<close>

definition CreateStore :: "'f storelib \<Rightarrow> fileSystem \<Rightarrow> (GudgeonList \<Rightarrow> string) \<Rightarrow> string \<Rightarrow> GudgeonList option list \<Rightarrow> ('f store \<times> nat list) run" where
  "CreateStore E fs path ruleStorage confLists =
     (if None \<in> set confLists then Panic
      else
        let ls = map the confLists;
            s0 = ReloadingStore [0..<length ls] (Some (newComplex (Some (backingStore ruleStorage))))
        in bind_run (loadLists E fs path (Init E s0 ls) ls) (\<lambda>(s1, counts).
             Ret (Finalize E s1 ls, counts)))"

definition fileChanged :: "'f storelib \<Rightarrow> fileSystem \<Rightarrow> (GudgeonList \<Rightarrow> string) \<Rightarrow> 'f store \<Rightarrow> GudgeonList \<Rightarrow> ('f store \<times> nat) run" where
  "fileChanged E fs path s l =
     bind_run (loadList E fs path (Clear E s l) l) (\<lambda>(s1, n). Ret (Finalize E s1 [l], n))"

section \<open>What is loaded from the files\<close>

definition fileRules :: "fileSystem \<Rightarrow> (GudgeonList \<Rightarrow> string) \<Rightarrow> GudgeonList \<Rightarrow> string list" where
  "fileRules fs path l = (case fs (path l) of
       None \<Rightarrow> []
     | Some content \<Rightarrow> filter (\<lambda>t. t \<noteq> []) (map ParseLine (scanLines content)))"

definition simpleRules :: "fileSystem \<Rightarrow> (GudgeonList \<Rightarrow> string) \<Rightarrow> GudgeonList \<Rightarrow> string list" where
  "simpleRules fs path l = filter (\<lambda>r. \<not> takesRule l r) (fileRules fs path l)"

text \<open>The rules that do not make \<open>createRegexMatchRule\<close> panic.\<close>

definition safeRule :: "GudgeonList \<Rightarrow> string \<Rightarrow> bool" where
  "safeRule l r \<longleftrightarrow> lsRegex l = Some True \<or> r \<noteq> ''/''"

primrec loadRules :: "'f storelib \<Rightarrow> 'f store \<Rightarrow> GudgeonList \<Rightarrow> string list \<Rightarrow> 'f store run" where
  "loadRules E s l [] = Ret s"
| "loadRules E s l (r # rs) = bind_run (Load E s l r) (\<lambda>s'. loadRules E s' l rs)"

lemma loadLines_eq:
  "loadLines E s l lines n =
     bind_run (loadRules E s l (filter (\<lambda>t. t \<noteq> []) (map ParseLine lines)))
       (\<lambda>s'. Ret (s', n + length (filter (\<lambda>t. t \<noteq> []) (map ParseLine lines))))"
  by (induction lines arbitrary: s n) (auto simp: Let_def run_simps)

lemma loadList_eq:
  "loadList E fs path s l =
     bind_run (loadRules E s l (fileRules fs path l)) (\<lambda>s'. Ret (s', length (fileRules fs path l)))"
  by (auto simp: loadList_def fileRules_def loadLines_eq split: option.splits)

section \<open>Complex rules\<close>

primrec complexLoadAll :: "'f rulelib \<Rightarrow> complexStore \<Rightarrow> GudgeonList \<Rightarrow> string list \<Rightarrow> complexStore run" where
  "complexLoadAll R c l [] = Ret c"
| "complexLoadAll R c l (r # rs) = bind_run (complexLoad R c l r) (\<lambda>c'. complexLoadAll R c' l rs)"

definition complexHas :: "complexStore \<Rightarrow> string \<Rightarrow> ComplexRule \<Rightarrow> bool" where
  "complexHas c n cr = (case complexRules c n of None \<Rightarrow> False | Some rs \<Rightarrow> cr \<in> set rs)"

lemma compileRule_safe:
  assumes "safeRule l r" "takesRule l r"
  shows "\<exists>ro. compileRule R l r = Ret ro"
proof (cases "lsRegex l = Some True")
  case False
  with assms(1) have "r \<noteq> ''/''"
    by (simp add: safeRule_def)
  moreover have "r = ''/''" if "HasPrefix r ruleRegex" "length r < 2"
    using that by (auto simp: HasPrefix_single)
  ultimately show ?thesis
    using False by (auto simp: compileRule_def createComplexRule_def createRegexMatchRule_def)
qed (simp add: compileRule_def)

lemma complexLoad_ok:
  assumes "safeRule l r"
  shows "\<exists>c'. complexLoad R c l r = Ret c' \<and> complexBase c' = addList l (complexBase c) \<and>
    (\<forall>n cr. complexHas c' n cr \<longleftrightarrow> complexHas c n cr \<or>
       n = CanonicalName l \<and> takesRule l r \<and> compileRule R l r = Ret (Some cr))"
proof (cases "takesRule l r")
  case True
  from compileRule_safe [OF assms True] obtain ro where ro: "compileRule R l r = Ret ro"
    by blast
  show ?thesis
    using True by (cases ro) (auto simp: complexLoad_def ro addComplex_def complexHas_def Let_def split: option.splits)
qed (simp add: complexLoad_def complexHas_def)

lemma addList_idem [simp]: "addList l (addList l b) = addList l b"
  by (auto simp: addList_def Let_def fun_eq_iff)

lemma complexLoadAll_ok:
  assumes "\<forall>r \<in> set rs. safeRule l r"
  shows "\<exists>c'. complexLoadAll R c l rs = Ret c' \<and>
    complexBase c' = (if rs = [] then complexBase c else addList l (complexBase c)) \<and>
    (\<forall>n cr. complexHas c' n cr \<longleftrightarrow> complexHas c n cr \<or>
       n = CanonicalName l \<and> (\<exists>r \<in> set rs. takesRule l r \<and> compileRule R l r = Ret (Some cr)))"
  using assms
proof (induction rs arbitrary: c)
  case (Cons r rs)
  from complexLoad_ok [of l r R c] Cons.prems obtain c1 where c1:
    "complexLoad R c l r = Ret c1" "complexBase c1 = addList l (complexBase c)"
    "\<forall>n cr. complexHas c1 n cr \<longleftrightarrow> complexHas c n cr \<or>
       n = CanonicalName l \<and> takesRule l r \<and> compileRule R l r = Ret (Some cr)"
    by auto
  with Cons.IH [of c1] Cons.prems show ?case
    by auto
qed simp

lemma complexInitLoop_Some:
  "complexInitLoop ls m n = Some rs \<Longrightarrow> m n = Some rs \<or> rs = []"
proof (induction ls arbitrary: m)
  case (Cons l ls)
  from Cons.IH [OF Cons.prems [unfolded complexInitLoop.simps]] show ?case
    by (auto split: if_splits)
qed simp

lemma complexInit_props [simp]:
  "complexBase (complexInit c ls) = complexBase c" "\<not> complexHas (complexInit c ls) n cr"
  by (auto simp: complexInit_def complexHas_def dest!: complexInitLoop_Some split: option.splits)

lemma complexRuleLoop_decision:
  "decision (complexRuleLoop R rules domain m l) =
     (if \<exists>cr \<in> set rules. IsMatch R cr domain then (m, Some l) else (MatchNone, None))"
  by (induction rules) auto

lemma complexOwnMatch_spec:
  "decision (complexOwnMatch R c ls domain) =
     specMatchBy (complexBase c) (\<lambda>l. \<exists>cr. complexHas c (CanonicalName l) cr \<and> IsMatch R cr domain) ls"
  unfolding complexOwnMatch_def
  by (rule allowThenBlock_specBy)
    (auto simp: complexHas_def complexRuleLoop_decision split: option.splits)

section \<open>The stack that CreateStore builds\<close>

text \<open>
  The bookkeeping and the simple rules that the lists \<open>ls\<close> bring in, read off the files.
\<close>

definition simpleBase :: "fileSystem \<Rightarrow> (GudgeonList \<Rightarrow> string) \<Rightarrow> GudgeonList list \<Rightarrow> baseStore \<Rightarrow> baseStore" where
  "simpleBase fs path ls b = foldl (\<lambda>b l. if simpleRules fs path l = [] then b else addList l b) b ls"

definition allBase :: "fileSystem \<Rightarrow> (GudgeonList \<Rightarrow> string) \<Rightarrow> GudgeonList list \<Rightarrow> baseStore \<Rightarrow> baseStore" where
  "allBase fs path ls b = foldl (\<lambda>b l. if fileRules fs path l = [] then b else addList l b) b ls"

definition simpleHit :: "(string \<Rightarrow> string \<Rightarrow> bool) \<Rightarrow> fileSystem \<Rightarrow> (GudgeonList \<Rightarrow> string) \<Rightarrow> GudgeonList list \<Rightarrow> string \<Rightarrow> string \<Rightarrow> bool" where
  "simpleHit same fs path ls n d = list_ex (\<lambda>l. CanonicalName l = n \<and> list_ex (\<lambda>r. same r d) (simpleRules fs path l)) ls"

definition ruleHits :: "'f rulelib \<Rightarrow> GudgeonList \<Rightarrow> string \<Rightarrow> string \<Rightarrow> bool" where
  "ruleHits R l r domain = (takesRule l r \<and>
     (case compileRule R l r of Ret (Some cr) \<Rightarrow> IsMatch R cr domain | _ \<Rightarrow> False))"

lemma ruleHits_iff:
  "ruleHits R l r domain \<longleftrightarrow> takesRule l r \<and> (\<exists>cr. compileRule R l r = Ret (Some cr) \<and> IsMatch R cr domain)"
  by (auto simp: ruleHits_def split: run.splits option.splits)

definition complexHit :: "'f rulelib \<Rightarrow> fileSystem \<Rightarrow> (GudgeonList \<Rightarrow> string) \<Rightarrow> GudgeonList list \<Rightarrow> string \<Rightarrow> string \<Rightarrow> bool" where
  "complexHit R fs path ls n domain = list_ex (\<lambda>l. CanonicalName l = n \<and>
     list_ex (\<lambda>r. ruleHits R l r domain) (fileRules fs path l)) ls"

text \<open>The decision the files call for: complex rules first, then the simple ones.\<close>

definition filesMatch :: "'f rulelib \<Rightarrow> (string \<Rightarrow> string \<Rightarrow> bool) \<Rightarrow> fileSystem \<Rightarrow> (GudgeonList \<Rightarrow> string)
    \<Rightarrow> GudgeonList list \<Rightarrow> GudgeonList list \<Rightarrow> string \<Rightarrow> Match \<times> GudgeonList option" where
  "filesMatch R same fs path ls req domain =
     (let r = specMatchBy (allBase fs path ls emptyBase) (\<lambda>l. complexHit R fs path ls (CanonicalName l) domain) req in
      if fst r \<noteq> MatchNone then r
      else specMatch (simpleBase fs path ls emptyBase) (simpleHit same fs path ls) req domain)"

text \<open>The bookkeeping of lists whose types and short names are all different.\<close>

definition listKey :: "GudgeonList \<Rightarrow> ListType \<times> string" where
  "listKey l = (ParsedType l, ShortName l)"

lemma baseLookup_foldl:
  assumes "distinct (map listKey ls)"
  shows "baseLookup (foldl (\<lambda>b l. if P l then b else addList l b) b ls) t n =
    (case List.find (\<lambda>l. listKey l = (t, n) \<and> \<not> P l) ls of Some l \<Rightarrow> Some l | None \<Rightarrow> baseLookup b t n)"
  using assms
proof (induction ls arbitrary: b)
  case (Cons l ls)
  have "List.find (\<lambda>l. listKey l = (t, n) \<and> \<not> P l) ls = None" if "listKey l = (t, n)"
    using Cons.prems that by (auto simp: find_None_iff image_iff)
  then show ?case
    using Cons by (auto simp: listKey_def split: option.splits)
qed simp

lemma find_listKey:
  assumes "distinct (map listKey ls)" "l \<in> set ls"
  shows "List.find (\<lambda>k. listKey k = listKey l \<and> Q k) ls = (if Q l then Some l else None)"
  using assms by (induction ls) (auto simp: find_None_iff image_iff)

lemma baseLookup_reload:
  assumes "distinct (map listKey ls)" "l \<in> set ls" "\<And>k. k \<in> set ls \<Longrightarrow> k \<noteq> l \<Longrightarrow> P k = P' k"
  shows "baseLookup (if P' l then removeList l (foldl (\<lambda>b l. if P l then b else addList l b) emptyBase ls)
                     else addList l (removeList l (foldl (\<lambda>b l. if P l then b else addList l b) emptyBase ls))) t n =
    baseLookup (foldl (\<lambda>b l. if P' l then b else addList l b) emptyBase ls) t n"
proof (cases "listKey l = (t, n)")
  case True
  then have "List.find (\<lambda>k. listKey k = (t, n) \<and> \<not> P' k) ls = (if \<not> P' l then Some l else None)"
    using find_listKey [OF assms(1,2), of "\<lambda>k. \<not> P' k"] by simp
  with True show ?thesis
    by (auto simp: baseLookup_foldl [OF assms(1)] listKey_def)
next
  case False
  have "List.find (\<lambda>k. listKey k = (t, n) \<and> \<not> P k) ls = List.find (\<lambda>k. listKey k = (t, n) \<and> \<not> P' k) ls"
    by (rule find_cong) (use assms(3) False in auto)
  with False show ?thesis
    by (auto simp: baseLookup_foldl [OF assms(1)] listKey_def)
qed

lemma specMatchBy_base_cong:
  assumes "\<And>t n. baseLookup b t n = baseLookup b' t n" "\<And>t n l. baseLookup b' t n = Some l \<Longrightarrow> P l = Q l"
  shows "specMatchBy b P ls = specMatchBy b' Q ls"
proof -
  have "firstList b t ls P = firstList b' t ls P" for t
    by (simp add: firstList_def assms(1))
  then have "specMatchBy b P ls = specMatchBy b' P ls"
    by (simp only: specMatchBy_def)
  also have "\<dots> = specMatchBy b' Q ls"
    by (rule specMatchBy_cong) (rule assms(2))
  finally show ?thesis .
qed

lemma list_ex_named:
  assumes "l \<in> set ls" "\<And>k. k \<in> set ls \<Longrightarrow> CanonicalName k = CanonicalName l \<Longrightarrow> k = l"
    and "\<And>k. k \<in> set ls \<Longrightarrow> k \<noteq> l \<Longrightarrow> Q k = Q' k"
  shows "(if n = CanonicalName l then list_ex (\<lambda>k. CanonicalName k = n \<and> Q' k) [l]
          else list_ex (\<lambda>k. CanonicalName k = n \<and> Q k) ls) \<longleftrightarrow> list_ex (\<lambda>k. CanonicalName k = n \<and> Q' k) ls"
proof (cases "n = CanonicalName l")
  case True
  then show ?thesis
    using assms(1,2) by (auto simp: list_ex_iff)
next
  case False
  then show ?thesis
    using assms(3) by (auto simp: list_ex_iff)
qed

text \<open>
  A store that keeps the contract and is used as a \<open>Store\<close> value: \<open>mk\<close> wraps its state, and the
  methods of the interface on the wrapped state are its operations.
\<close>

locale backed_store = rule_store same inv base known hit searchable load clear finalize findMatch
  for same :: "string \<Rightarrow> string \<Rightarrow> bool" and inv :: "'s \<Rightarrow> bool" and base known hit searchable load clear finalize findMatch +
  fixes E :: "'f storelib"
    and mk :: "'s \<Rightarrow> 'f store"
    and fresh :: 's
    and init :: "'s \<Rightarrow> GudgeonList list \<Rightarrow> 's"
  assumes mk_Init: "Init E (mk s) ls = mk (init s ls)"
    and mk_Load: "Load E (mk s) l r = bind_run (load s l r) (\<lambda>s'. Ret (mk s'))"
    and mk_Clear: "Clear E (mk s) l = mk (clear s l)"
    and mk_Finalize: "Finalize E (mk s) ls = mk (finalize s ls)"
    and mk_FindMatch: "FindMatch E (mk s) = findMatch s"
    and init_fresh: "inv fresh \<Longrightarrow> inv (init fresh ls) \<and> CanonicalName ` set ls \<subseteq> known (init fresh ls) \<and>
      base (init fresh ls) = emptyBase \<and> (\<forall>n d. \<not> hit (init fresh ls) n d) \<and> (\<forall>n. searchable (init fresh ls) n)"
begin

definition stack :: "nat list \<Rightarrow> complexStore \<Rightarrow> 's \<Rightarrow> 'f store" where
  "stack hs c s = ReloadingStore hs (Some (ComplexStore c (Some (mk s))))"

lemma stack_Load:
  "Load E (stack hs c s) l r =
     (if takesRule l r then bind_run (complexLoad (slRule E) c l r) (\<lambda>c'. Ret (stack hs c' s))
      else bind_run (load s l r) (\<lambda>s'. bind_run (complexLoad (slRule E) c l r) (\<lambda>c'. Ret (stack hs c' s'))))"
  by (simp add: stack_def mk_Load run_simps)

lemma stack_loadRules:
  assumes "inv s" "CanonicalName l \<in> known s" "\<forall>r \<in> set rs. safeRule l r"
  shows "\<exists>c' s'. loadRules E (stack hs c s) l rs = Ret (stack hs c' s') \<and>
    complexLoadAll (slRule E) c l rs = Ret c' \<and> loadAll s l (filter (\<lambda>r. \<not> takesRule l r) rs) = Ret s'"
  using assms
proof (induction rs arbitrary: c s)
  case (Cons r rs)
  obtain c1 where c1: "complexLoad (slRule E) c l r = Ret c1"
    using complexLoad_ok Cons.prems(3) by (metis list.set_intros(1))
  show ?case
  proof (cases "takesRule l r")
    case True
    then show ?thesis
      using Cons.IH [of s c1] Cons.prems c1 by (simp add: stack_Load)
  next
    case False
    obtain s1 where "load s l r = Ret s1" "inv s1" "known s1 = known s"
      using load_ok [OF Cons.prems(1,2)] by blast
    then show ?thesis
      using Cons.IH [of s1 c1] Cons.prems c1 False by (simp add: stack_Load)
  qed
qed simp

text \<open>What is known after the lists \<open>ls\<close> have been loaded on top of the stack \<open>c\<close>, \<open>s\<close>.\<close>

definition loaded :: "fileSystem \<Rightarrow> (GudgeonList \<Rightarrow> string) \<Rightarrow> GudgeonList list \<Rightarrow> complexStore \<Rightarrow> 's \<Rightarrow> complexStore \<Rightarrow> 's \<Rightarrow> bool" where
  "loaded fs path ls c s c' s' \<longleftrightarrow> inv s' \<and> known s' = known s \<and>
     base s' = simpleBase fs path ls (base s) \<and> complexBase c' = allBase fs path ls (complexBase c) \<and>
     (\<forall>n d. hit s' n d \<longleftrightarrow> hit s n d \<or> simpleHit same fs path ls n d) \<and>
     (\<forall>n domain. (\<exists>cr. complexHas c' n cr \<and> IsMatch (slRule E) cr domain) \<longleftrightarrow>
        (\<exists>cr. complexHas c n cr \<and> IsMatch (slRule E) cr domain) \<or> complexHit (slRule E) fs path ls n domain) \<and>
     (\<forall>n. n \<notin> CanonicalName ` set ls \<longrightarrow> searchable s' n = searchable s n)"

lemma loaded_trans:
  assumes "loaded fs path ls c s c1 s1" "loaded fs path ls' c1 s1 c2 s2"
  shows "loaded fs path (ls @ ls') c s c2 s2"
proof -
  have "searchable s2 n = searchable s n" if "n \<notin> CanonicalName ` set (ls @ ls')" for n
    using assms that unfolding loaded_def by (simp add: image_Un)
  moreover have "simpleHit same fs path (ls @ ls') n d \<longleftrightarrow> simpleHit same fs path ls n d \<or> simpleHit same fs path ls' n d"
    "complexHit R fs path (ls @ ls') n d \<longleftrightarrow> complexHit R fs path ls n d \<or> complexHit R fs path ls' n d" for n d and R :: "'f rulelib"
    by (simp_all add: simpleHit_def complexHit_def)
  ultimately show ?thesis
    using assms unfolding loaded_def simpleBase_def allBase_def by (simp only: foldl_append disj_assoc) blast
qed

lemma stack_loadList:
  assumes "inv s" "CanonicalName l \<in> known s" "\<forall>r \<in> set (fileRules fs path l). safeRule l r"
  shows "\<exists>c' s'. loadList E fs path (stack hs c s) l = Ret (stack hs c' s', length (fileRules fs path l)) \<and>
    loaded fs path [l] c s c' s'"
proof -
  let ?rs = "fileRules fs path l"
  obtain c' s' where cs: "loadRules E (stack hs c s) l ?rs = Ret (stack hs c' s')"
    "complexLoadAll (slRule E) c l ?rs = Ret c'" "loadAll s l (simpleRules fs path l) = Ret s'"
    using stack_loadRules [OF assms] unfolding simpleRules_def by blast
  have C: "complexBase c' = (if ?rs = [] then complexBase c else addList l (complexBase c))"
    "complexHas c' n cr \<longleftrightarrow> complexHas c n cr \<or>
       n = CanonicalName l \<and> (\<exists>r \<in> set ?rs. takesRule l r \<and> compileRule (slRule E) l r = Ret (Some cr))" for n cr
    using complexLoadAll_ok [OF assms(3), of "slRule E" c] cs(2) by auto
  have S: "inv s'" "known s' = known s" "base s' = simpleBase fs path [l] (base s)"
    "\<forall>n d. hit s' n d \<longleftrightarrow> hit s n d \<or> simpleHit same fs path [l] n d"
    "\<forall>n. n \<noteq> CanonicalName l \<longrightarrow> searchable s' n = searchable s n"
    using loadAll_ok [OF assms(1,2), of "simpleRules fs path l"] cs(3)
    by (auto simp: simpleBase_def simpleHit_def list_ex_iff)
  have H: "complexHit (slRule E) fs path [l] n domain \<longleftrightarrow> n = CanonicalName l \<and>
      (\<exists>r \<in> set ?rs. takesRule l r \<and> (\<exists>cr. compileRule (slRule E) l r = Ret (Some cr) \<and> IsMatch (slRule E) cr domain))" for n domain
    by (auto simp: complexHit_def list_ex_iff ruleHits_iff)
  have "loaded fs path [l] c s c' s'"
    unfolding loaded_def H using S C by (auto simp: allBase_def)
  with cs(1) show ?thesis
    by (auto simp: loadList_eq)
qed

lemma stack_loadLists:
  assumes "inv s" "CanonicalName ` set ls \<subseteq> known s" "\<forall>l \<in> set ls. \<forall>r \<in> set (fileRules fs path l). safeRule l r"
  shows "\<exists>c' s'. loadLists E fs path (stack hs c s) ls = Ret (stack hs c' s', map (\<lambda>l. length (fileRules fs path l)) ls) \<and>
    loaded fs path ls c s c' s'"
  using assms
proof (induction ls arbitrary: c s)
  case Nil
  then show ?case
    by (auto simp: loaded_def simpleBase_def allBase_def simpleHit_def complexHit_def)
next
  case (Cons l ls)
  from stack_loadList [of s l fs path hs c] Cons.prems obtain c1 s1 where 1:
    "loadList E fs path (stack hs c s) l = Ret (stack hs c1 s1, length (fileRules fs path l))" "loaded fs path [l] c s c1 s1"
    by auto
  then have "inv s1" "known s1 = known s"
    by (auto simp: loaded_def)
  with Cons.IH [of s1 c1] Cons.prems obtain c2 s2 where 2:
    "loadLists E fs path (stack hs c1 s1) ls = Ret (stack hs c2 s2, map (\<lambda>l. length (fileRules fs path l)) ls)"
    "loaded fs path ls c1 s1 c2 s2"
    by auto
  with 1 loaded_trans [OF 1(2) 2(2)] show ?case
    by auto
qed

lemma stack_FindMatch:
  assumes "inv s" "\<And>n. searchable s n"
  shows "decision (FindMatch E (stack hs c s) req domain) =
    (let r = specMatchBy (complexBase c) (\<lambda>l. \<exists>cr. complexHas c (CanonicalName l) cr \<and> IsMatch (slRule E) cr domain) req in
     if fst r \<noteq> MatchNone then r else specMatch (base s) (hit s) req domain)"
proof -
  have "decision (findMatch s req domain) = specMatch (base s) (hit s) req domain"
    by (rule findMatch_ok) (use assms in auto)
  moreover have "fst (complexOwnMatch (slRule E) c req domain) = fst (decision (complexOwnMatch (slRule E) c req domain))"
    by (simp add: decision_def)
  ultimately show ?thesis
    by (auto simp: stack_def complexFindMatch_def mk_FindMatch Let_def complexOwnMatch_spec [symmetric])
qed

lemma create_state:
  assumes "backingStore ruleStorage = mk fresh" "inv fresh"
    and "\<forall>l \<in> set ls. \<forall>r \<in> set (fileRules fs path l). safeRule l r"
  shows "\<exists>c s. CreateStore E fs path ruleStorage (map Some ls) =
      Ret (stack [0..<length ls] c s, map (\<lambda>l. length (fileRules fs path l)) ls) \<and>
    inv s \<and> (\<forall>n. searchable s n) \<and> base s = simpleBase fs path ls emptyBase \<and>
    complexBase c = allBase fs path ls emptyBase \<and> hit s = simpleHit same fs path ls \<and>
    (\<forall>n domain. (\<exists>cr. complexHas c n cr \<and> IsMatch (slRule E) cr domain) \<longleftrightarrow> complexHit (slRule E) fs path ls n domain)"
proof -
  let ?hs = "[0..<length ls]"
  let ?c = "complexInit \<lparr>complexBase = emptyBase, complexRules = Map.empty\<rparr> ls"
  let ?s = "init fresh ls"
  note I = init_fresh [OF assms(2), of ls]
  obtain c s where cs: "loadLists E fs path (stack ?hs ?c ?s) ls = Ret (stack ?hs c s, map (\<lambda>l. length (fileRules fs path l)) ls)"
    "loaded fs path ls ?c ?s c s"
    using stack_loadLists [of ?s ls fs path ?hs ?c] I assms(3) by auto
  let ?t = "finalize s ls"
  have F: "inv ?t" "base ?t = base s" "hit ?t = hit s"
    using finalize_ok [of s ls] cs(2) by (auto simp: loaded_def)
  have sr: "searchable ?t n" for n
    using finalize_ok [of s ls] cs(2) I by (cases "n \<in> CanonicalName ` set ls") (auto simp: loaded_def)
  have "CreateStore E fs path ruleStorage (map Some ls) = Ret (stack ?hs c ?t, map (\<lambda>l. length (fileRules fs path l)) ls)"
    using cs(1) by (simp add: CreateStore_def Let_def newComplex_def assms(1) mk_Init stack_def mk_Finalize comp_def image_iff)
  moreover have "hit s = simpleHit same fs path ls" "base s = simpleBase fs path ls emptyBase"
    "complexBase c = allBase fs path ls emptyBase"
    "(\<exists>cr. complexHas c n cr \<and> IsMatch (slRule E) cr domain) \<longleftrightarrow> complexHit (slRule E) fs path ls n domain" for n domain
    using cs(2) I unfolding loaded_def by (auto simp: fun_eq_iff)
  ultimately show ?thesis
    using F sr by auto
qed

lemma create_exact:
  assumes "backingStore ruleStorage = mk fresh" "inv fresh"
    and "\<forall>l \<in> set ls. \<forall>r \<in> set (fileRules fs path l). safeRule l r"
  shows "\<exists>st. CreateStore E fs path ruleStorage (map Some ls) = Ret (st, map (\<lambda>l. length (fileRules fs path l)) ls) \<and>
    (\<forall>req domain. decision (FindMatch E st req domain) = filesMatch (slRule E) same fs path ls req domain)"
proof -
  obtain c s where cs: "CreateStore E fs path ruleStorage (map Some ls) =
      Ret (stack [0..<length ls] c s, map (\<lambda>l. length (fileRules fs path l)) ls)" "inv s" "\<And>n. searchable s n"
    "base s = simpleBase fs path ls emptyBase" "complexBase c = allBase fs path ls emptyBase"
    "hit s = simpleHit same fs path ls"
    "\<And>n domain. (\<exists>cr. complexHas c n cr \<and> IsMatch (slRule E) cr domain) \<longleftrightarrow> complexHit (slRule E) fs path ls n domain"
    using create_state [OF assms] by auto
  from stack_FindMatch [OF cs(2,3)] cs(1) show ?thesis
    by (auto simp: cs(4-7) filesMatch_def Let_def)
qed

text \<open>After a reload the list decides by its new file; every other list as before.\<close>

lemma stack_fileChanged:
  assumes "inv s" "\<And>n. searchable s n" "\<forall>r \<in> set (fileRules fs path l). safeRule l r"
  shows "\<exists>c' s'. fileChanged E fs path (stack hs c s) l = Ret (stack hs c' s', length (fileRules fs path l)) \<and>
    inv s' \<and> (\<forall>n. searchable s' n) \<and>
    base s' = simpleBase fs path [l] (removeList l (base s)) \<and>
    complexBase c' = allBase fs path [l] (removeList l (complexBase c)) \<and>
    (\<forall>n d. hit s' n d \<longleftrightarrow> (if n = CanonicalName l then simpleHit same fs path [l] n d else hit s n d)) \<and>
    (\<forall>n domain. (\<exists>cr. complexHas c' n cr \<and> IsMatch (slRule E) cr domain) \<longleftrightarrow>
      (if n = CanonicalName l then complexHit (slRule E) fs path [l] n domain
       else \<exists>cr. complexHas c n cr \<and> IsMatch (slRule E) cr domain))"
proof -
  let ?s = "clear s l" and ?c = "complexClear c l"
  note K = clear_ok [OF assms(1), of l]
  obtain c1 s1 where 1: "loadList E fs path (stack hs ?c ?s) l = Ret (stack hs c1 s1, length (fileRules fs path l))"
    "loaded fs path [l] ?c ?s c1 s1"
    using stack_loadList [of ?s l fs path hs ?c] K assms(3) by auto
  let ?t = "finalize s1 [l]"
  have F: "inv ?t" "base ?t = base s1" "hit ?t = hit s1"
    using finalize_ok [of s1 "[l]"] 1(2) by (auto simp: loaded_def)
  have sr: "searchable ?t n" for n
    using finalize_ok [of s1 "[l]"] 1(2) K assms(2) by (cases "n = CanonicalName l") (auto simp: loaded_def)
  have call: "fileChanged E fs path (stack hs c s) l = Ret (stack hs c1 ?t, length (fileRules fs path l))"
    using 1(1) by (simp add: fileChanged_def stack_def mk_Clear mk_Finalize)
  have cb: "complexBase ?c = removeList l (complexBase c)" "complexHas ?c n cr \<longleftrightarrow> n \<noteq> CanonicalName l \<and> complexHas c n cr" for n cr
    by (auto simp: complexClear_def complexHas_def)
  have other: "\<not> simpleHit same fs path [l] n d" "\<not> complexHit (slRule E) fs path [l] n d" if "n \<noteq> CanonicalName l" for n d
    using that by (auto simp: simpleHit_def complexHit_def)
  have "hit ?t n d \<longleftrightarrow> (if n = CanonicalName l then simpleHit same fs path [l] n d else hit s n d)" for n d
    using 1(2) K other F(3) unfolding loaded_def by auto
  moreover have "(\<exists>cr. complexHas c1 n cr \<and> IsMatch (slRule E) cr domain) \<longleftrightarrow>
      (if n = CanonicalName l then complexHit (slRule E) fs path [l] n domain
       else \<exists>cr. complexHas c n cr \<and> IsMatch (slRule E) cr domain)" for n domain
    using 1(2) other unfolding loaded_def by (auto simp: cb)
  moreover have "base ?t = simpleBase fs path [l] (removeList l (base s))"
    "complexBase c1 = allBase fs path [l] (removeList l (complexBase c))"
    using 1(2) K F(2) unfolding loaded_def by (simp_all add: cb(1))
  ultimately show ?thesis
    using call F(1) sr by (intro exI [of _ c1] exI [of _ ?t]) simp
qed

text \<open>
  A store that was created from the files and has reloaded one list decides as a store created anew
  from the changed files.
\<close>

lemma reload_restart:
  assumes "backingStore ruleStorage = mk fresh" "inv fresh"
    and "distinct (map listKey ls)" "distinct (map CanonicalName ls)" "l \<in> set ls"
    and "\<forall>k \<in> set ls. \<forall>r \<in> set (fileRules fs path k). safeRule k r" "\<forall>r \<in> set (fileRules fs' path l). safeRule l r"
    and "\<forall>k \<in> set ls. k \<noteq> l \<longrightarrow> fs' (path k) = fs (path k)"
    and st: "CreateStore E fs path ruleStorage (map Some ls) = Ret (st, counts)"
  shows "\<exists>st'. fileChanged E fs' path st l = Ret (st', length (fileRules fs' path l)) \<and>
    (\<forall>req domain. decision (FindMatch E st' req domain) = filesMatch (slRule E) same fs' path ls req domain)"
proof -
  let ?hs = "[0..<length ls]"
  obtain c s where cs: "st = stack ?hs c s" "inv s" "\<And>n. searchable s n"
    "base s = simpleBase fs path ls emptyBase" "complexBase c = allBase fs path ls emptyBase"
    "hit s = simpleHit same fs path ls"
    "\<And>n domain. (\<exists>cr. complexHas c n cr \<and> IsMatch (slRule E) cr domain) \<longleftrightarrow> complexHit (slRule E) fs path ls n domain"
    using create_state [OF assms(1,2,6)] st by auto
  obtain c' s' where cs': "fileChanged E fs' path st l = Ret (stack ?hs c' s', length (fileRules fs' path l))"
    "inv s'" "\<And>n. searchable s' n"
    "base s' = simpleBase fs' path [l] (removeList l (base s))"
    "complexBase c' = allBase fs' path [l] (removeList l (complexBase c))"
    "\<And>n d. hit s' n d \<longleftrightarrow> (if n = CanonicalName l then simpleHit same fs' path [l] n d else hit s n d)"
    "\<And>n domain. (\<exists>cr. complexHas c' n cr \<and> IsMatch (slRule E) cr domain) \<longleftrightarrow>
      (if n = CanonicalName l then complexHit (slRule E) fs' path [l] n domain
       else \<exists>cr. complexHas c n cr \<and> IsMatch (slRule E) cr domain)"
    using stack_fileChanged [OF cs(2,3) assms(7), of ?hs c] cs(1) by auto
  have same_rules: "fileRules fs path k = fileRules fs' path k" "simpleRules fs path k = simpleRules fs' path k"
    if "k \<in> set ls" "k \<noteq> l" for k
    using assms(8) that by (simp_all add: fileRules_def simpleRules_def)
  have uniq: "k = l" if "k \<in> set ls" "CanonicalName k = CanonicalName l" for k
    using assms(4,5) that by (auto simp: distinct_map inj_on_def)
  have hits: "hit s' = simpleHit same fs' path ls"
    "(\<exists>cr. complexHas c' n cr \<and> IsMatch (slRule E) cr domain) \<longleftrightarrow> complexHit (slRule E) fs' path ls n domain" for n domain
    unfolding fun_eq_iff cs' cs(6,7) simpleHit_def complexHit_def
    by (intro allI list_ex_named; use assms(5) uniq same_rules in simp)+
  have bases: "baseLookup (base s') t n = baseLookup (simpleBase fs' path ls emptyBase) t n"
    "baseLookup (complexBase c') t n = baseLookup (allBase fs' path ls emptyBase) t n" for t n
    using baseLookup_reload [OF assms(3,5), of "\<lambda>k. simpleRules fs path k = []" "\<lambda>k. simpleRules fs' path k = []" t n]
      baseLookup_reload [OF assms(3,5), of "\<lambda>k. fileRules fs path k = []" "\<lambda>k. fileRules fs' path k = []" t n] same_rules
    by (simp_all add: cs'(4,5) cs(4,5) simpleBase_def allBase_def)
  have "decision (FindMatch E (stack ?hs c' s') req domain) = filesMatch (slRule E) same fs' path ls req domain" for req domain
  proof -
    have "specMatchBy (base s') P req = specMatchBy (simpleBase fs' path ls emptyBase) P req"
      "specMatchBy (complexBase c') P req = specMatchBy (allBase fs' path ls emptyBase) P req" for P
      using bases by (auto intro: specMatchBy_base_cong)
    then show ?thesis
      using stack_FindMatch [OF cs'(2,3), of ?hs c' req domain] by (simp only: hits filesMatch_def specMatch_def)
  qed
  with cs'(1) show ?thesis by blast
qed

end

lemma memInitLoop_Some: "memInitLoop ls m n = Some rs \<Longrightarrow> m n = Some rs \<or> rs = []"
proof (induction ls arbitrary: m)
  case (Cons l ls)
  from Cons.IH [OF Cons.prems [unfolded memInitLoop.simps]] show ?case
    by (auto split: if_splits)
qed simp

lemma hsInitLoop_Some: "hsInitLoop ls m n = Some hs \<Longrightarrow> m n = Some hs \<or> hs = {}"
proof (induction ls arbitrary: m)
  case (Cons l ls)
  from Cons.IH [OF Cons.prems [unfolded hsInitLoop.simps]] show ?case
    by (auto split: if_splits)
qed simp

lemma hsInitLoop_dom: "CanonicalName ` set ls \<union> dom m \<subseteq> dom (hsInitLoop ls m)"
proof (induction ls arbitrary: m)
  case (Cons l ls)
  from Cons.IH [of "if m (CanonicalName l) = None then m(CanonicalName l \<mapsto> {}) else m"] show ?case
    by (auto split: if_splits)
qed simp

lemma memInit_fresh:
  "memBase (memInit s ls) = memBase s" "\<not> memHit (memInit s ls) n d" "memSearchable R (memInit s ls) n"
  by (auto simp: memInit_def memHit_def memSearchable_def dest!: memInitLoop_Some split: option.splits)

lemma hsInit_fresh:
  "hashBase (hsInit s ls) = hashBase s" "\<not> hsHit summ (hsInit s ls) n d" "CanonicalName ` set ls \<subseteq> dom (hashes (hsInit s ls))"
proof -
  show "\<not> hsHit summ (hsInit s ls) n d"
    by (auto simp: hsInit_def hsHit_def dest!: hsInitLoop_Some split: option.splits)
  show "CanonicalName ` set ls \<subseteq> dom (hashes (hsInit s ls))"
    using hsInitLoop_dom [of ls Map.empty] by (simp add: hsInit_def)
qed (simp add: hsInit_def)

interpretation memStack: backed_store
  EqualFold "\<lambda>s. compareFold_ok (slRule E)" memBase "\<lambda>s. UNIV" memHit "memSearchable (slRule E)"
  "\<lambda>s l r. Ret (memLoad s l r)" memClear "memFinalize (slRule E)" "memFindMatch (slRule E)"
  E MemoryStore "\<lparr>memBase = emptyBase, memRules = Map.empty\<rparr>" memInit
  for E :: "'f storelib"
  by unfold_locales (simp_all add: memInit_fresh)

interpretation hash64Stack: backed_store
  "hsSame (StringSum64 (slRule E))" "\<lambda>s. True" hashBase "\<lambda>s. dom (hashes s)" "hsHit (StringSum64 (slRule E))" "\<lambda>s n. True"
  "hash64Load (slRule E)" hash64Clear "\<lambda>s ls. s" "hash64FindMatch (slRule E) None"
  E "\<lambda>h. HashStore h None" "\<lparr>hashBase = emptyBase, hashes = Map.empty\<rparr>" hash64Init
  for E :: "'f storelib"
  by unfold_locales (simp_all add: hash64Init_def hsInit_fresh)

interpretation hash32Stack: backed_store
  "hsSame (StringSum32 (slRule E))" "\<lambda>s. True" hashBase "\<lambda>s. dom (hashes s)" "hsHit (StringSum32 (slRule E))" "\<lambda>s n. True"
  "hash32Load (slRule E)" hash32Clear "\<lambda>s ls. s" "hash32FindMatch (slRule E) None"
  E "\<lambda>h. HashStore32 h None" "\<lparr>hashBase = emptyBase, hashes = Map.empty\<rparr>" hash32Init
  for E :: "'f storelib"
  by unfold_locales (simp_all add: hash32Init_def hsInit_fresh)

section \<open>A digest in front of the database\<close>

lemma sqlHit_rule:
  assumes "sqllib_ok D" "sqlWf q" "set ord = UNIV" "sqlOpen q" "\<not> sqlClosing q" "\<not> sqlTx q"
    and "\<forall>(i, r) \<in> set (sqlRules q). r \<noteq> []"
  shows "case sqlFindMatch D ord q ls domain of (m, lo, r) \<Rightarrow>
     m = (if sqlCovers q ALLOW ls domain then MatchAllow
          else if sqlCovers q BLOCK ls domain then MatchBlock else MatchNone) \<and>
     (m \<noteq> MatchNone \<longrightarrow> (\<exists>l. lo = Some l \<and> typeMatch (ParsedType l) = m \<and> ShortName l \<in> ShortName ` set ls \<and>
        baseLookup (sqlBase q) (ParsedType l) (ShortName l) = Some l \<and>
        r \<in> set (DomainList domain) \<and> sqlHit q (ShortName l) r)) \<and> (m = MatchNone \<longrightarrow> lo = None)"
proof -
  let ?names = "map ShortName (forEachIn ord (sqlBase q) ls)"
  let ?rows = "selectRows q ?names (DomainList domain)"
  note S = sqlWf_selectRows [OF assms(2,3), of _ _ _ ls domain]
  have cov: "sqlCovers q t ls domain \<longleftrightarrow> (\<exists>n r. (n, t, r) \<in> set ?rows)" for t
    unfolding sqlCovers_iff S using sqlWf_base(2) [OF assms(2)] by metis
  show ?thesis
  proof (cases "?rows = []")
    case True
    then have "sqlFoundInLists D ord q ls (DomainList domain) = None"
      by (auto simp: sqlFoundInLists_def queryRow_def topRows_def assms(6) Let_def)
    with True show ?thesis
      by (simp add: sqlFindMatch_def assms(4) cov)
  next
    case False
    then have top: "topRows ?rows \<noteq> []"
      by (auto simp: topRows_def Let_def)
    obtain n t r where row: "pickRow D (topRows ?rows) = (n, t, r)"
      by (cases "pickRow D (topRows ?rows)") auto
    then have mem: "(n, t, r) \<in> set (topRows ?rows)"
      using assms(1) top unfolding sqllib_ok_def by metis
    then have inr: "(n, t, r) \<in> set ?rows"
      by (auto simp: set_topRows split: if_splits)
    then obtain v l where vl: "v \<in> set ls" "ShortName v = n" "baseLookup (sqlBase q) t n = Some l"
      "r \<in> set (DomainList domain)" "sqlHit q n r"
      unfolding S by blast
    note B = sqlWf_base [OF assms(2) vl(3)]
    have "r \<noteq> []"
      using assms(7) vl(5) by (auto simp: sqlHit_iff)
    have ne: "?names \<noteq> []" "DomainList domain \<noteq> []" "ls \<noteq> []"
      using inr vl(1) by (auto simp: selectRows_iff)
    have "sqlFoundInLists D ord q ls (DomainList domain) = Some (n, t, r)"
      using ne row top B(1) \<open>r \<noteq> []\<close> assms(5,6) by (simp add: sqlFoundInLists_def queryRow_def Let_def)
    then have res: "sqlFindMatch D ord q ls domain = (typeMatch t, Some l, r)"
      using sqlWf_getList [OF assms(2,3) vl(3)] assms(4)
      by (cases t) (simp_all add: sqlFindMatch_def typeMatch_def)
    have "typeMatch t = (if sqlCovers q ALLOW ls domain then MatchAllow
        else if sqlCovers q BLOCK ls domain then MatchBlock else MatchNone)"
      using mem inr unfolding cov set_topRows by (cases t) (auto simp: typeMatch_def split: if_splits)
    moreover have "n \<in> ShortName ` set ls"
      using vl(1,2) by blast
    ultimately show ?thesis
      unfolding res using B(2,3) vl(3-5) typeMatch_not_None [of t] by (simp del: typeMatch_not_None split: if_splits)
  qed
qed

lemma nextId_greater: "x \<in> set t \<Longrightarrow> fst x < nextId t"
proof -
  have "y \<in> set xs \<Longrightarrow> y \<le> foldr max xs 0" for y and xs :: "nat list"
    by (induction xs) auto
  then show "x \<in> set t \<Longrightarrow> fst x < nextId t"
    by (simp add: nextId_def less_Suc_eq_le)
qed

lemma insertListRow_fold:
  assumes "distinct (map fst t)"
  shows "distinct (map fst (foldl insertListRow t ls))"
    "map (fst \<circ> snd) (foldl insertListRow t ls) = map (fst \<circ> snd) t @ map ShortName ls"
    "\<forall>l \<in> set ls. \<exists>i. (i, ShortName l, ParsedType l) \<in> set (foldl insertListRow t ls)"
    "set t \<subseteq> set (foldl insertListRow t ls)"
proof -
  have "distinct (map fst (foldl insertListRow t ls)) \<and>
    map (fst \<circ> snd) (foldl insertListRow t ls) = map (fst \<circ> snd) t @ map ShortName ls \<and>
    (\<forall>l \<in> set ls. \<exists>i. (i, ShortName l, ParsedType l) \<in> set (foldl insertListRow t ls)) \<and>
    set t \<subseteq> set (foldl insertListRow t ls)"
    using assms
  proof (induction ls arbitrary: t)
    case (Cons l ls)
    have "distinct (map fst (insertListRow t l))"
      using Cons.prems nextId_greater by (fastforce simp: insertListRow_def)
    from Cons.IH [OF this] show ?case
      by (auto simp: insertListRow_def)
  qed simp
  then show "distinct (map fst (foldl insertListRow t ls))"
    "map (fst \<circ> snd) (foldl insertListRow t ls) = map (fst \<circ> snd) t @ map ShortName ls"
    "\<forall>l \<in> set ls. \<exists>i. (i, ShortName l, ParsedType l) \<in> set (foldl insertListRow t ls)"
    "set t \<subseteq> set (foldl insertListRow t ls)"
    by blast+
qed

text \<open>Rules loaded one after the other, each for its list.\<close>

fun loadSeq :: "'f storelib \<Rightarrow> 'f store \<Rightarrow> (GudgeonList \<times> string) list \<Rightarrow> 'f store run" where
  "loadSeq E s [] = Ret s"
| "loadSeq E s ((l, r) # xs) = bind_run (Load E s l r) (\<lambda>s'. loadSeq E s' xs)"

definition seqBase :: "(GudgeonList \<times> string) list \<Rightarrow> baseStore" where
  "seqBase xs = foldl (\<lambda>b (l, r). addList l b) emptyBase xs"

definition digestInv :: "'f rulelib \<Rightarrow> GudgeonList list \<Rightarrow> (GudgeonList \<times> string) list \<Rightarrow> hashStore64 \<Rightarrow> sqlStore \<Rightarrow> bool" where
  "digestInv R ls xs h q \<longleftrightarrow> sqlWf q \<and> (\<forall>l \<in> set ls. \<exists>i. (i, ShortName l, ParsedType l) \<in> set (sqlLists q)) \<and>
     hashBase h = seqBase xs \<and> sqlBase q = seqBase xs \<and> sqlStmt q \<noteq> Some False \<and> sqlOpen q \<and> \<not> sqlClosing q \<and>
     (\<forall>n d. sqlHit q n d \<longleftrightarrow> (\<exists>l. (l, d) \<in> set xs \<and> ShortName l = n)) \<and>
     (\<forall>l d. (l, d) \<in> set xs \<longrightarrow> hsHit (StringSum64 R) h (CanonicalName l) d) \<and>
     (\<forall>l \<in> set ls. CanonicalName l \<in> dom (hashes h)) \<and> snd ` set (sqlRules q) \<subseteq> snd ` set xs"

lemma digestInvD:
  assumes "digestInv R ls xs h q"
  shows "sqlWf q" "l \<in> set ls \<Longrightarrow> \<exists>i. (i, ShortName l, ParsedType l) \<in> set (sqlLists q)"
    "hashBase h = seqBase xs" "sqlBase q = seqBase xs" "sqlStmt q \<noteq> Some False" "sqlOpen q" "\<not> sqlClosing q"
    "sqlHit q n d \<longleftrightarrow> (\<exists>l. (l, d) \<in> set xs \<and> ShortName l = n)"
    "(l, d) \<in> set xs \<Longrightarrow> hsHit (StringSum64 R) h (CanonicalName l) d"
    "l \<in> set ls \<Longrightarrow> CanonicalName l \<in> dom (hashes h)" "snd ` set (sqlRules q) \<subseteq> snd ` set xs"
  using assms unfolding digestInv_def
  by simp_all

lemma digestInv_init:
  assumes "distinct (map ShortName ls)"
  shows "\<exists>h q. Init E (newHash (Some newSql)) ls = HashStore h (Some (SqlStore q)) \<and> digestInv R ls [] h q"
proof -
  let ?h = "hash64Init \<lparr>hashBase = emptyBase, hashes = Map.empty\<rparr> ls"
  let ?q = "sqlInit \<lparr>sqlBase = emptyBase, sqlOpen = False, sqlLists = [], sqlRules = [], sqlTx = False,
     sqlStmt = None, sqlClosing = False\<rparr> ls"
  have "sqlWf ?q"
    using assms insertListRow_fold [of "[]" ls] by (simp add: sqlWf_def sqlInit_def)
  moreover have "\<forall>l \<in> set ls. CanonicalName l \<in> dom (hashes ?h)"
    unfolding hash64Init_def by (meson hsInit_fresh(3) image_subset_iff)
  ultimately have "digestInv R ls [] ?h ?q"
    using insertListRow_fold(3) [of "[]" ls]
    by (simp add: digestInv_def sqlInit_def hash64Init_def hsInit_fresh seqBase_def sqlHit_iff)
  then show ?thesis
    by (auto simp: newHash_def newSql_def)
qed

lemma digestInv_load:
  assumes "sqllib_ok (slSql E)" "digestInv (slRule E) ls xs h q" "l \<in> set ls" "ShortName l \<noteq> []"
  shows "\<exists>h' q'. Load E (HashStore h (Some (SqlStore q))) l r = Ret (HashStore h' (Some (SqlStore q'))) \<and>
    digestInv (slRule E) ls (xs @ [(l, r)]) h' q'"
proof -
  note D = assms(2) [unfolded digestInv_def]
  let ?q = "sqlLoad (slSql E) q l r"
  obtain i where i: "(i, ShortName l, ParsedType l) \<in> set (sqlLists q)"
    using digestInvD(2) [OF assms(2,3)] by blast
  note wf = digestInvD(1) [OF assms(2)] and st = digestInvD(5) [OF assms(2)]
  note Q = sqlLoad_hit [OF assms(1) wf i assms(4) st, of r]
  have same_flags: "sqlOpen ?q = sqlOpen q" "sqlClosing ?q = sqlClosing q"
    by (simp_all add: sqlLoad_def Let_def)
  note known = digestInvD(10) [OF assms(2,3)]
  obtain h' where h': "hash64Load (slRule E) h l r = Ret h'" "dom (hashes h') = dom (hashes h)"
    "hashBase h' = addList l (hashBase h)"
    "\<forall>n d. hsHit (StringSum64 (slRule E)) h' n d \<longleftrightarrow>
      hsHit (StringSum64 (slRule E)) h n d \<or> n = CanonicalName l \<and> hsSame (StringSum64 (slRule E)) r d"
    using hash64.load_ok [OF TrueI known, of "slRule E" r] by blast
  have "digestInv (slRule E) ls (xs @ [(l, r)]) h' ?q"
    unfolding digestInv_def using D Q h'(2-4) same_flags hash64.same_refl [of r r "slRule E"]
    by (auto simp: seqBase_def)
  with h'(1) show ?thesis
    by auto
qed

lemma digestInv_loadSeq:
  assumes "sqllib_ok (slSql E)" "digestInv (slRule E) ls ys h q" "\<forall>l \<in> set ls. ShortName l \<noteq> []" "fst ` set xs \<subseteq> set ls"
  shows "\<exists>h' q'. loadSeq E (HashStore h (Some (SqlStore q))) xs = Ret (HashStore h' (Some (SqlStore q'))) \<and>
    digestInv (slRule E) ls (ys @ xs) h' q'"
  using assms(2,4)
proof (induction xs arbitrary: ys h q)
  case (Cons x xs)
  obtain l r where x: "x = (l, r)"
    by (cases x)
  with Cons.prems assms(3) have "l \<in> set ls" "ShortName l \<noteq> []"
    by auto
  from digestInv_load [OF assms(1) Cons.prems(1) this, of r] obtain h1 q1 where
    "Load E (HashStore h (Some (SqlStore q))) l r = Ret (HashStore h1 (Some (SqlStore q1)))"
    "digestInv (slRule E) ls (ys @ [(l, r)]) h1 q1"
    by blast
  with Cons.IH [of "ys @ [(l, r)]" h1 q1] Cons.prems(2) show ?case
    by (simp add: x)
qed auto

lemma seqBase_lookup:
  "baseLookup (seqBase xs) t n = Some l \<Longrightarrow> l \<in> fst ` set xs \<and> ParsedType l = t \<and> ShortName l = n"
  unfolding seqBase_def by (induction xs rule: rev_induct) (auto split: if_splits)

lemma sqlHit_single:
  assumes "sqllib_ok D" "sqlWf q" "set ord = UNIV" "sqlOpen q" "\<not> sqlClosing q" "\<not> sqlTx q"
    and "\<forall>(i, r) \<in> set (sqlRules q). r \<noteq> []" "baseLookup (sqlBase q) t n = Some l"
  shows "decision (sqlFindMatch D ord q [l] domain) =
    (if \<exists>d \<in> set (DomainList domain). sqlHit q n d then (typeMatch t, Some l) else (MatchNone, None))"
proof -
  note B = sqlWf_base [OF assms(2,8)]
  have cov: "sqlCovers q u [l] domain \<longleftrightarrow> u = t \<and> (\<exists>d \<in> set (DomainList domain). sqlHit q n d)" for u
  proof -
    have "u = t" if "baseLookup (sqlBase q) u n = Some k" for k
      using sqlWf_base(4) [OF assms(2,8)] sqlWf_base(4) [OF assms(2) that] sqlWf_row_unique [OF assms(2)] by blast
    then show ?thesis
      using assms(8) B(2) by (auto simp: sqlCovers_iff)
  qed
  obtain m lo r where res: "sqlFindMatch D ord q [l] domain = (m, lo, r)"
    by (cases "sqlFindMatch D ord q [l] domain") auto
  have "m = (if \<exists>d \<in> set (DomainList domain). sqlHit q n d then typeMatch t else MatchNone)"
    using sqlHit_rule [OF assms(1-7), of "[l]" domain] unfolding res cov by (cases t) (auto simp: typeMatch_def)
  moreover have "lo = Some l" if m: "m = typeMatch t"
  proof -
    from m have mn: "m \<noteq> MatchNone"
      by simp
    obtain l' where l': "lo = Some l'" "typeMatch (ParsedType l') = m" "ShortName l' \<in> ShortName ` set [l]"
      "baseLookup (sqlBase q) (ParsedType l') (ShortName l') = Some l'"
      using sqlHit_rule [OF assms(1-7), of "[l]" domain] mn unfolding res prod.case by blast
    then show ?thesis
      using m B(2) assms(8) by simp
  qed
  moreover have "lo = None" if "m = MatchNone"
    using sqlHit_rule [OF assms(1-7), of "[l]" domain] that unfolding res prod.case by blast
  ultimately show ?thesis
    by (simp add: res)
qed

lemma hash_sqlite_find:
  assumes "sqllib_ok D" "set ord = UNIV" "digestInv R ls xs h q" "\<not> sqlTx q"
    and "distinct (map ShortName ls)" "fst ` set xs \<subseteq> set ls" "\<forall>(l, r) \<in> set xs. r \<noteq> []"
  shows "decision (hash64FindMatch R (Some (sqlFindMatch D ord q)) h req domain) =
    specMatchBy (seqBase xs) (\<lambda>l. \<exists>d \<in> set (DomainList domain). (l, d) \<in> set xs) req"
proof -
  note I = digestInvD [OF assms(3)]
  note q = I(1,6,7,3,4,8)
  have rules: "\<forall>(i, r) \<in> set (sqlRules q). r \<noteq> []"
    using I(11) assms(7) by fastforce
  have uniq: "(\<exists>k. (k, d) \<in> set xs \<and> ShortName k = ShortName l) \<longleftrightarrow> (l, d) \<in> set xs" if "l \<in> fst ` set xs" for l d
  proof -
    have "k = l" if "(k, d) \<in> set xs" "ShortName k = ShortName l" for k
    proof (rule distinct_map_inj [OF assms(5)])
      show "k \<in> set ls" "l \<in> set ls"
        using that(1) \<open>l \<in> fst ` set xs\<close> assms(6) by force+
    qed (rule that(2))
    then show ?thesis by blast
  qed
  show ?thesis
    unfolding hash64FindMatch_def hsFindMatch_def q(4)
  proof (rule filtered_spec [where front = "listHit (hsHit (StringSum64 R) h) domain" and ask = "sqlFindMatch D ord q"])
    fix t n l assume l: "baseLookup (seqBase xs) t n = Some l"
    have L: "ShortName l = n" "l \<in> fst ` set xs"
      using seqBase_lookup [OF l] by auto
    show "decision (sqlFindMatch D ord q [l] domain) =
        (if \<exists>d \<in> set (DomainList domain). (l, d) \<in> set xs then (typeMatch t, Some l) else (MatchNone, None))"
      using sqlHit_single [OF assms(1) q(1) assms(2) q(2,3) assms(4) rules, of t n l domain] l L(1) uniq [OF L(2)]
      by (simp add: q(5,6))
    show "listHit (hsHit (StringSum64 R) h) domain l" if "\<exists>d \<in> set (DomainList domain). (l, d) \<in> set xs"
      using I(9) that by (auto simp: listHit_iff)
  qed (simp add: hsAction_decision)
qed

section \<open>Bloom stores never miss\<close>

lemma bloomInit_known: "CanonicalName ` set ls \<subseteq> dom (blooms (bloomInit R lc s ls))"
proof -
  have "CanonicalName ` set ls \<union> dom (blooms s) \<subseteq> dom (blooms (foldl (createBloom R lc) s ls))" for s
  proof (induction ls arbitrary: s)
    case (Cons l ls)
    have "insert (CanonicalName l) (dom (blooms s)) \<subseteq> dom (blooms (createBloom R lc s l))"
      by (auto simp: createBloom_def Let_def split: option.splits)
    with Cons [of "createBloom R lc s l"] show ?case
      by (simp only: list.set image_insert foldl.simps) blast
  qed simp
  then show ?thesis
    by (auto simp: bloomInit_def Let_def)
qed

lemma bloomInit_base: "bloomBase (bloomInit R lc s ls) = bloomBase s"
proof -
  have "bloomBase (foldl (createBloom R lc) s ls) = bloomBase s" for s
    by (induction ls arbitrary: s) (auto simp: createBloom_def Let_def)
  then show ?thesis
    by (simp add: bloomInit_def Let_def)
qed

lemma bloom_loadSeq:
  assumes "bloom_ok (slRule E)" "CanonicalName ` fst ` set xs \<subseteq> dom (blooms b)"
  shows "\<exists>b'. loadSeq E (BloomStore b None) xs = Ret (BloomStore b' None) \<and>
    bloomBase b' = foldl (\<lambda>b (l, r). addList l b) (bloomBase b) xs \<and>
    (\<forall>n d. bloomHit (slRule E) b n d \<longrightarrow> bloomHit (slRule E) b' n d) \<and>
    (\<forall>l d. (l, d) \<in> set xs \<longrightarrow> bloomHit (slRule E) b' (CanonicalName l) d)"
  using assms(2)
proof (induction xs arbitrary: b)
  case (Cons x xs)
  obtain l r where x: "x = (l, r)"
    by (cases x)
  obtain b1 where b1: "bloomLoad (slRule E) b l r = Ret b1" "dom (blooms b1) = dom (blooms b)"
    "bloomBase b1 = addList l (bloomBase b)" "bloomHit (slRule E) b1 (CanonicalName l) r"
    "\<forall>n d. bloomHit (slRule E) b n d \<longrightarrow> bloomHit (slRule E) b1 n d"
    using bloomLoad_ok [OF assms(1), of l b r] Cons.prems x by auto
  with Cons.IH [of b1] Cons.prems show ?case
    by (auto simp: x)
qed simp

lemma bloom_loadSeq_find:
  assumes "bloom_ok (slRule E)" "fst ` set xs \<subseteq> set ls"
  shows "\<exists>b. loadSeq E (Init E (newBloom None) ls) xs = Ret (BloomStore b None) \<and>
    (\<forall>req domain v t l d. v \<in> set req \<and> baseLookup (seqBase xs) t (ShortName v) = Some l \<and>
       (l, d) \<in> set xs \<and> d \<in> set (DomainList domain) \<longrightarrow>
       fst (FindMatch E (BloomStore b None) req domain) \<noteq> MatchNone)"
proof -
  let ?b = "bloomInit (slRule E) (slLines E) \<lparr>bloomBase = emptyBase, blooms = Map.empty, bloomRuleCount = 0\<rparr> ls"
  have "CanonicalName ` fst ` set xs \<subseteq> dom (blooms ?b)"
    using bloomInit_known assms(2) by (meson image_mono subset_trans)
  from bloom_loadSeq [OF assms(1) this] obtain b where b: "loadSeq E (BloomStore ?b None) xs = Ret (BloomStore b None)"
    "bloomBase b = seqBase xs" "\<forall>l d. (l, d) \<in> set xs \<longrightarrow> bloomHit (slRule E) b (CanonicalName l) d"
    by (auto simp: bloomInit_base seqBase_def)
  have "fst (FindMatch E (BloomStore b None) req domain) \<noteq> MatchNone"
    if "v \<in> set req" "baseLookup (seqBase xs) t (ShortName v) = Some l" "(l, d) \<in> set xs" "d \<in> set (DomainList domain)"
    for req domain v t l d
  proof -
    have "listHit (bloomHit (slRule E) b) domain l"
      using b(3) that(3,4) by (auto simp: listHit_iff)
    then have "firstList (bloomBase b) t req (listHit (bloomHit (slRule E) b) domain) \<noteq> None"
      using that(1,2) b(2) by (auto simp: firstList_None_iff)
    then have "fst (decision (bloomFindMatch (slRule E) None b req domain)) \<noteq> MatchNone"
      unfolding bloomFindMatch_spec specMatch_def specMatchBy_None_iff by auto
    then show ?thesis
      by (simp add: decision_def)
  qed
  with b(1) show ?thesis
    by (auto simp: newBloom_def)
qed

section \<open>A concrete environment\<close>

definition demoSql :: sqllib where
  "demoSql = \<lparr>pickId = hd, pickRow = hd, pendingRow = (\<lambda>rows. None)\<rparr>"

definition demoEnv :: "string list storelib" where
  "demoEnv = \<lparr>slRule = demoLib, slSql = demoSql, slOrd = [ALLOW, BLOCK], slLines = (\<lambda>l. None)\<rparr>"

definition demoFiles :: fileSystem where
  "demoFiles = [''ads.list'' \<mapsto> ''ads.com # tracker'' @ [CHR 0x0A] @ ''*.click.net'', ''good.list'' \<mapsto> ''ok.ads.com'']"

definition demoFiles2 :: fileSystem where
  "demoFiles2 = demoFiles(''ads.list'' \<mapsto> ''other.com'')"

lemma demoEnv_simps [simp]: "slRule demoEnv = demoLib" "slSql demoEnv = demoSql" "slOrd demoEnv = [ALLOW, BLOCK]"
  by (simp_all add: demoEnv_def)

lemma demoSql_ok: "sqllib_ok demoSql"
  by (simp add: sqllib_ok_def demoSql_def)

lemma demoFiles_rules:
  "fileRules demoFiles lsSource demoBlock = [''ads.com'', ''*.click.net'']"
  "fileRules demoFiles lsSource demoAllow = [''ok.ads.com'']"
  "fileRules demoFiles2 lsSource demoBlock = [''other.com'']"
  by code_simp+

lemma demoFiles2_good: "demoFiles2 (lsSource demoAllow) = demoFiles (lsSource demoAllow)"
  by (simp add: demoFiles2_def)

lemma all_types: "set [ALLOW, BLOCK] = UNIV"
  using ListType.exhaust by auto

section \<open>Properties\<close>

text \<open>
  C2. The rule store over the memory backend is created without a panic when no list has the rule
  \<open>/\<close>; it reports for each list the number of rules in its file, and for every request and domain
  it answers exactly as the files call for: first the complex rules of the requested lists, allow
  before block, then the simple rules, allow before block, each list hit when one of its rules
  equals the domain or one of its parent domains up to case.
\<close>

theorem memory_store_exact:
  assumes "compareFold_ok (slRule E)"
    and "ToLower ruleStorage \<in> {[], ''mem'', ''memory''}"
    and "\<forall>l \<in> set ls. \<forall>r \<in> set (fileRules fs path l). safeRule l r"
  shows "\<exists>st. CreateStore E fs path ruleStorage (map Some ls) = Ret (st, map (\<lambda>l. length (fileRules fs path l)) ls) \<and>
    (\<forall>req domain. decision (FindMatch E st req domain) = filesMatch (slRule E) EqualFold fs path ls req domain)"
  by (rule memStack.create_exact) (use assms in \<open>auto simp: backingStore_def newMemory_def Let_def\<close>)

theorem memory_store_exact_witness:
  "compareFold_ok (slRule demoEnv) \<and>
   (\<exists>st. CreateStore demoEnv demoFiles lsSource ''memory'' (map Some [demoBlock, demoAllow]) = Ret (st, [2, 1]) \<and>
     decision (FindMatch demoEnv st [demoBlock, demoAllow] ''x.ADS.com'') = (MatchBlock, Some demoBlock) \<and>
     decision (FindMatch demoEnv st [demoBlock, demoAllow] ''ok.ads.com'') = (MatchAllow, Some demoAllow))"
proof -
  have "filesMatch demoLib EqualFold demoFiles lsSource [demoBlock, demoAllow] [demoBlock, demoAllow] ''x.ADS.com'' =
      (MatchBlock, Some demoBlock)"
    "filesMatch demoLib EqualFold demoFiles lsSource [demoBlock, demoAllow] [demoBlock, demoAllow] ''ok.ads.com'' =
      (MatchAllow, Some demoAllow)"
    by code_simp+
  moreover have "ToLower ''memory'' = ''memory''"
    by code_simp
  ultimately show ?thesis
    using memory_store_exact [of demoEnv "''memory''" "[demoBlock, demoAllow]" demoFiles lsSource] demoLib_compareFold
    by (auto simp: demoFiles_rules safeRule_def)
qed

text \<open>
  C7. Reloading is as good as restarting: a memory store created from the files that handles the
  change of one list's file afterwards decides exactly as one created from the changed files, when
  the lists have different names.
\<close>

theorem memory_reload_restart:
  assumes "compareFold_ok (slRule E)"
    and "ToLower ruleStorage \<in> {[], ''mem'', ''memory''}"
    and "distinct (map listKey ls)" "distinct (map CanonicalName ls)" "l \<in> set ls"
    and "\<forall>k \<in> set ls. \<forall>r \<in> set (fileRules fs path k). safeRule k r"
    and "\<forall>r \<in> set (fileRules fs' path l). safeRule l r"
    and "\<forall>k \<in> set ls. k \<noteq> l \<longrightarrow> fs' (path k) = fs (path k)"
    and "CreateStore E fs path ruleStorage (map Some ls) = Ret (st, counts)"
  shows "\<exists>st'. fileChanged E fs' path st l = Ret (st', length (fileRules fs' path l)) \<and>
    (\<forall>req domain. decision (FindMatch E st' req domain) = filesMatch (slRule E) EqualFold fs' path ls req domain)"
  by (rule memStack.reload_restart) (use assms in \<open>auto simp: backingStore_def newMemory_def Let_def\<close>)

theorem memory_reload_restart_witness:
  "\<exists>st counts. CreateStore demoEnv demoFiles lsSource ''memory'' (map Some [demoBlock, demoAllow]) = Ret (st, counts) \<and>
   (\<exists>st'. fileChanged demoEnv demoFiles2 lsSource st demoBlock = Ret (st', 1) \<and>
     decision (FindMatch demoEnv st' [demoBlock, demoAllow] ''x.ads.com'') = (MatchNone, None) \<and>
     decision (FindMatch demoEnv st' [demoBlock, demoAllow] ''x.other.com'') = (MatchBlock, Some demoBlock))"
proof -
  have "\<exists>st counts. CreateStore demoEnv demoFiles lsSource ''memory'' (map Some [demoBlock, demoAllow]) = Ret (st, counts)"
    using memStack.create_exact [of "''memory''" demoEnv "[demoBlock, demoAllow]" demoFiles lsSource] demoLib_compareFold
    by (auto simp: backingStore_def newMemory_def ToLower_def ToLowerC_def demoFiles_rules safeRule_def)
  then obtain st counts where st: "CreateStore demoEnv demoFiles lsSource ''memory'' (map Some [demoBlock, demoAllow]) = Ret (st, counts)"
    by blast
  have "filesMatch demoLib EqualFold demoFiles2 lsSource [demoBlock, demoAllow] [demoBlock, demoAllow] ''x.ads.com'' = (MatchNone, None)"
    "filesMatch demoLib EqualFold demoFiles2 lsSource [demoBlock, demoAllow] [demoBlock, demoAllow] ''x.other.com'' = (MatchBlock, Some demoBlock)"
    "ToLower ''memory'' = ''memory''"
    by code_simp+
  with memory_reload_restart [OF _ _ _ _ _ _ _ _ st, of demoBlock demoFiles2] st show ?thesis
    using demoLib_compareFold demoFiles2_good
    by (auto simp: demoFiles_rules safeRule_def listKey_def)
qed

text \<open>
  The rule store over the 64 bit hash backend answers as the files call for, with equality of the
  hashes of the lower case texts in place of equality up to case: it can differ from the exact store
  only where two different names collide.
\<close>

theorem hash_store_exact:
  assumes "ToLower ruleStorage \<in> {''hash'', ''hash64''}"
    and "\<forall>l \<in> set ls. \<forall>r \<in> set (fileRules fs path l). safeRule l r"
  shows "\<exists>st. CreateStore E fs path ruleStorage (map Some ls) = Ret (st, map (\<lambda>l. length (fileRules fs path l)) ls) \<and>
    (\<forall>req domain. decision (FindMatch E st req domain) =
       filesMatch (slRule E) (hsSame (StringSum64 (slRule E))) fs path ls req domain)"
  by (rule hash64Stack.create_exact) (use assms in \<open>auto simp: backingStore_def newHash_def Let_def\<close>)

theorem hash_store_exact_witness:
  "\<exists>st. CreateStore demoEnv demoFiles lsSource ''hash'' (map Some [demoBlock, demoAllow]) = Ret (st, [2, 1]) \<and>
     decision (FindMatch demoEnv st [demoBlock, demoAllow] ''x.ADS.com'') = (MatchBlock, Some demoBlock)"
proof -
  have "filesMatch demoLib (hsSame (StringSum64 demoLib)) demoFiles lsSource [demoBlock, demoAllow] [demoBlock, demoAllow] ''x.ADS.com'' =
      (MatchBlock, Some demoBlock)" "ToLower ''hash'' = ''hash''"
    by code_simp+
  then show ?thesis
    using hash_store_exact [of "''hash''" "[demoBlock, demoAllow]" demoFiles lsSource demoEnv]
    by (auto simp: demoFiles_rules safeRule_def)
qed

text \<open>C4. The same for the 32 bit hash backend.\<close>

theorem hash32_store_exact:
  assumes "ToLower ruleStorage = ''hash32''"
    and "\<forall>l \<in> set ls. \<forall>r \<in> set (fileRules fs path l). safeRule l r"
  shows "\<exists>st. CreateStore E fs path ruleStorage (map Some ls) = Ret (st, map (\<lambda>l. length (fileRules fs path l)) ls) \<and>
    (\<forall>req domain. decision (FindMatch E st req domain) =
       filesMatch (slRule E) (hsSame (StringSum32 (slRule E))) fs path ls req domain)"
  by (rule hash32Stack.create_exact) (use assms in \<open>auto simp: backingStore_def newHash32_def Let_def\<close>)

theorem hash32_store_exact_witness:
  "\<exists>st. CreateStore demoEnv demoFiles lsSource ''Hash32'' (map Some [demoBlock, demoAllow]) = Ret (st, [2, 1]) \<and>
     decision (FindMatch demoEnv st [demoBlock, demoAllow] ''x.ADS.com'') = (MatchBlock, Some demoBlock)"
proof -
  have "filesMatch demoLib (hsSame (StringSum32 demoLib)) demoFiles lsSource [demoBlock, demoAllow] [demoBlock, demoAllow] ''x.ADS.com'' =
      (MatchBlock, Some demoBlock)" "ToLower ''Hash32'' = ''hash32''"
    by code_simp+
  then show ?thesis
    using hash32_store_exact [of "''Hash32''" "[demoBlock, demoAllow]" demoFiles lsSource demoEnv]
    by (auto simp: demoFiles_rules safeRule_def)
qed

text \<open>
  C11. In the store \<open>hash+sqlite\<close> the hashes are a filter that changes no decision: after any sequence
  of loads the store decides by exact equality of rules and domains, whatever hashes collide.
\<close>

theorem hash_sqlite_transparent:
  assumes "sqllib_ok (slSql E)" "set (slOrd E) = UNIV" "distinct (map ShortName ls)" "\<forall>l \<in> set ls. ShortName l \<noteq> []"
    and "fst ` set xs \<subseteq> set ls" "\<forall>(l, r) \<in> set xs. r \<noteq> []"
  shows "\<exists>st. loadSeq E (Init E (newHash (Some newSql)) ls) xs = Ret st \<and>
    (\<forall>req domain. decision (FindMatch E (Finalize E st ls) req domain) =
       specMatchBy (seqBase xs) (\<lambda>l. \<exists>d \<in> set (DomainList domain). (l, d) \<in> set xs) req)"
proof -
  obtain h q where i: "Init E (newHash (Some newSql)) ls = HashStore h (Some (SqlStore q))" "digestInv (slRule E) ls [] h q"
    using digestInv_init [OF assms(3)] by blast
  obtain h' q' where c: "loadSeq E (HashStore h (Some (SqlStore q))) xs = Ret (HashStore h' (Some (SqlStore q')))"
    "digestInv (slRule E) ls xs h' q'"
    using digestInv_loadSeq [OF assms(1) i(2) assms(4,5)] by auto
  have f: "digestInv (slRule E) ls xs h' (sqlFinalize q')" "\<not> sqlTx (sqlFinalize q')"
    using c(2) by (auto simp: digestInv_def sqlFinalize_def sqlWf_def sqlHit_iff)
  show ?thesis
    using i(1) c(1) hash_sqlite_find [OF assms(1,2) f assms(3,5,6)] by auto
qed

theorem hash_sqlite_transparent_witness:
  "sqllib_ok (slSql demoEnv) \<and> set (slOrd demoEnv) = UNIV \<and>
   (\<exists>st. loadSeq demoEnv (Init demoEnv (newHash (Some newSql)) [demoBlock, demoAllow])
      [(demoBlock, ''ads.com''), (demoAllow, ''ok.ads.com'')] = Ret st \<and>
     decision (FindMatch demoEnv (Finalize demoEnv st [demoBlock, demoAllow]) [demoBlock, demoAllow] ''x.ads.com'') =
       (MatchBlock, Some demoBlock))"
proof -
  let ?ls = "[demoBlock, demoAllow]" and ?xs = "[(demoBlock, ''ads.com''), (demoAllow, ''ok.ads.com'')]"
  have spec: "specMatchBy (seqBase ?xs) (\<lambda>l. \<exists>d \<in> set (DomainList ''x.ads.com''). (l, d) \<in> set ?xs) ?ls = (MatchBlock, Some demoBlock)"
    by code_simp
  have hyps: "sqllib_ok (slSql demoEnv)" "set (slOrd demoEnv) = UNIV" "distinct (map ShortName ?ls)"
    "\<forall>l \<in> set ?ls. ShortName l \<noteq> []" "fst ` set ?xs \<subseteq> set ?ls" "\<forall>(l, r) \<in> set ?xs. r \<noteq> []"
    using demoSql_ok all_types by simp_all
  obtain st where "loadSeq demoEnv (Init demoEnv (newHash (Some newSql)) ?ls) ?xs = Ret st"
    "decision (FindMatch demoEnv (Finalize demoEnv st ?ls) ?ls ''x.ads.com'') =
       specMatchBy (seqBase ?xs) (\<lambda>l. \<exists>d \<in> set (DomainList ''x.ads.com''). (l, d) \<in> set ?xs) ?ls"
    using hash_sqlite_transparent [OF hyps] by blast
  then show ?thesis
    using hyps(1,2) unfolding spec by blast
qed



text \<open>
  A Bloom store without a backing store misses nothing: after any sequence of loads, a domain that
  equals a loaded rule, or has a parent domain that does, is matched when the list of the rule is
  requested.
\<close>

theorem bloom_store_no_miss:
  assumes "bloom_ok (slRule E)" "fst ` set xs \<subseteq> set ls"
  shows "\<exists>b. loadSeq E (Init E (newBloom None) ls) xs = Ret (BloomStore b None) \<and>
    (\<forall>req domain v t l d. v \<in> set req \<and> baseLookup (seqBase xs) t (ShortName v) = Some l \<and>
       (l, d) \<in> set xs \<and> d \<in> set (DomainList domain) \<longrightarrow>
       fst (FindMatch E (BloomStore b None) req domain) \<noteq> MatchNone)"
  using bloom_loadSeq_find [OF assms] .

theorem bloom_store_no_miss_witness:
  "bloom_ok (slRule demoEnv) \<and>
   (\<exists>b. loadSeq demoEnv (Init demoEnv (newBloom None) [demoBlock]) [(demoBlock, ''ads.com'')] = Ret (BloomStore b None) \<and>
     fst (FindMatch demoEnv (BloomStore b None) [demoBlock] ''x.ads.com'') \<noteq> MatchNone)"
proof -
  have ok: "bloom_ok (slRule demoEnv)" "fst ` set [(demoBlock, ''ads.com'')] \<subseteq> set [demoBlock]"
    by (simp_all add: bloom_ok_def demoLib_def)
  have l: "baseLookup (seqBase [(demoBlock, ''ads.com'')]) BLOCK (ShortName demoBlock) = Some demoBlock"
    by (simp add: seqBase_def)
  have d: "''ads.com'' \<in> set (DomainList ''x.ads.com'')"
    by code_simp
  show ?thesis
    using bloom_store_no_miss [OF ok] ok(1) l d by (metis list.set_intros(1))
qed


text \<open>
  A complex rule of a block list wins over a simple rule of an allow list: the complex rules of
  all lists are decided before the backing store is asked.
\<close>

theorem complex_block_beats_simple_allow:
  "bind_run (CreateStore demoEnv [''ads.list'' \<mapsto> ''*.click.net'', ''good.list'' \<mapsto> ''ok.click.net''] lsSource ''memory''
       [Some demoBlock, Some demoAllow])
     (\<lambda>(st, n). Ret (decision (FindMatch demoEnv st [demoBlock, demoAllow] ''ok.click.net''))) =
   Ret (MatchBlock, Some demoBlock)"
  by code_simp

text \<open>C11. A list that has the line \<open>/\<close> stops the program: the empty regular expression is sliced out of range.\<close>

theorem lone_slash_panics:
  "lsRegex l \<noteq> Some True \<Longrightarrow> Load E (ComplexStore c d) l ''/'' = Panic"
  by (cases d) (auto simp: takesRule_def IsComplex_def complexLoad_def compileRule_def createComplexRule_def
      createRegexMatchRule_def HasPrefix_def HasSuffix_def)

theorem lone_slash_panics_witness:
  "lsRegex demoBlock \<noteq> Some True \<and> Load demoEnv (newComplex None) demoBlock ''/'' = Panic"
  unfolding newComplex_def by (intro conjI lone_slash_panics) simp_all

end
