(* ===== verification/Dns.thy ===== *)
theory Dns
  imports Util
begin

text \<open>
  The DNS messages the program passes around and \<^verbatim>\<open>src/util/dns.go\<close>.

  \<open>dns.Msg\<close>, \<open>dns.Question\<close>, \<open>dns.RR_Header\<close> and the record types are data of the third-party package
  miekg/dns; the records here have the fields the program reads or writes. A section of a message
  holds records that are not nil. The functions of that package that the program calls are the
  fields of \<open>dnslib\<close>, a parameter of every definition that uses them: \<open>Fqdn\<close> (\<open>dns.Fqdn\<close>), \<open>SetReply\<close>
  (\<open>(*Msg).SetReply\<close>, receiver first), the string forms of a record and of a header, the table
  \<open>dns.TypeToString\<close> and the \<open>String\<close> methods of \<open>dns.Type\<close> and \<open>dns.Class\<close>.
\<close>

section \<open>Messages\<close>

record Question =
  Qname :: string
  Qtype :: "16 word"
  Qclass :: "16 word"

record RR_Header =
  HName :: string
  Rrtype :: "16 word"
  HClass :: "16 word"
  Ttl :: "32 word"

datatype RR =
    RR_A RR_Header "ip option"
  | RR_AAAA RR_Header "ip option"
  | RR_PTR RR_Header string
  | RR_TXT RR_Header "string list"
  | RR_CNAME RR_Header string
  | RR_SOA RR_Header string
  | RR_Other RR_Header string

primrec Header :: "RR \<Rightarrow> RR_Header" where
  "Header (RR_A h _) = h"
| "Header (RR_AAAA h _) = h"
| "Header (RR_PTR h _) = h"
| "Header (RR_TXT h _) = h"
| "Header (RR_CNAME h _) = h"
| "Header (RR_SOA h _) = h"
| "Header (RR_Other h _) = h"

primrec mapHeader :: "(RR_Header \<Rightarrow> RR_Header) \<Rightarrow> RR \<Rightarrow> RR" where
  "mapHeader f (RR_A h a) = RR_A (f h) a"
| "mapHeader f (RR_AAAA h a) = RR_AAAA (f h) a"
| "mapHeader f (RR_PTR h a) = RR_PTR (f h) a"
| "mapHeader f (RR_TXT h a) = RR_TXT (f h) a"
| "mapHeader f (RR_CNAME h a) = RR_CNAME (f h) a"
| "mapHeader f (RR_SOA h a) = RR_SOA (f h) a"
| "mapHeader f (RR_Other h a) = RR_Other (f h) a"

definition setName :: "string \<Rightarrow> RR \<Rightarrow> RR" where
  "setName n = mapHeader (\<lambda>h. h\<lparr>HName := n\<rparr>)"

record Msg =
  msgId :: "16 word"
  msgResponse :: bool
  msgOpcode :: int
  msgAuthoritative :: bool
  msgTruncated :: bool
  msgRecursionDesired :: bool
  msgAuthenticatedData :: bool
  msgCheckingDisabled :: bool
  msgRcode :: int
  msgQuestion :: "Question list"
  msgAnswer :: "RR list"
  msgNs :: "RR list"
  msgExtra :: "RR list"

text \<open>\<open>new(dns.Msg)\<close>\<close>

definition newMsg :: Msg where
  "newMsg = \<lparr>msgId = 0, msgResponse = False, msgOpcode = 0, msgAuthoritative = False,
     msgTruncated = False, msgRecursionDesired = False, msgAuthenticatedData = False,
     msgCheckingDisabled = False, msgRcode = 0, msgQuestion = [], msgAnswer = [], msgNs = [], msgExtra = []\<rparr>"

text \<open>The numbers of the DNS protocol the program names.\<close>

abbreviation TypeNone :: "16 word" where "TypeNone \<equiv> 0"
abbreviation TypeA :: "16 word" where "TypeA \<equiv> 1"
abbreviation TypeCNAME :: "16 word" where "TypeCNAME \<equiv> 5"
abbreviation TypeNULL :: "16 word" where "TypeNULL \<equiv> 10"
abbreviation TypePTR :: "16 word" where "TypePTR \<equiv> 12"
abbreviation TypeTXT :: "16 word" where "TypeTXT \<equiv> 16"
abbreviation TypeAAAA :: "16 word" where "TypeAAAA \<equiv> 28"
abbreviation TypeOPT :: "16 word" where "TypeOPT \<equiv> 41"
abbreviation TypeIXFR :: "16 word" where "TypeIXFR \<equiv> 251"
abbreviation TypeAXFR :: "16 word" where "TypeAXFR \<equiv> 252"
abbreviation TypeANY :: "16 word" where "TypeANY \<equiv> 255"
abbreviation ClassINET :: "16 word" where "ClassINET \<equiv> 1"
abbreviation ClassANY :: "16 word" where "ClassANY \<equiv> 255"
abbreviation RcodeSuccess :: int where "RcodeSuccess \<equiv> 0"
abbreviation RcodeServerFailure :: int where "RcodeServerFailure \<equiv> 2"
abbreviation RcodeNameError :: int where "RcodeNameError \<equiv> 3"
abbreviation RcodeNotImplemented :: int where "RcodeNotImplemented \<equiv> 4"
abbreviation RcodeRefused :: int where "RcodeRefused \<equiv> 5"
abbreviation RcodeBadName :: int where "RcodeBadName \<equiv> 20"

record dnslib =
  Fqdn :: "string \<Rightarrow> string"
  SetReply :: "Msg \<Rightarrow> Msg \<Rightarrow> Msg"
  rrString :: "RR \<Rightarrow> string"
  hdrString :: "RR_Header \<Rightarrow> string"
  TypeToString :: "16 word \<Rightarrow> string"
  TypeString :: "16 word \<Rightarrow> string"
  ClassString :: "16 word \<Rightarrow> string"

text \<open>
  What the program relies on of \<open>SetReply\<close> and \<open>Fqdn\<close>: a reply keeps the record sections of the
  message it is made from, carries the id and the first question of the request and the response
  code \<open>NOERROR\<close>; \<open>Fqdn\<close> ends its result in a dot and leaves a name that ends in one alone.
\<close>

definition SetReply_ok :: "dnslib \<Rightarrow> bool" where
  "SetReply_ok D \<longleftrightarrow> (\<forall>m r.
     msgAnswer (SetReply D m r) = msgAnswer m \<and>
     msgNs (SetReply D m r) = msgNs m \<and>
     msgExtra (SetReply D m r) = msgExtra m \<and>
     msgTruncated (SetReply D m r) = msgTruncated m \<and>
     msgId (SetReply D m r) = msgId r \<and>
     msgRcode (SetReply D m r) = RcodeSuccess \<and>
     msgQuestion (SetReply D m r) = (if msgQuestion r = [] then msgQuestion m else [hd (msgQuestion r)]))"

definition Fqdn_ok :: "dnslib \<Rightarrow> bool" where
  "Fqdn_ok D \<longleftrightarrow> (\<forall>s. HasSuffix (Fqdn D s) ''.'' \<and> (HasSuffix s ''.'' \<longrightarrow> Fqdn D s = s)
     \<and> (\<not> HasSuffix s ''.'' \<longrightarrow> Fqdn D s = s @ ''.''))"

section \<open>util/dns.go\<close>

primrec IsRecordEmpty :: "dnslib \<Rightarrow> RR \<Rightarrow> bool" where
  "IsRecordEmpty D (RR_A h a) = (a = None)"
| "IsRecordEmpty D (RR_AAAA h a) = (a = None)"
| "IsRecordEmpty D (RR_PTR h p) = (p = [])"
| "IsRecordEmpty D (RR_TXT h t) = (length t = 0)"
| "IsRecordEmpty D (RR_CNAME h t) = (t = [])"
| "IsRecordEmpty D (RR_SOA h n) = (n = [])"
| "IsRecordEmpty D (RR_Other h t) = (length (hdrString D h) \<ge> length (rrString D (RR_Other h t)))"

definition hasContent :: "dnslib \<Rightarrow> RR \<Rightarrow> bool" where
  "hasContent D rr = (Rrtype (Header rr) \<noteq> TypeNone \<and> \<not> IsRecordEmpty D rr)"

fun partsEmpty :: "dnslib \<Rightarrow> RR list list \<Rightarrow> bool" where
  "partsEmpty D [] = True"
| "partsEmpty D (parts # rest) =
     (if length parts > 0 then \<not> list_ex (hasContent D) parts else partsEmpty D rest)"

definition IsEmptyResponse :: "dnslib \<Rightarrow> Msg option \<Rightarrow> bool" where
  "IsEmptyResponse D response = (case response of
       None \<Rightarrow> True
     | Some r \<Rightarrow>
         if msgRcode r = RcodeNameError then True
         else if length (msgAnswer r) < 1 \<and> length (msgNs r) < 1 \<and> length (msgExtra r) < 1 then True
         else partsEmpty D [msgAnswer r, msgNs r, msgExtra r])"

fun firstIP :: "RR list \<Rightarrow> string" where
  "firstIP [] = []"
| "firstIP (RR_A h (Some a) # rest) = IP_String a"
| "firstIP (RR_AAAA h (Some a) # rest) = IP_String a"
| "firstIP (rr # rest) = firstIP rest"

definition GetFirstIPResponse :: "dnslib \<Rightarrow> Msg option \<Rightarrow> string" where
  "GetFirstIPResponse D response =
     (if IsEmptyResponse D response then []
      else case response of None \<Rightarrow> [] | Some r \<Rightarrow> firstIP (msgAnswer r))"

primrec GetRecordValue :: "dnslib \<Rightarrow> RR \<Rightarrow> string" where
  "GetRecordValue D (RR_A h a) = (case a of None \<Rightarrow> [] | Some b \<Rightarrow> IP_String b)"
| "GetRecordValue D (RR_AAAA h a) = (case a of None \<Rightarrow> [] | Some b \<Rightarrow> IP_String b)"
| "GetRecordValue D (RR_PTR h p) = p"
| "GetRecordValue D (RR_TXT h t) = Join t '' ''"
| "GetRecordValue D (RR_CNAME h t) = TypeToString D (Rrtype h) @ ''= '' @ rrString D (RR_CNAME h t)"
| "GetRecordValue D (RR_SOA h t) = TypeToString D (Rrtype h) @ ''= '' @ rrString D (RR_SOA h t)"
| "GetRecordValue D (RR_Other h t) = TypeToString D (Rrtype h) @ ''= '' @ rrString D (RR_Other h t)"

definition GetAnswerValues :: "dnslib \<Rightarrow> Msg option \<Rightarrow> string list" where
  "GetAnswerValues D response = (case response of
       None \<Rightarrow> []
     | Some r \<Rightarrow> if length (msgAnswer r) < 1 then []
               else filter (\<lambda>v. v \<noteq> []) (map (GetRecordValue D) (msgAnswer r)))"

section \<open>Facts about messages\<close>

lemma Header_mapHeader [simp]: "Header (mapHeader f rr) = f (Header rr)"
  by (cases rr) auto

lemma HName_setName [simp]: "HName (Header (setName n rr)) = n"
  by (simp add: setName_def)

lemma Rrtype_setName [simp]: "Rrtype (Header (setName n rr)) = Rrtype (Header rr)"
  by (simp add: setName_def)

lemma SetReply_okD:
  assumes "SetReply_ok D"
  shows "msgAnswer (SetReply D m r) = msgAnswer m" "msgNs (SetReply D m r) = msgNs m"
    "msgExtra (SetReply D m r) = msgExtra m" "msgId (SetReply D m r) = msgId r"
    "msgTruncated (SetReply D m r) = msgTruncated m"
    "msgRcode (SetReply D m r) = RcodeSuccess"
    "msgQuestion r \<noteq> [] \<Longrightarrow> msgQuestion (SetReply D m r) = [hd (msgQuestion r)]"
  using assms by (simp_all add: SetReply_ok_def)

lemma IsEmptyResponse_None [simp]: "IsEmptyResponse D None"
  by (simp add: IsEmptyResponse_def)

lemma IsEmptyResponse_NXDOMAIN: "msgRcode m = RcodeNameError \<Longrightarrow> IsEmptyResponse D (Some m)"
  by (simp add: IsEmptyResponse_def)

lemma not_IsEmptyResponse_Some: "\<not> IsEmptyResponse D r \<Longrightarrow> \<exists>m. r = Some m"
  by (cases r) auto

text \<open>Only the first section that holds records decides whether a response is empty.\<close>

lemma not_IsEmptyResponse_iff:
  "\<not> IsEmptyResponse D (Some m) \<longleftrightarrow>
     msgRcode m \<noteq> RcodeNameError \<and>
     (\<exists>rr \<in> set (if msgAnswer m \<noteq> [] then msgAnswer m
                  else if msgNs m \<noteq> [] then msgNs m else msgExtra m). hasContent D rr)"
  by (auto simp: IsEmptyResponse_def list_ex_iff)

end
