(* ===== verification/Cache.thy ===== *)
theory Cache
  imports Dns "HOL-Library.AList"
begin

text \<open>
  \<^verbatim>\<open>src/cache/cache.go\<close>: responses by partition and question, for as long as their smallest time to live.

  The items of a partition are kept by patrickmn/go-cache, a package outside the repository: \<open>backer\<close>
  holds its operations, on an item store of some type, and \<open>backer_ok\<close> what its documentation says of
  them. The cache keeps the pointer to a response, so messages live in a heap (a list, a pointer
  being a position) and \<open>Query\<close> allocates the copy it returns. Times and durations are nanoseconds;
  \<open>now\<close> is the reading of the clock in the call (the two readings of \<open>Query\<close>, its own and the one
  inside the item store, are one instant).
\<close>

section \<open>The heap of messages\<close>

type_synonym msgHeap = "Msg list"

definition allocMsg :: "Msg \<Rightarrow> msgHeap \<Rightarrow> ptr \<times> msgHeap" where
  "allocMsg m h = (length h, h @ [m])"

definition deref :: "msgHeap \<Rightarrow> ptr option \<Rightarrow> Msg option" where
  "deref h p = (case p of None \<Rightarrow> None | Some i \<Rightarrow> if i < length h then Some (h ! i) else None)"

section \<open>cache.go\<close>

record envelope =
  envMessage :: ptr
  envTime :: int

record 'b backer =
  bkNew :: 'b
  bkSet :: "string \<Rightarrow> envelope \<Rightarrow> int \<Rightarrow> int \<Rightarrow> 'b \<Rightarrow> 'b"
  bkGet :: "string \<Rightarrow> int \<Rightarrow> 'b \<Rightarrow> envelope option"
  bkItemCount :: "'b \<Rightarrow> nat"
  bkFlush :: "'b \<Rightarrow> 'b"

record 'b gocache =
  backers :: "(string \<times> 'b) list"

abbreviation dnsMaxTTL :: "32 word" where "dnsMaxTTL \<equiv> 604800"
abbreviation secondNs :: int where "secondNs \<equiv> 1000000000"

definition minU32 :: "32 word \<Rightarrow> 32 word \<Rightarrow> 32 word" where
  "minU32 a b = (if a \<le> b then a else b)"

definition newCache :: "'b gocache" where
  "newCache = \<lparr>backers = []\<rparr>"

fun minTTL :: "32 word \<Rightarrow> RR list \<Rightarrow> 32 word" where
  "minTTL currentMin [] = currentMin"
| "minTTL currentMin (value # records) = minTTL (minU32 currentMin (Ttl (Header value))) records"

definition keyPattern :: "dnslib \<Rightarrow> Question \<Rightarrow> string" where
  "keyPattern D q = Qname q @ ''|'' @ ClassString D (Qclass q) @ ''|'' @ TypeString D (Qtype q)"

definition cacheKey :: "dnslib \<Rightarrow> Question list \<Rightarrow> string" where
  "cacheKey D questions =
     (if length questions > 0 then
        (if length questions = 1 then ToLower (keyPattern D (hd questions))
         else ToLower (Join (map (keyPattern D) questions) ''|''))
      else [])"

text \<open>The partitions are a Go map; the model keeps them in the order they were made.\<close>

definition getBacker :: "'b gocache \<Rightarrow> string \<Rightarrow> 'b option" where
  "getBacker c part = map_of (backers c) part"

definition putBacker :: "'b gocache \<Rightarrow> string \<Rightarrow> 'b \<Rightarrow> 'b gocache" where
  "putBacker c part b = c\<lparr>backers := AList.update part b (backers c)\<rparr>"

definition ensurePartition :: "'b backer \<Rightarrow> 'b gocache \<Rightarrow> string \<Rightarrow> 'b gocache" where
  "ensurePartition B c part = (if getBacker c part = None then putBacker c part (bkNew B) else c)"

definition responseTTL :: "Msg \<Rightarrow> 32 word" where
  "responseTTL response =
     (if length (msgAnswer response) < 1 then
        (if length (msgNs response) < 1 then minTTL dnsMaxTTL (msgExtra response)
         else minTTL dnsMaxTTL (msgNs response))
      else minTTL dnsMaxTTL (msgAnswer response))"

definition cachePut :: "'b backer \<Rightarrow> 'b gocache \<Rightarrow> string \<Rightarrow> string \<Rightarrow> envelope \<Rightarrow> int \<Rightarrow> int \<Rightarrow> 'b gocache" where
  "cachePut B c part key env dur now =
     (let c1 = ensurePartition B c part in
      case getBacker c1 part of
        None \<Rightarrow> c1
      | Some b \<Rightarrow> putBacker c1 part (bkSet B key env dur now b))"

definition cacheStore :: "dnslib \<Rightarrow> 'b backer \<Rightarrow> int \<Rightarrow> msgHeap \<Rightarrow> 'b gocache \<Rightarrow> string \<Rightarrow> Msg \<Rightarrow> ptr option \<Rightarrow> 'b gocache \<times> bool" where
  "cacheStore D B now h c part request responseP =
     (case deref h responseP of
        None \<Rightarrow> (c, False)
      | Some response \<Rightarrow>
          if IsEmptyResponse D (Some response) \<or> msgTruncated response then (c, False)
          else let ttl = responseTTL response in
            if ttl > 0 then
              let key = cacheKey D (msgQuestion request) in
              if key = [] then (c, False)
              else
                (cachePut B c part key \<lparr>envMessage = the responseP, envTime = now\<rparr> (int (unat ttl) * secondNs) now, True)
            else (c, False))"

definition adjustTtl :: "32 word \<Rightarrow> RR \<Rightarrow> RR" where
  "adjustTtl timeDelta = mapHeader (\<lambda>h. h\<lparr>Ttl := (if Ttl h > timeDelta then Ttl h - timeDelta else 0)\<rparr>)"

definition adjustTtls :: "32 word \<Rightarrow> RR list \<Rightarrow> RR list" where
  "adjustTtls timeDelta records = map (adjustTtl timeDelta) records"

text \<open>\<open>uint32(delta / time.Second)\<close>: Go's division truncates, the conversion keeps 32 bits.\<close>

definition secondDelta :: "int \<Rightarrow> 32 word" where
  "secondDelta delta = word_of_int (if delta < 0 then - ((- delta) div secondNs) else delta div secondNs)"

definition cachedCopy :: "int \<Rightarrow> Msg \<Rightarrow> Msg \<Rightarrow> Msg" where
  "cachedCopy delta request m =
     m\<lparr>msgId := msgId request,
       msgAnswer := adjustTtls (secondDelta delta) (msgAnswer m),
       msgNs := adjustTtls (secondDelta delta) (msgNs m),
       msgExtra := adjustTtls (secondDelta delta) (msgExtra m)\<rparr>"

definition cacheQuery :: "dnslib \<Rightarrow> 'b backer \<Rightarrow> int \<Rightarrow> msgHeap \<Rightarrow> 'b gocache \<Rightarrow> string \<Rightarrow> Msg \<Rightarrow> ptr option \<times> msgHeap" where
  "cacheQuery D B now h c part request =
     (let key = cacheKey D (msgQuestion request) in
      if key = [] then (None, h)
      else case getBacker c part of
          None \<Rightarrow> (None, h)
        | Some b \<Rightarrow> (case bkGet B key now b of
            None \<Rightarrow> (None, h)
          | Some env \<Rightarrow> (case deref h (Some (envMessage env)) of
              None \<Rightarrow> (None, h)
            | Some m \<Rightarrow>
                if IsEmptyResponse D (Some m) then (None, h)
                else let (p, h') = allocMsg (cachedCopy (now - envTime env) request m) h in (Some p, h'))))"

definition cacheSize :: "'b backer \<Rightarrow> 'b gocache \<Rightarrow> 32 word" where
  "cacheSize B c = foldl (\<lambda>count (p, b). count + word_of_nat (bkItemCount B b)) 0 (backers c)"

definition cacheClear :: "'b backer \<Rightarrow> 'b gocache \<Rightarrow> 'b gocache" where
  "cacheClear B c = c\<lparr>backers := map (\<lambda>(p, b). (p, bkFlush B b)) (backers c)\<rparr>"

section \<open>Time to live\<close>

lemma minTTL_le: "minTTL m rs \<le> m"
proof (induction rs arbitrary: m)
  case (Cons r rs)
  have "minTTL (minU32 m (Ttl (Header r))) rs \<le> minU32 m (Ttl (Header r))"
    by (rule Cons)
  also have "\<dots> \<le> m"
    by (auto simp: minU32_def)
  finally show ?case by simp
qed simp

lemma minTTL_le_record: "r \<in> set rs \<Longrightarrow> minTTL m rs \<le> Ttl (Header r)"
proof (induction rs arbitrary: m)
  case (Cons x rs)
  have "minTTL (minU32 m (Ttl (Header x))) rs \<le> minU32 m (Ttl (Header x))"
    by (rule minTTL_le)
  also have "\<dots> \<le> Ttl (Header x)"
    by (simp add: minU32_def)
  finally show ?case
    using Cons by auto
qed simp

lemma minTTL_witness: "minTTL m rs = m \<or> (\<exists>r \<in> set rs. minTTL m rs = Ttl (Header r))"
proof (induction rs arbitrary: m)
  case (Cons r rs)
  then show ?case
    using Cons [of "minU32 m (Ttl (Header r))"] by (auto simp: minU32_def split: if_splits)
qed simp

lemma responseTTL_le: "responseTTL m \<le> dnsMaxTTL"
  by (simp add: responseTTL_def minTTL_le)

lemma adjustTtl_unat:
  "unat (Ttl (Header (adjustTtl d rr))) = unat (Ttl (Header rr)) - unat d"
proof -
  have "unat (t - d) = unat t - unat d" if "d < t" for t
    using that by (simp add: unat_sub order_less_imp_le)
  moreover have "unat t \<le> unat d" if "\<not> d < t" for t
    using that by (simp add: not_less word_le_nat_alt)
  ultimately show ?thesis
    by (simp add: adjustTtl_def)
qed

lemma secondDelta_unat:
  assumes "0 \<le> delta" "delta < 2 ^ 32 * secondNs"
  shows "int (unat (secondDelta delta)) = delta div secondNs"
proof -
  have "delta div secondNs < 2 ^ 32"
    using assms by linarith
  then show ?thesis
    using assms by (simp add: secondDelta_def uint_word_of_int take_bit_int_eq_self)
qed

section \<open>The contract of the cache\<close>

text \<open>
  \<open>view c now p k\<close> is the envelope a query of partition \<open>p\<close> for the key \<open>k\<close> finds at time \<open>now\<close>. An entry
  is found from when it is put until its time is over; entries of other keys and partitions are not
  touched; \<open>Clear\<close> removes everything.
\<close>

datatype cacheEvent = Put string string envelope int int | Wipe

locale response_cache =
  fixes inv :: "'c \<Rightarrow> bool"
    and view :: "'c \<Rightarrow> int \<Rightarrow> string \<Rightarrow> string \<Rightarrow> envelope option"
    and put :: "'c \<Rightarrow> string \<Rightarrow> string \<Rightarrow> envelope \<Rightarrow> int \<Rightarrow> int \<Rightarrow> 'c"
    and wipe :: "'c \<Rightarrow> 'c"
  assumes put_inv: "inv c \<Longrightarrow> inv (put c p k e d t)"
    and put_view: "inv c \<Longrightarrow> 0 < d \<Longrightarrow> view (put c p k e d t) now p' k' =
      (if p' = p \<and> k' = k then (if now \<le> t + d then Some e else None) else view c now p' k')"
    and wipe_inv: "inv c \<Longrightarrow> inv (wipe c)"
    and wipe_view: "inv c \<Longrightarrow> view (wipe c) now p k = None"
begin

primrec event :: "cacheEvent \<Rightarrow> 'c \<Rightarrow> 'c" where
  "event (Put p k e d t) c = put c p k e d t"
| "event Wipe c = wipe c"

lemma event_inv: "inv c \<Longrightarrow> inv (event ev c)"
  by (cases ev) (auto simp: put_inv wipe_inv)

text \<open>
  What a query finds was put under the same partition and key, is not over, and nothing put or
  wiped since has replaced it.
\<close>

lemma view_history:
  assumes "inv c" "\<And>now p k. view c now p k = None" "\<forall>p k e d t. Put p k e d t \<in> set evs \<longrightarrow> 0 < d"
    and "view (fold event evs c) now p k = Some e"
  shows "\<exists>pre post d t. evs = pre @ Put p k e d t # post \<and> now \<le> t + d \<and>
    Wipe \<notin> set post \<and> (\<forall>e' d' t'. Put p k e' d' t' \<notin> set post)"
  using assms(3,4)
proof (induction evs rule: rev_induct)
  case Nil
  then show ?case
    using assms(2) by simp
next
  case (snoc ev evs)
  have i: "inv (fold event evs c)"
    using assms(1) by (induction evs arbitrary: c) (auto simp: event_inv)
  show ?case
  proof (cases ev)
    case (Put p' k' e' d' t')
    then have d': "0 < d'"
      using snoc.prems(1) by auto
    show ?thesis
    proof (cases "p' = p \<and> k' = k")
      case True
      then have "e' = e \<and> now \<le> t' + d'"
        using snoc.prems(2) put_view [OF i d'] by (auto simp: Put split: if_splits)
      then show ?thesis
        using True Put by (intro exI [of _ evs] exI [of _ "[]"]) auto
    next
      case False
      then have "view (fold event evs c) now p k = Some e"
        using snoc.prems(2) put_view [OF i d'] by (auto simp: Put split: if_splits)
      moreover have "\<forall>p k e d t. Put p k e d t \<in> set evs \<longrightarrow> 0 < d"
        using snoc.prems(1) unfolding set_append by blast
      ultimately obtain pre post d t where "evs = pre @ Put p k e d t # post" "now \<le> t + d"
        "Wipe \<notin> set post" "\<forall>e' d' t'. Put p k e' d' t' \<notin> set post"
        using snoc.IH by blast
      then show ?thesis
        using False Put by (intro exI [of _ pre] exI [of _ "post @ [ev]"]) auto
    qed
  next
    case Wipe
    then show ?thesis
      using snoc.prems(2) wipe_view [OF i] by simp
  qed
qed

end

text \<open>What the documentation of go-cache says: items with an expiration are returned until it has passed.\<close>

definition backer_ok :: "'b backer \<Rightarrow> bool" where
  "backer_ok B \<longleftrightarrow>
     (\<forall>k now. bkGet B k now (bkNew B) = None) \<and>
     (\<forall>k e d t b now. 0 < d \<longrightarrow> bkGet B k now (bkSet B k e d t b) = (if now \<le> t + d then Some e else None)) \<and>
     (\<forall>k k' e d t b now. k' \<noteq> k \<longrightarrow> bkGet B k' now (bkSet B k e d t b) = bkGet B k' now b) \<and>
     (\<forall>k now b. bkGet B k now (bkFlush B b) = None) \<and>
     (\<forall>b. bkItemCount B (bkFlush B b) = 0)"

definition cacheView :: "'b backer \<Rightarrow> 'b gocache \<Rightarrow> int \<Rightarrow> string \<Rightarrow> string \<Rightarrow> envelope option" where
  "cacheView B c now part key = (case getBacker c part of None \<Rightarrow> None | Some b \<Rightarrow> bkGet B key now b)"

lemma getBacker_put [simp]: "getBacker (putBacker c p b) q = (if q = p then Some b else getBacker c q)"
  by (simp add: getBacker_def putBacker_def update_conv')

lemma getBacker_clear: "getBacker (cacheClear B c) p = map_option (bkFlush B) (getBacker c p)"
proof -
  have "map_of (map (\<lambda>(p, b). (p, bkFlush B b)) xs) p = map_option (bkFlush B) (map_of xs p)" for xs
    by (induction xs) auto
  then show ?thesis
    by (simp add: getBacker_def cacheClear_def)
qed

lemma cachePut_view:
  assumes "backer_ok B" "0 < d"
  shows "cacheView B (cachePut B c p k e d t) now p' k' =
    (if p' = p \<and> k' = k then (if now \<le> t + d then Some e else None) else cacheView B c now p' k')"
  using assms
  by (cases "getBacker c p") (auto simp: cacheView_def cachePut_def ensurePartition_def backer_ok_def Let_def)

lemma cacheClear_view: "backer_ok B \<Longrightarrow> cacheView B (cacheClear B c) now p k = None"
  by (cases "getBacker c p") (auto simp: cacheView_def getBacker_clear backer_ok_def)

interpretation goCache: response_cache "\<lambda>c. backer_ok B" "cacheView B" "cachePut B" "cacheClear B" for B :: "'b backer"
  by unfold_locales (simp_all add: cachePut_view cacheClear_view)

section \<open>Store and Query\<close>

lemma cacheStore_True_iff:
  "snd (cacheStore D B now h c part req rp) \<longleftrightarrow>
     (\<exists>m. deref h rp = Some m \<and> \<not> IsEmptyResponse D (Some m) \<and> \<not> msgTruncated m \<and> responseTTL m > 0 \<and>
        cacheKey D (msgQuestion req) \<noteq> [])"
  by (auto simp: cacheStore_def Let_def split: option.splits)

lemma cacheStore_True:
  assumes "snd (cacheStore D B now h c part req rp)" "deref h rp = Some m"
  shows "fst (cacheStore D B now h c part req rp) =
    cachePut B c part (cacheKey D (msgQuestion req)) \<lparr>envMessage = the rp, envTime = now\<rparr> (int (unat (responseTTL m)) * secondNs) now"
  using assms by (auto simp: cacheStore_def Let_def split: if_splits)

lemma cacheStore_False: "\<not> snd (cacheStore D B now h c part req rp) \<Longrightarrow> fst (cacheStore D B now h c part req rp) = c"
  by (auto simp: cacheStore_def Let_def split: option.splits if_splits)

lemma cacheKey_nonempty [simp]: "qs \<noteq> [] \<Longrightarrow> cacheKey D qs \<noteq> []"
  by (cases qs; cases "tl qs") (auto simp: cacheKey_def keyPattern_def)

lemma deref_append: "deref h p = Some m \<Longrightarrow> deref (h @ xs) p = Some m"
  by (auto simp: deref_def nth_append split: option.splits if_splits)

lemma cacheQuery_view:
  "cacheQuery D B now h c part req =
     (if cacheKey D (msgQuestion req) = [] then (None, h)
      else case cacheView B c now part (cacheKey D (msgQuestion req)) of
          None \<Rightarrow> (None, h)
        | Some env \<Rightarrow> (case deref h (Some (envMessage env)) of
            None \<Rightarrow> (None, h)
          | Some m \<Rightarrow> if IsEmptyResponse D (Some m) then (None, h)
                    else (Some (length h), h @ [cachedCopy (now - envTime env) req m])))"
  by (auto simp: cacheQuery_def cacheView_def allocMsg_def Let_def split: option.splits)

lemma ttl_duration_pos: "0 < ttl \<Longrightarrow> 0 < int (unat ttl) * secondNs"
proof -
  assume "0 < ttl"
  then have "0 < unat ttl"
    by (simp add: word_less_nat_alt)
  then show ?thesis by linarith
qed

lemma int_unat_Ttl_adjust:
  assumes "0 \<le> delta" "delta \<le> int (unat ttl) * secondNs" "ttl \<le> Ttl (Header rr)"
  shows "int (unat (Ttl (Header (adjustTtl (secondDelta delta) rr)))) = int (unat (Ttl (Header rr))) - delta div secondNs"
proof -
  have "unat ttl < 4294967296"
    using unsigned_less [of ttl] by simp
  then have "int (unat ttl) < 4294967296"
    by linarith
  then have "delta < 4294967296 * secondNs"
    using assms(2) by linarith
  then have d: "int (unat (secondDelta delta)) = delta div secondNs"
    using assms(1) by (intro secondDelta_unat) simp_all
  have "delta div secondNs \<le> int (unat ttl)"
    using assms(2) zdiv_mono1 [OF assms(2), of secondNs] by simp
  also have "\<dots> \<le> int (unat (Ttl (Header rr)))"
    using assms(3) by (simp add: word_le_def)
  finally show ?thesis
    using d unfolding adjustTtl_unat by linarith
qed

section \<open>A concrete item store\<close>

text \<open>An association list of envelopes with their expirations.\<close>

definition demoBacker :: "(string \<times> envelope \<times> int) list backer" where
  "demoBacker = \<lparr>bkNew = [], bkSet = (\<lambda>k e d t b. (k, e, t + d) # b),
     bkGet = (\<lambda>k now b. case map_of b k of None \<Rightarrow> None | Some (e, x) \<Rightarrow> if now \<le> x then Some e else None),
     bkItemCount = length, bkFlush = (\<lambda>b. [])\<rparr>"

lemma demoBacker_ok: "backer_ok demoBacker"
  by (simp add: backer_ok_def demoBacker_def)

definition demoDns :: dnslib where
  "demoDns = \<lparr>Fqdn = (\<lambda>s. if HasSuffix s ''.'' then s else s @ ''.''),
     SetReply = (\<lambda>m r. m\<lparr>msgId := msgId r, msgResponse := True, msgOpcode := msgOpcode r,
       msgRecursionDesired := msgRecursionDesired r, msgCheckingDisabled := msgCheckingDisabled r, msgRcode := RcodeSuccess,
       msgQuestion := (if msgQuestion r = [] then msgQuestion m else [hd (msgQuestion r)])\<rparr>),
     rrString = (\<lambda>rr. ''record''), hdrString = (\<lambda>h. ''hdr''), TypeToString = (\<lambda>t. if t = TypeCNAME then ''CNAME'' else ''A''),
     TypeString = (\<lambda>t. if t = TypeAAAA then ''AAAA'' else ''A''), ClassString = (\<lambda>c. ''IN'')\<rparr>"

lemma demoDns_ok: "SetReply_ok demoDns" "Fqdn_ok demoDns"
  by (simp_all add: SetReply_ok_def Fqdn_ok_def demoDns_def HasSuffix_snoc)

definition demoQuery :: "string \<Rightarrow> Msg" where
  "demoQuery n = newMsg\<lparr>msgId := 7, msgRecursionDesired := True, msgQuestion := [\<lparr>Qname = n, Qtype = TypeA, Qclass = ClassINET\<rparr>]\<rparr>"

definition demoReply :: "string \<Rightarrow> 32 word \<Rightarrow> Msg" where
  "demoReply n t = newMsg\<lparr>msgId := 3, msgResponse := True,
     msgAnswer := [RR_A \<lparr>HName = n, Rrtype = TypeA, HClass = ClassINET, Ttl = t\<rparr> (Some [10, 0, 0, 1])]\<rparr>"

section \<open>Properties\<close>



text \<open>
  After the smallest time to live has passed the response is gone, and storing a response never
  changes what a query of another partition or for another question finds.
\<close>

theorem cache_expiry_isolation:
  assumes "backer_ok B" "snd (cacheStore D B t h c part req (Some p))" "deref h (Some p) = Some m"
  shows "(now > t + int (unat (responseTTL m)) * secondNs \<and> cacheKey D (msgQuestion req') = cacheKey D (msgQuestion req) \<longrightarrow>
      cacheQuery D B now h' (fst (cacheStore D B t h c part req (Some p))) part req' = (None, h')) \<and>
    (part' \<noteq> part \<or> cacheKey D (msgQuestion req') \<noteq> cacheKey D (msgQuestion req) \<longrightarrow>
      cacheQuery D B now h' (fst (cacheStore D B t h c part req (Some p))) part' req' = cacheQuery D B now h' c part' req')"
proof -
  have "responseTTL m > 0"
    using assms(2,3) by (auto simp: cacheStore_True_iff)
  then have "0 < int (unat (responseTTL m)) * secondNs"
    by (rule ttl_duration_pos)
  then show ?thesis
    using assms(1) by (auto simp: cacheStore_True [OF assms(2,3)] cacheQuery_view cachePut_view)
qed

theorem cache_expiry_isolation_witness:
  "cacheQuery demoDns demoBacker 70000000000 [demoReply ''a.com.'' 60]
      (fst (cacheStore demoDns demoBacker 2000000000 [demoReply ''a.com.'' 60] newCache ''up'' (demoQuery ''a.com.'') (Some 0)))
      ''up'' (demoQuery ''a.com.'') = (None, [demoReply ''a.com.'' 60])"
proof -
  let ?h = "[demoReply ''a.com.'' 60]"
  have "snd (cacheStore demoDns demoBacker 2000000000 ?h newCache ''up'' (demoQuery ''a.com.'') (Some 0))"
    "int (unat (responseTTL (demoReply ''a.com.'' 60))) = 60"
    by code_simp+
  then show ?thesis
    using cache_expiry_isolation [OF demoBacker_ok, of demoDns 2000000000 ?h newCache "''up''" "demoQuery ''a.com.''" 0
        "demoReply ''a.com.'' 60" 70000000000 "demoQuery ''a.com.''" ?h "''up''"]
    by (simp add: deref_def)
qed

text \<open>
  C16. Whatever a history of stores and clears made of a new cache, an entry it still serves was put
  under the same partition and key, has not expired, and was neither replaced nor wiped since.
\<close>

theorem cache_history:
  assumes "backer_ok B" "\<forall>p k e d t. Put p k e d t \<in> set evs \<longrightarrow> 0 < d"
    and "cacheView B (fold (goCache.event B) evs newCache) now p k = Some e"
  shows "\<exists>pre post d t. evs = pre @ Put p k e d t # post \<and> now \<le> t + d \<and>
    Wipe \<notin> set post \<and> (\<forall>e' d' t'. Put p k e' d' t' \<notin> set post)"
  by (rule goCache.view_history) (use assms in \<open>auto simp: cacheView_def getBacker_def newCache_def\<close>)

theorem cache_history_witness:
  "\<exists>pre post d t. [Wipe, Put ''up'' ''k'' \<lparr>envMessage = 0, envTime = 0\<rparr> 5 1] =
     pre @ Put ''up'' ''k'' \<lparr>envMessage = 0, envTime = 0\<rparr> d t # post \<and> 4 \<le> t + d"
proof -
  have "cacheView demoBacker (fold (goCache.event demoBacker) [Wipe, Put ''up'' ''k'' \<lparr>envMessage = 0, envTime = 0\<rparr> 5 1] newCache) 4 ''up'' ''k'' =
    Some \<lparr>envMessage = 0, envTime = 0\<rparr>"
    using demoBacker_ok by (simp add: cachePut_view)
  from cache_history [OF demoBacker_ok _ this] show ?thesis
    by auto
qed

text \<open>C15. After \<open>Clear\<close> no query finds anything, whatever the time, and the size is zero.\<close>

theorem cache_clear_empties:
  assumes "backer_ok B"
  shows "cacheQuery D B now h (cacheClear B c) part req = (None, h) \<and> cacheSize B (cacheClear B c) = 0"
proof -
  have "foldl (\<lambda>count (p, b). count + word_of_nat (bkItemCount B b)) n (map (\<lambda>(p, b). (p, bkFlush B b)) xs) = n" for n :: "32 word" and xs
    using assms by (induction xs arbitrary: n) (auto simp: backer_ok_def)
  then have "cacheSize B (cacheClear B c) = 0"
    by (simp add: cacheSize_def cacheClear_def)
  then show ?thesis
    using assms by (simp add: cacheQuery_view cacheClear_view)
qed

theorem cache_clear_empties_witness:
  "backer_ok demoBacker \<and> cacheSize demoBacker (cacheClear demoBacker (cachePut demoBacker newCache ''up'' ''k'' \<lparr>envMessage = 0, envTime = 0\<rparr> 5 1)) = 0"
  using cache_clear_empties [OF demoBacker_ok] demoBacker_ok by blast

end
