(* ===== verification/Sources.thy ===== *)
theory Sources
  imports Cache Rule
begin

text \<open>
  The data sources of \<^verbatim>\<open>src/resolver\<close> that answer from what they hold: \<open>hostFileSource\<close>, \<open>zoneSource\<close>,
  \<open>systemSource\<close>, and the address parsing of \<open>dnsSource\<close>.

  A source builds its answer as a message value; where it is put in the heap is the business of the
  theory \<open>Resolver\<close>. \<open>srclib\<close> holds what the sources take from outside the repository: the host
  lookups of the operating system and the exchange with an upstream server, each at a moment given
  by a number; the zone file parser (its records up to the first error) and the \<open>resolv.conf\<close> parser of
  miekg/dns; the order in which Go ranges over the keys of a map; the files. Go's maps are
  association lists.
\<close>

record srclib =
  srcDns :: dnslib
  srcGlob :: "string \<Rightarrow> string \<Rightarrow> bool"
  LookupHost :: "nat \<Rightarrow> string \<Rightarrow> string list option"
  LookupAddr :: "nat \<Rightarrow> string \<Rightarrow> string list option"
  exchange :: "nat \<Rightarrow> string \<Rightarrow> string \<Rightarrow> Msg \<Rightarrow> Msg option result"
  zoneRecords :: "string \<Rightarrow> RR list"
  clientConfig :: "string \<Rightarrow> (string list \<times> string list) option"
  keyOrder :: "string list \<Rightarrow> string list"
  anyOrder :: "RR list \<Rightarrow> RR list"
  srcFiles :: fileSystem
  statExists :: "string \<Rightarrow> bool"
  clock :: "nat \<Rightarrow> int"

abbreviation sourceTtl :: "32 word" where "sourceTtl \<equiv> 60"

definition recordHeader :: "string \<Rightarrow> 16 word \<Rightarrow> RR_Header" where
  "recordHeader name t = \<lparr>HName = name, Rrtype = t, HClass = ClassINET, Ttl = sourceTtl\<rparr>"

text \<open>\<open>&dns.Msg{MsgHdr: {Authoritative: true, Opcode: dns.OpcodeQuery}}\<close> after \<open>SetReply\<close>.\<close>

definition authoritativeReply :: "dnslib \<Rightarrow> Msg \<Rightarrow> Msg" where
  "authoritativeReply D request = SetReply D (newMsg\<lparr>msgAuthoritative := True\<rparr>) request"

text \<open>The record for one address: A for an IPv4 address, AAAA for any other, if that is what was asked.\<close>

definition addressRecord :: "bool \<Rightarrow> bool \<Rightarrow> string \<Rightarrow> ip \<Rightarrow> RR list" where
  "addressRecord wantA wantAAAA name address =
     (case To4 address of
        Some v4 \<Rightarrow> if wantA then [RR_A (recordHeader name TypeA) (Some v4)] else []
      | None \<Rightarrow> (case To16 address of
          Some v6 \<Rightarrow> if wantAAAA then [RR_AAAA (recordHeader name TypeAAAA) (Some v6)] else []
        | None \<Rightarrow> []))"

section \<open>hostfile\_source.go\<close>

record hostFileSource =
  hfPath :: string
  hostEntries :: "(string \<times> ip list) list"
  cnameEntries :: "(string \<times> string) list"
  reverseLookup :: "(string \<times> string list) list"
  dnsWildcards :: "(string \<times> ip list) list"

definition emptyHostFile :: hostFileSource where
  "emptyHostFile = \<lparr>hfPath = [], hostEntries = [], cnameEntries = [], reverseLookup = [], dnsWildcards = []\<rparr>"

text \<open>The loop that removes adjacent spaces until nothing changes.\<close>

function squeezeSpaces :: "string \<Rightarrow> string" where
  "squeezeSpaces d = (let d' = ReplaceDoubleSpace d in if d' = d then d else squeezeSpaces d')"
  by pat_completeness auto
termination
  by (relation "measure length") (auto intro: ReplaceDoubleSpace_shrinks)

declare squeezeSpaces.simps [simp del]

definition appendEntry :: "string \<Rightarrow> ip \<Rightarrow> (string \<times> ip list) list \<Rightarrow> (string \<times> ip list) list" where
  "appendEntry k a m = AList.update k ((case map_of m k of None \<Rightarrow> [] | Some as \<Rightarrow> as) @ [a]) m"

fun hostDomains :: "dnslib \<Rightarrow> ip \<Rightarrow> string list \<Rightarrow> hostFileSource \<Rightarrow> hostFileSource" where
  "hostDomains D a [] h = h"
| "hostDomains D a (domain # domains) h =
     (let fq = Fqdn D domain in
      hostDomains D a domains
        (if \<not> Contains domain ''*'' then h\<lparr>hostEntries := appendEntry fq a (hostEntries h)\<rparr>
         else h\<lparr>dnsWildcards := appendEntry fq a (dnsWildcards h)\<rparr>))"

text \<open>A missing key of a Go map of strings reads as the empty string.\<close>

fun hostAliases :: "dnslib \<Rightarrow> string \<Rightarrow> string list \<Rightarrow> hostFileSource \<Rightarrow> hostFileSource" where
  "hostAliases D address [] h = h"
| "hostAliases D address (alias # aliases) h =
     hostAliases D address aliases
       (if (case map_of (cnameEntries h) alias of None \<Rightarrow> [] | Some v \<Rightarrow> v) = []
        then h\<lparr>cnameEntries := AList.update (Fqdn D alias) (Fqdn D address) (cnameEntries h)\<rparr>
        else h)"

definition hostLine :: "dnslib \<Rightarrow> hostFileSource \<Rightarrow> string \<Rightarrow> hostFileSource" where
  "hostLine D h line =
     (let d = TrimComments (ToLower (TrimSpace line)) [] in
      if d = [] \<or> HasPrefix d ''*'' then h
      else
        let values = SplitN2 (CHR '' '') (squeezeSpaces (ReplaceChar (CHR '','') (CHR '' '') (ReplaceChar (CHR 0x09) (CHR '' '') d)))
        in if length values < 2 then h
           else
             let address = TrimSpace (values ! 0);
                 domains = Split (CHR '' '') (values ! 1)
             in case ParseIP address of
                  Some ip \<Rightarrow>
                    hostDomains D ip domains
                      (h\<lparr>reverseLookup := AList.update (ReverseLookupDomain (Some ip)) domains (reverseLookup h)\<rparr>)
                | None \<Rightarrow> hostAliases D address domains h)"

definition LoadArray :: "dnslib \<Rightarrow> string list \<Rightarrow> hostFileSource" where
  "LoadArray D lines = foldl (hostLine D) (emptyHostFile\<lparr>hfPath := ''hosts''\<rparr>) lines"

definition hostLoad :: "srclib \<Rightarrow> hostFileSource \<Rightarrow> string \<Rightarrow> hostFileSource" where
  "hostLoad S h sourceFile = (case GetFileAsArray (srcFiles S) sourceFile of
       None \<Rightarrow> h
     | Some lines \<Rightarrow> (LoadArray (srcDns S) lines)\<lparr>hfPath := sourceFile\<rparr>)"

definition respondToAWildcards :: "srclib \<Rightarrow> hostFileSource \<Rightarrow> string \<Rightarrow> 16 word \<Rightarrow> RR list" where
  "respondToAWildcards S h name qtype =
     (if length (dnsWildcards h) < 1 then []
      else concat (map (\<lambda>wild.
        if srcGlob S wild name then
          concat (map (addressRecord (qtype = TypeA) (qtype = TypeAAAA) name)
            (case map_of (dnsWildcards h) wild of None \<Rightarrow> [] | Some as \<Rightarrow> as))
        else []) (keyOrder S (map fst (dnsWildcards h)))))"

definition respondToA :: "srclib \<Rightarrow> hostFileSource \<Rightarrow> string \<Rightarrow> 16 word \<Rightarrow> RR list" where
  "respondToA S h name qtype =
     respondToAWildcards S h name qtype @
     (case map_of (hostEntries h) name of
        None \<Rightarrow> []
      | Some as \<Rightarrow> concat (map (addressRecord (qtype = TypeA) (qtype = TypeAAAA) name) as))"

definition respondToPTR :: "dnslib \<Rightarrow> hostFileSource \<Rightarrow> string \<Rightarrow> RR list" where
  "respondToPTR D h name = (case map_of (reverseLookup h) name of
       None \<Rightarrow> []
     | Some val \<Rightarrow> map (\<lambda>p. RR_PTR (recordHeader name TypePTR) (Fqdn D p)) (filter (\<lambda>p. p \<noteq> []) val))"

text \<open>
  \<open>respondToCNAME\<close> replaces the answers by the alias, if the name has one. An empty target would leave
  a nil record behind, on which \<open>Answer\<close> panics.
\<close>

definition respondToCNAME :: "dnslib \<Rightarrow> hostFileSource \<Rightarrow> string \<Rightarrow> RR list \<Rightarrow> RR list run" where
  "respondToCNAME D h name answers = (case map_of (cnameEntries h) name of
       None \<Rightarrow> Ret answers
     | Some cname \<Rightarrow> if cname = [] then Panic else Ret [RR_CNAME (recordHeader name TypeCNAME) (Fqdn D cname)])"

definition hostTypes :: "16 word list" where
  "hostTypes = [TypeANY, TypeA, TypeAAAA, TypePTR, TypeCNAME]"

definition hostName :: "hostFileSource \<Rightarrow> string" where
  "hostName h = ''hostfile:'' @ hfPath h"

definition hostRecords :: "srclib \<Rightarrow> hostFileSource \<Rightarrow> string \<Rightarrow> 16 word \<Rightarrow> RR list run" where
  "hostRecords S h name qtype =
     bind_run (if qtype = TypeANY \<or> qtype = TypeCNAME then respondToCNAME (srcDns S) h name [] else Ret []) (\<lambda>a1.
     bind_run (if qtype = TypeANY \<or> qtype = TypeA \<or> qtype = TypeAAAA then
         bind_run (if qtype \<noteq> TypeANY then respondToCNAME (srcDns S) h name a1 else Ret a1) (\<lambda>a2.
           Ret (if qtype = TypeANY \<or> length a2 < 1 then a2 @ respondToA S h name qtype else a2))
       else Ret a1) (\<lambda>a3.
     Ret (if qtype = TypeANY \<or> qtype = TypePTR then a3 @ respondToPTR (srcDns S) h name else a3)))"

definition hostAnswer :: "srclib \<Rightarrow> hostFileSource \<Rightarrow> Msg \<Rightarrow> Msg option run" where
  "hostAnswer S h request =
     (case msgQuestion request of
        [] \<Rightarrow> Ret None
      | question # _ \<Rightarrow>
          if Qtype question \<notin> set hostTypes then Ret None
          else bind_run (hostRecords S h (ToLower (Qname question)) (Qtype question)) (\<lambda>answers.
            Ret (Some ((authoritativeReply (srcDns S) request)\<lparr>msgAnswer := map (setName (Qname question)) answers\<rparr>))))"

section \<open>zone\_source.go\<close>

text \<open>
  The nested maps name, class, type to records are one list of records in the order they were added,
  each with its name in lower case.
\<close>

record zoneSource =
  zsPath :: string
  zsRecords :: "(string \<times> RR) list"
  wildnames :: "string list"

definition addRecord :: "zoneSource \<Rightarrow> RR \<Rightarrow> zoneSource" where
  "addRecord z rr = z\<lparr>zsRecords := zsRecords z @ [(ToLower (HName (Header rr)), rr)]\<rparr>"

definition addressOf :: "RR \<Rightarrow> ip option" where
  "addressOf rr = (case rr of RR_A h a \<Rightarrow> a | RR_AAAA h a \<Rightarrow> a | _ \<Rightarrow> None)"

definition zoneRecord :: "zoneSource \<Rightarrow> RR \<Rightarrow> zoneSource" where
  "zoneRecord z rr =
     (let name = ToLower (HName (Header rr));
          z1 = (if HasPrefix name ''*.'' then z\<lparr>wildnames := wildnames z @ [name]\<rparr> else z);
          z2 = addRecord z1 rr
      in case addressOf rr of
           None \<Rightarrow> z2
         | Some a \<Rightarrow> addRecord z2 (RR_PTR ((Header rr)\<lparr>HName := ReverseLookupDomain (Some a), Rrtype := TypePTR\<rparr>) name))"

definition emptyZone :: zoneSource where
  "emptyZone = \<lparr>zsPath = [], zsRecords = [], wildnames = []\<rparr>"

definition zoneLoad :: "srclib \<Rightarrow> zoneSource \<Rightarrow> string \<Rightarrow> zoneSource" where
  "zoneLoad S z zoneFile =
     (let z0 = z\<lparr>wildnames := [], zsRecords := []\<rparr> in
      case srcFiles S zoneFile of
        None \<Rightarrow> z0
      | Some content \<Rightarrow> foldl zoneRecord (z0\<lparr>zsPath := zoneFile\<rparr>) (zoneRecords S content))"

definition zoneName :: "zoneSource \<Rightarrow> string" where
  "zoneName z = ''zonefile:'' @ zsPath z"

definition resolveName :: "srclib \<Rightarrow> zoneSource \<Rightarrow> string \<Rightarrow> 16 word \<Rightarrow> 16 word \<Rightarrow> RR list" where
  "resolveName S z name qClass qType =
     (let rrs = map snd (filter (\<lambda>(n, rr). n = name \<and> (qClass = ClassANY \<or> HClass (Header rr) = qClass) \<and>
                                          (qType = TypeANY \<or> Rrtype (Header rr) = qType)) (zsRecords z))
      in if qClass = ClassANY \<or> qType = TypeANY then anyOrder S rrs else rrs)"

fun wildAnswers :: "srclib \<Rightarrow> zoneSource \<Rightarrow> string \<Rightarrow> 16 word \<Rightarrow> 16 word \<Rightarrow> string list \<Rightarrow> RR list" where
  "wildAnswers S z name qClass qType [] = []"
| "wildAnswers S z name qClass qType (wild # wilds) =
     (let rrs = (if srcGlob S wild name then resolveName S z wild qClass qType else []) in
      if length rrs > 0 then rrs else wildAnswers S z name qClass qType wilds)"

definition zoneRecordsFor :: "srclib \<Rightarrow> zoneSource \<Rightarrow> string \<Rightarrow> 16 word \<Rightarrow> 16 word \<Rightarrow> RR list" where
  "zoneRecordsFor S z name qClass qType =
     (let rrs = (if qType = TypeA \<or> qType = TypeAAAA then resolveName S z name qClass TypeCNAME else [])
                @ resolveName S z name qClass qType
      in if length rrs < 1 then wildAnswers S z name qClass qType (wildnames z) else rrs)"

text \<open>A request without a question is indexed out of range.\<close>

definition zoneAnswer :: "srclib \<Rightarrow> zoneSource \<Rightarrow> Msg \<Rightarrow> Msg option run" where
  "zoneAnswer S z request =
     (case msgQuestion request of
        [] \<Rightarrow> Panic
      | question # _ \<Rightarrow>
          (let name = ToLower (Qname question) in
           Ret (Some ((authoritativeReply (srcDns S) request)\<lparr>msgAnswer :=
             map (setName name) (zoneRecordsFor S z name (Qclass question) (Qtype question))\<rparr>))))"

section \<open>system\_source.go\<close>

definition systemTypes :: "16 word list" where
  "systemTypes = [TypeA, TypeAAAA, TypePTR, TypeCNAME]"

definition systemAddresses :: "srclib \<Rightarrow> nat \<Rightarrow> string \<Rightarrow> 16 word \<Rightarrow> RR list" where
  "systemAddresses S tick name qType = (case LookupHost S tick name of
       None \<Rightarrow> []
     | Some hosts \<Rightarrow> concat (map (\<lambda>host. case ParseIP host of
           None \<Rightarrow> []
         | Some a \<Rightarrow> addressRecord (qType = TypeA \<or> qType = TypeCNAME) (qType = TypeAAAA \<or> qType = TypeCNAME) name a) hosts))"

definition systemPointers :: "srclib \<Rightarrow> nat \<Rightarrow> string \<Rightarrow> RR list" where
  "systemPointers S tick name = (case LookupAddr S tick name of
       None \<Rightarrow> []
     | Some names \<Rightarrow> map (\<lambda>p. RR_PTR (recordHeader name TypePTR) (Fqdn (srcDns S) p)) (filter (\<lambda>p. p \<noteq> []) names))"

definition systemAnswer :: "srclib \<Rightarrow> nat \<Rightarrow> Msg \<Rightarrow> Msg option run" where
  "systemAnswer S tick request =
     (case msgQuestion request of
        [] \<Rightarrow> Panic
      | question # _ \<Rightarrow>
          let name = ToLower (Qname question); qType = Qtype question in
          if qType \<notin> set systemTypes then Ret None
          else Ret (Some ((authoritativeReply (srcDns S) request)\<lparr>msgAnswer := map (setName (Qname question))
            (if qType = TypePTR then systemPointers S tick name else systemAddresses S tick name qType)\<rparr>)))"

section \<open>dns\_source.go: the specification of a server\<close>

text \<open>
  The pool of connections that \<open>Load\<close> creates is known by the specification of the source: the resolvers share
  one source for each specification.
\<close>

record dnsSource =
  dsServer :: string
  dsPort :: nat
  dsRemoteAddress :: string
  dsProtocol :: string
  dsNetwork :: string
  dsPool :: string

definition validProtocols :: "string list" where
  "validProtocols = [''udp'', ''tcp'', ''tcp-tls'']"

text \<open>\<open>strconv.ParseUint(s, 10, 32)\<close>\<close>

definition ParseUint32 :: "string \<Rightarrow> nat option" where
  "ParseUint32 s =
     (if s = [] \<or> \<not> list_all (\<lambda>c. decDigit c \<noteq> None) s then None
      else let n = foldl (\<lambda>n c. n * 10 + the (decDigit c)) 0 s in
           if int n < 4294967296 then Some n else None)"

definition dnsLoad :: "string \<Rightarrow> dnsSource" where
  "dnsLoad specification =
     (let protoSplit = Split (CHR ''/'') specification;
          hasProto = Contains specification ''/'' \<and> length protoSplit > 1 \<and> StringIn (ToLower (protoSplit ! 1)) validProtocols;
          spec = (if hasProto then protoSplit ! 0 else specification);
          proto0 = (if hasProto then ToLower (protoSplit ! 1) else []);
          portSplit = Split (CHR '':'') spec;
          server = (if Contains spec '':'' then portSplit ! 0 else spec);
          port0 = (if Contains spec '':'' then case ParseUint32 (portSplit ! 1) of None \<Rightarrow> 0 | Some p \<Rightarrow> p else 0);
          proto = (if proto0 = [] then ''udp'' else proto0);
          network = (if proto = ''tcp-tls'' then ''tcp'' else proto);
          port = (if port0 = 0 then (if proto = ''tcp-tls'' then 853 else 53) else port0)
      in \<lparr>dsServer = server, dsPort = port,
          dsRemoteAddress = (if ParseIP server \<noteq> None then server @ '':'' @ Itoa port else []),
          dsProtocol = proto, dsNetwork = network, dsPool = specification\<rparr>)"

definition dnsName :: "dnsSource \<Rightarrow> string" where
  "dnsName d = dsRemoteAddress d @ ''/'' @ dsProtocol d"

section \<open>Facts about hosts files\<close>

definition entriesOf :: "(string \<times> ip list) list \<Rightarrow> string \<Rightarrow> ip list" where
  "entriesOf m k = (case map_of m k of None \<Rightarrow> [] | Some as \<Rightarrow> as)"

lemma entriesOf_append: "entriesOf (appendEntry k a m) k' = (if k' = k then entriesOf m k @ [a] else entriesOf m k')"
  by (simp add: entriesOf_def appendEntry_def update_conv')

lemma appendEntry_nonempty:
  "(\<And>k as. map_of m k = Some as \<Longrightarrow> as \<noteq> []) \<Longrightarrow> map_of (appendEntry k' a m) k = Some as \<Longrightarrow> as \<noteq> []"
  by (auto simp: appendEntry_def update_conv' split: if_splits)

text \<open>
  What a line of a hosts file says: the words after the comments, tabs, commas and runs of spaces are
  normalised; an address with the names that follow it, or a target with its aliases.
\<close>

definition hostWords :: "string \<Rightarrow> (string \<times> string list) option" where
  "hostWords line =
     (let d = TrimComments (ToLower (TrimSpace line)) [] in
      if d = [] \<or> HasPrefix d ''*'' then None
      else
        let values = SplitN2 (CHR '' '') (squeezeSpaces (ReplaceChar (CHR '','') (CHR '' '') (ReplaceChar (CHR 0x09) (CHR '' '') d)))
        in if length values < 2 then None
           else Some (TrimSpace (values ! 0), Split (CHR '' '') (values ! 1)))"

definition lineAddresses :: "dnslib \<Rightarrow> string \<Rightarrow> string \<Rightarrow> ip list" where
  "lineAddresses D name line = (case hostWords line of
       None \<Rightarrow> []
     | Some (address, domains) \<Rightarrow> (case ParseIP address of
         None \<Rightarrow> []
       | Some ip \<Rightarrow> replicate (length (filter (\<lambda>d. CHR ''*'' \<notin> set d \<and> Fqdn D d = name) domains)) ip))"

lemma hostLine_words:
  "hostLine D h line = (case hostWords line of
       None \<Rightarrow> h
     | Some (address, domains) \<Rightarrow> (case ParseIP address of
         Some ip \<Rightarrow> hostDomains D ip domains
           (h\<lparr>reverseLookup := AList.update (ReverseLookupDomain (Some ip)) domains (reverseLookup h)\<rparr>)
       | None \<Rightarrow> hostAliases D address domains h))"
  by (simp add: hostLine_def hostWords_def Let_def)

lemma hostDomains_entries:
  "entriesOf (hostEntries (hostDomains D a ds h)) k =
     entriesOf (hostEntries h) k @ replicate (length (filter (\<lambda>d. CHR ''*'' \<notin> set d \<and> Fqdn D d = k) ds)) a"
  by (induction ds arbitrary: h) (auto simp: Let_def entriesOf_append replicate_app_Cons_same)

lemma hostAliases_entries [simp]: "hostEntries (hostAliases D t as h) = hostEntries h"
  by (induction as arbitrary: h) auto

lemma LoadArray_entries:
  "entriesOf (hostEntries (LoadArray D lines)) name = concat (map (lineAddresses D name) lines)"
proof -
  have "entriesOf (hostEntries (foldl (hostLine D) h lines)) name =
      entriesOf (hostEntries h) name @ concat (map (lineAddresses D name) lines)" for h
  proof (induction lines arbitrary: h)
    case (Cons line lines)
    have "entriesOf (hostEntries (hostLine D h line)) name = entriesOf (hostEntries h) name @ lineAddresses D name line"
      by (auto simp: hostLine_words lineAddresses_def hostDomains_entries split: option.splits)
    then show ?case
      using Cons by simp
  qed simp
  then show ?thesis
    by (simp add: LoadArray_def emptyHostFile_def entriesOf_def)
qed

lemma setName_addressRecord: "map (setName n) (addressRecord x y name a) = addressRecord x y n a"
  by (auto simp: addressRecord_def setName_def recordHeader_def split: option.splits)

section \<open>Properties\<close>

definition demoSrc :: srclib where
  "demoSrc = \<lparr>srcDns = demoDns, srcGlob = (\<lambda>p s. HasPrefix p ''*'' \<and> HasSuffix s (tl p)), LookupHost = (\<lambda>t n. None),
     LookupAddr = (\<lambda>t n. None), exchange = (\<lambda>t r p m. Inl ''timeout''), zoneRecords = (\<lambda>c. []), clientConfig = (\<lambda>p. None),
     keyOrder = (\<lambda>ks. ks), anyOrder = (\<lambda>rs. rs), srcFiles = Map.empty, statExists = (\<lambda>p. False), clock = (\<lambda>t. int t * secondNs)\<rparr>"



text \<open>
  An upstream server given by an IPv6 address is never reachable: the text up to the first colon
  is taken for the server, so a specification without a dot and without a protocol leaves the source
  without a remote address.
\<close>

theorem ipv6_server_has_no_address:
  assumes "CHR '':'' \<in> set spec" "CHR ''/'' \<notin> set spec" "CHR ''.'' \<notin> set spec"
  shows "dsRemoteAddress (dnsLoad spec) = []"
proof -
  let ?server = "takeWhile (\<lambda>c. c \<noteq> CHR '':'') spec"
  have "Split sep s ! 0 = takeWhile (\<lambda>c. c \<noteq> sep) s" for sep s
    by (induction s) (auto split: list.splits)
  then have "dsServer (dnsLoad spec) = ?server"
    using assms(1,2) by (simp add: dnsLoad_def Let_def)
  moreover have "\<forall>c \<in> set ?server. c \<noteq> CHR ''.'' \<and> c \<noteq> CHR '':''"
    using assms(3) by (metis set_takeWhileD)
  then have "dropWhile (\<lambda>c. c \<noteq> CHR ''.'' \<and> c \<noteq> CHR '':'') ?server = []"
    by (simp add: dropWhile_eq_Nil_conv)
  then have "ParseIP ?server = None"
    by (simp only: ParseIP_def list.case)
  ultimately show ?thesis
    by (simp add: dnsLoad_def Let_def)
qed

theorem ipv6_server_has_no_address_witness:
  "ParseIP ''::1'' \<noteq> None \<and> dsRemoteAddress (dnsLoad ''::1'') = []"
proof
  show "ParseIP ''::1'' \<noteq> None"
    by code_simp
  show "dsRemoteAddress (dnsLoad ''::1'') = []"
    by (rule ipv6_server_has_no_address) simp_all
qed

text \<open>
  A comment behind the names of a hosts line gives the root domain the address of the line: the
  space before the comment is left over and read as one more, empty, name.
\<close>

theorem hosts_comment_names_root:
  "lineAddresses demoDns ''.'' ''10.0.0.1 nas # shelf'' = [[0, 0, 0, 0, 0, 0, 0, 0, 0, 0, 255, 255, 10, 0, 0, 1]] \<and>
   lineAddresses demoDns ''.'' ''10.0.0.1 nas'' = []"
  by code_simp

end
