(* ===== verification/Resolver.thy ===== *)
theory Resolver
  imports Sources Config
begin

text \<open>
  \<^verbatim>\<open>src/resolver\<close>: the sources that combine or forward to others, \<open>resolver\<close> with its domains, search
  domains and cache, and \<open>resolverMap\<close>.

  \<open>source\<close> is the interface value \<open>Source\<close>. A request runs on a \<open>world\<close>: the heap of messages, the cache
  (absent when caching is disabled), a counter that numbers the readings of the clock and the
  exchanges with the outside, and the position of each load balancer (the state of its router
  goroutine, one step per question asked). The \<open>ResolutionContext\<close> that the calls share by pointer is
  passed along with the world; the resolver map always supplies one. Sources that refer back to a
  resolver by name make the calls recursive: the sources get the map's \<open>answerWithContext\<close> as an
  argument, and the recursion is tied there, with fuel. The connection pool of \<open>dnsSource\<close> is part of
  \<open>exchange\<close>: a connection that cannot be had is an error of the exchange.
\<close>

section \<open>State\<close>

datatype source =
    HostFile hostFileSource
  | Zone zoneSource
  | System
  | Dns dnsSource
  | ResolverSrc string
  | Resolv string "string list" "source option"
  | FileSrc string source
  | Multi string "source list"
  | Lb nat string "source list"

record 'b world =
  wHeap :: msgHeap
  wCache :: "'b gocache option"
  wTick :: nat
  wLb :: "nat \<Rightarrow> nat"

record resolutionContext =
  rcVisited :: "string list"
  rcStored :: bool
  rcResolverUsed :: string
  rcSourceUsed :: string
  rcCached :: bool

definition DefaultResolutionContext :: resolutionContext where
  "DefaultResolutionContext = \<lparr>rcVisited = [], rcStored = False, rcResolverUsed = [], rcSourceUsed = [], rcCached = False\<rparr>"

record resolver =
  rvName :: string
  rvDomains :: "string list"
  rvSkip :: "string list"
  rvSearch :: "string list"
  rvSources :: "source list"

type_synonym resolverMap = "(string \<times> resolver) list"

type_synonym 'b rstate = "'b world \<times> resolutionContext"
type_synonym 'b srcRun = "(ptr option result \<times> 'b rstate) run"

definition allocW :: "Msg \<Rightarrow> 'b world \<Rightarrow> ptr \<times> 'b world" where
  "allocW m w = (let (p, h) = allocMsg m (wHeap w) in (p, w\<lparr>wHeap := h\<rparr>))"

definition tickW :: "'b world \<Rightarrow> 'b world" where
  "tickW w = w\<lparr>wTick := Suc (wTick w)\<rparr>"

definition emptyAt :: "dnslib \<Rightarrow> 'b world \<Rightarrow> ptr option \<Rightarrow> bool" where
  "emptyAt D w p = IsEmptyResponse D (deref (wHeap w) p)"

section \<open>Names and closing\<close>

fun sourceName :: "source \<Rightarrow> string" where
  "sourceName (HostFile h) = hostName h"
| "sourceName (Zone z) = zoneName z"
| "sourceName System = ''system''"
| "sourceName (Dns d) = dnsName d"
| "sourceName (ResolverSrc n) = n"
| "sourceName (Resolv path search up) = path"
| "sourceName (FileSrc path s) = sourceName s"
| "sourceName (Multi n ss) = ''ms:'' @ n"
| "sourceName (Lb i n ss) = ''lb:'' @ n"

section \<open>Answers of sources\<close>

text \<open>
  The answer of a source that holds its own data: it is put in the heap; a source that is not to be
  cached marks the context as stored.
\<close>

definition ownAnswer :: "dnslib \<Rightarrow> bool \<Rightarrow> string \<Rightarrow> Msg option run \<Rightarrow> 'b rstate \<Rightarrow> 'b srcRun" where
  "ownAnswer D noCache name answer st = bind_run answer (\<lambda>mo. case mo of
       None \<Rightarrow> Ret (Inr None, st)
     | Some m \<Rightarrow>
         (let (w, ctx) = st; (p, w') = allocW m w;
              ctx' = (if \<not> IsEmptyResponse D (Some m)
                      then ctx\<lparr>rcStored := (if noCache then True else rcStored ctx), rcSourceUsed := name\<rparr> else ctx)
          in Ret (Inr (Some p), (w', ctx'))))"

definition dnsAnswer :: "srclib \<Rightarrow> dnsSource \<Rightarrow> Msg \<Rightarrow> 'b rstate \<Rightarrow> 'b srcRun" where
  "dnsAnswer S d request st =
     (if \<not> msgRecursionDesired request then Ret (Inr None, st)
      else
        let (w0, ctx) = st; w = tickW w0 in
        case exchange S (wTick w0) (dsRemoteAddress d) (dsProtocol d) request of
          Inl e \<Rightarrow> Ret (Inl e, (w, ctx))
        | Inr None \<Rightarrow> Ret (Inr None, (w, ctx))
        | Inr (Some m) \<Rightarrow>
            (let (p, w') = allocW m w;
                 ctx' = (if \<not> IsEmptyResponse (srcDns S) (Some m) \<and> rcSourceUsed ctx = []
                         then ctx\<lparr>rcSourceUsed := dnsName d\<rparr> else ctx)
             in Ret (Inr (Some p), (w', ctx'))))"

type_synonym 'b srcFun = "Msg \<Rightarrow> 'b rstate \<Rightarrow> 'b srcRun"

fun multiLoop :: "dnslib \<Rightarrow> string \<Rightarrow> (string \<times> 'b srcFun) list \<Rightarrow> 'b srcFun" where
  "multiLoop D name [] request st = Ret (Inl (''No source in multisource: '' @ [CHR 0x27] @ name @ [CHR 0x27] @ '' had a response''), st)"
| "multiLoop D name ((srcName, ask) # rest) request st =
     bind_run (ask request st) (\<lambda>(r, (w, ctx)).
       case r of
         Inr p \<Rightarrow> if \<not> emptyAt D w p then Ret (Inr p, (w, ctx\<lparr>rcSourceUsed := ''ms:'' @ name @ ''('' @ srcName @ '')''\<rparr>))
                  else multiLoop D name rest request (w, ctx)
       | Inl e \<Rightarrow> multiLoop D name rest request (w, ctx))"

text \<open>
  One question to the router: the source at the current position, which then moves on. The loop
  \<open>for tries >= 0\<close> asks once more than there are sources.
\<close>

definition routerAsk :: "nat \<Rightarrow> nat \<Rightarrow> 'b world \<Rightarrow> nat \<times> 'b world" where
  "routerAsk i n w = (wLb w i, w\<lparr>wLb := (wLb w)(i := (wLb w i + 1) mod n)\<rparr>)"

fun lbLoop :: "dnslib \<Rightarrow> nat \<Rightarrow> string \<Rightarrow> (string \<times> 'b srcFun) list \<Rightarrow> nat \<Rightarrow> 'b srcFun" where
  "lbLoop D i name asks 0 request st =
     Ret (Inl (''Could not answer question in '' @ Itoa (length asks) @ '' tries''), st)"
| "lbLoop D i name asks (Suc tries) request (w0, ctx0) =
     (let (idx, w1) = routerAsk i (length asks) w0 in
      if idx < length asks then
        bind_run (snd (asks ! idx) request (w1, ctx0)) (\<lambda>(r, (w, ctx)).
          case r of
            Inr p \<Rightarrow> if \<not> emptyAt D w p
                     then Ret (Inr p, (w, ctx\<lparr>rcSourceUsed := ''lb:'' @ name @ ''('' @ fst (asks ! idx) @ '')''\<rparr>))
                     else lbLoop D i name asks tries request (w, ctx)
          | Inl e \<Rightarrow> lbLoop D i name asks tries request (w, ctx))
      else Panic)"

fun sourceAnswer :: "srclib \<Rightarrow> (string \<Rightarrow> 'b srcFun) \<Rightarrow> source \<Rightarrow> 'b srcFun" where
  "sourceAnswer S rec (HostFile h) request st = ownAnswer (srcDns S) True (hostName h) (hostAnswer S h request) st"
| "sourceAnswer S rec (Zone z) request st = ownAnswer (srcDns S) True (zoneName z) (zoneAnswer S z request) st"
| "sourceAnswer S rec System request (w, ctx) =
     ownAnswer (srcDns S) False ''system'' (systemAnswer S (wTick w) request) (tickW w, ctx)"
| "sourceAnswer S rec (Dns d) request st = dnsAnswer S d request st"
| "sourceAnswer S rec (ResolverSrc n) request (w, ctx) =
     (if StringIn n (rcVisited ctx) then Ret (Inr None, (w, ctx)) else rec n request (w, ctx))"
| "sourceAnswer S rec (Resolv path search up) request st = (case up of
       None \<Rightarrow> Ret (Inr None, st)
     | Some s \<Rightarrow> bind_run (sourceAnswer S rec s request st) (\<lambda>(r, (w, ctx)).
         case r of
           Inr p \<Rightarrow> Ret (Inr p, (w, if \<not> emptyAt (srcDns S) w p then ctx\<lparr>rcSourceUsed := path\<rparr> else ctx))
         | Inl e \<Rightarrow> Ret (Inl e, (w, ctx))))"
| "sourceAnswer S rec (FileSrc path s) request st = sourceAnswer S rec s request st"
| "sourceAnswer S rec (Multi name ss) request st =
     multiLoop (srcDns S) name (map (\<lambda>s. (sourceName s, sourceAnswer S rec s)) ss) request st"
| "sourceAnswer S rec (Lb i name ss) request st =
     lbLoop (srcDns S) i name (map (\<lambda>s. (sourceName s, sourceAnswer S rec s)) ss) (Suc (length ss)) request st"

section \<open>resolver.go\<close>

fun answerLoop :: "srclib \<Rightarrow> (string \<Rightarrow> 'b srcFun) \<Rightarrow> string \<Rightarrow> source list \<Rightarrow> Msg \<Rightarrow> 'b rstate \<Rightarrow> (ptr option \<times> 'b rstate) run" where
  "answerLoop S rec name [] request st = Ret (None, st)"
| "answerLoop S rec name (s # ss) request st =
     bind_run (sourceAnswer S rec s request st) (\<lambda>(r, (w, ctx)).
       case r of
         Inl e \<Rightarrow> answerLoop S rec name ss request (w, ctx)
       | Inr p \<Rightarrow>
           if \<not> emptyAt (srcDns S) w p then
             Ret (p, (w, if rcResolverUsed ctx = [] then ctx\<lparr>rcResolverUsed := name\<rparr> else ctx))
           else answerLoop S rec name ss request (w, ctx))"

definition resolver_answer :: "srclib \<Rightarrow> (string \<Rightarrow> 'b srcFun) \<Rightarrow> resolver \<Rightarrow> Msg \<Rightarrow> 'b rstate \<Rightarrow> (ptr option \<times> 'b rstate) run" where
  "resolver_answer S rec rv request st = answerLoop S rec (rvName rv) (rvSources rv) request st"

definition setQname :: "string \<Rightarrow> Msg \<Rightarrow> Msg" where
  "setQname n m = (case msgQuestion m of [] \<Rightarrow> m | q # qs \<Rightarrow> m\<lparr>msgQuestion := q\<lparr>Qname := n\<rparr> # qs\<rparr>)"

text \<open>Renaming the answers of a message in place and making it the reply to a request.\<close>

definition redirectReply :: "dnslib \<Rightarrow> string \<Rightarrow> Msg \<Rightarrow> ptr \<Rightarrow> 'b world \<Rightarrow> 'b world" where
  "redirectReply D name request p w =
     w\<lparr>wHeap := (wHeap w)[p := SetReply D ((wHeap w ! p)\<lparr>msgAnswer := map (setName name) (msgAnswer (wHeap w ! p))\<rparr>) request]\<rparr>"

fun searchDomainLoop :: "srclib \<Rightarrow> (string \<Rightarrow> 'b srcFun) \<Rightarrow> resolver \<Rightarrow> string \<Rightarrow> Msg \<Rightarrow> string list \<Rightarrow> 'b rstate \<Rightarrow> (ptr option \<times> 'b rstate) run" where
  "searchDomainLoop S rec rv original request [] st = Ret (None, st)"
| "searchDomainLoop S rec rv original request (sDomain # rest) st =
     (if sDomain = [] then searchDomainLoop S rec rv original request rest st
      else
        bind_run (resolver_answer S rec rv
            (setQname (Fqdn (srcDns S) (Fqdn (srcDns S) original @ sDomain)) request) st) (\<lambda>(po, (w, ctx)).
          case po of
            Some p \<Rightarrow> if \<not> emptyAt (srcDns S) w (Some p)
                      then Ret (Some p, (redirectReply (srcDns S) original request p w, ctx))
                      else searchDomainLoop S rec rv original request rest (w, ctx)
          | None \<Rightarrow> searchDomainLoop S rec rv original request rest (w, ctx)))"

definition searchDomains :: "srclib \<Rightarrow> (string \<Rightarrow> 'b srcFun) \<Rightarrow> resolver \<Rightarrow> Msg \<Rightarrow> 'b rstate \<Rightarrow> (ptr option \<times> 'b rstate) run" where
  "searchDomains S rec rv request st =
     (case msgQuestion request of
        [] \<Rightarrow> Panic
      | q # _ \<Rightarrow>
          (let original = Qname q; splits = Split (CHR ''.'') original in
           if original = [] \<or> original = ''.'' \<or> (length splits > 1 \<and> splits ! 1 \<noteq> []) then Ret (None, st)
           else searchDomainLoop S rec rv original request (rvSearch rv) st))"

fun domainLoop :: "(string \<Rightarrow> string \<Rightarrow> bool) \<Rightarrow> string \<Rightarrow> string list \<Rightarrow> bool" where
  "domainLoop glob questionDomain [] = False"
| "domainLoop glob questionDomain (d # ds) =
     (let domain = ToLower d in
      if Contains domain ''*'' then glob domain questionDomain
      else if domain = questionDomain \<or> HasSuffix questionDomain (''.'' @ domain) then True
      else domainLoop glob questionDomain ds)"

definition domainMatches :: "(string \<Rightarrow> string \<Rightarrow> bool) \<Rightarrow> string \<Rightarrow> string list \<Rightarrow> bool" where
  "domainMatches glob questionDomain domainsToCheck =
     (if length domainsToCheck > 0 then
        domainLoop glob (if HasSuffix questionDomain ''.'' then butlast questionDomain else questionDomain) domainsToCheck
      else True)"

definition skips :: "srclib \<Rightarrow> resolver \<Rightarrow> string \<Rightarrow> bool" where
  "skips S rv qname =
     ((length (rvDomains rv) > 0 \<and> \<not> domainMatches (srcGlob S) qname (rvDomains rv)) \<or>
      (length (rvSkip rv) > 0 \<and> domainMatches (srcGlob S) qname (rvSkip rv)))"

text \<open>\<open>Cache().Query\<close> and \<open>Cache().Store\<close> on the world's cache.\<close>

definition queryW :: "srclib \<Rightarrow> 'b backer \<Rightarrow> string \<Rightarrow> Msg \<Rightarrow> 'b world \<Rightarrow> ptr option \<times> 'b world" where
  "queryW S B part request w = (case wCache w of
       None \<Rightarrow> (None, w)
     | Some c \<Rightarrow> (let (p, h) = cacheQuery (srcDns S) B (clock S (wTick w)) (wHeap w) c part request in
                 (p, (tickW w)\<lparr>wHeap := h\<rparr>)))"

definition storeW :: "srclib \<Rightarrow> 'b backer \<Rightarrow> string \<Rightarrow> Msg \<Rightarrow> ptr option \<Rightarrow> 'b rstate \<Rightarrow> 'b rstate" where
  "storeW S B part request p st =
     (let (w, ctx) = st in
      case wCache w of
        None \<Rightarrow> st
      | Some c \<Rightarrow>
          (if rcStored ctx then st
           else case deref (wHeap w) p of
               None \<Rightarrow> st
             | Some m \<Rightarrow>
                 if msgTruncated m then st
                 else (let (c', ok) = cacheStore (srcDns S) B (clock S (wTick w)) (wHeap w) c part request p in
                       ((tickW w)\<lparr>wCache := Some c'\<rparr>, ctx\<lparr>rcStored := ok\<rparr>))))"

definition resolverAnswer :: "srclib \<Rightarrow> 'b backer \<Rightarrow> (string \<Rightarrow> 'b srcFun) \<Rightarrow> resolver \<Rightarrow> Msg \<Rightarrow> 'b rstate \<Rightarrow> (ptr option \<times> 'b rstate) run" where
  "resolverAnswer S B rec rv request st0 =
     (case msgQuestion request of
        [] \<Rightarrow> Ret (None, st0)
      | q # _ \<Rightarrow>
          if skips S rv (ToLower (Qname q)) then Ret (None, st0)
          else
            let (w0, ctx0) = st0;
                ctx1 = ctx0\<lparr>rcVisited := rcVisited ctx0 @ [rvName rv]\<rparr>;
                (cached, w1) = queryW S B (rvName rv) request w0
            in if \<not> emptyAt (srcDns S) w1 cached then
                 Ret (cached, (w1, ctx1\<lparr>rcResolverUsed := (if rcResolverUsed ctx1 = [] then rvName rv else rcResolverUsed ctx1),
                                       rcStored := True, rcCached := True\<rparr>))
               else
                 bind_run (resolver_answer S rec rv request (w1, ctx1)) (\<lambda>(p1, (w2, ctx2)).
                 bind_run (if emptyAt (srcDns S) w2 p1 \<and> length (rvSearch rv) > 0
                           then bind_run (searchDomains S rec rv request (w2, ctx2)) (\<lambda>(r, (w3, ctx3)).
                                  Ret (if \<not> emptyAt (srcDns S) w3 r then r else p1, (w3, ctx3)))
                           else Ret (p1, (w2, ctx2))) (\<lambda>(p, st3).
                 Ret (p, storeW S B (rvName rv) request p st3))))"

section \<open>resolver\_map.go\<close>

record resolutionResult =
  rrCached :: bool
  rrConsumer :: string
  rrSource :: string
  rrResolver :: string
  rrMessage :: string
  rrBlocked :: bool
  rrMatch :: Match
  rrMatchList :: "GudgeonList option"
  rrMatchRule :: string

definition emptyResult :: resolutionResult where
  "emptyResult = \<lparr>rrCached = False, rrConsumer = [], rrSource = [], rrResolver = [], rrMessage = [], rrBlocked = False,
     rrMatch = MatchNone, rrMatchList = None, rrMatchRule = []\<rparr>"

text \<open>
  \<open>result\<close> takes its object from a pool without clearing it; the only field that is ever set on a
  pooled object besides these three is the consumer, which the engine sets anew on every answer.
\<close>

definition resultOf :: "resolutionContext \<Rightarrow> resolutionResult" where
  "resultOf ctx = emptyResult\<lparr>rrCached := rcCached ctx, rrSource := rcSourceUsed ctx, rrResolver := rcResolverUsed ctx\<rparr>"

fun answerWithContext :: "nat \<Rightarrow> srclib \<Rightarrow> 'b backer \<Rightarrow> resolverMap \<Rightarrow> string \<Rightarrow> 'b srcFun" where
  "answerWithContext 0 S B rm name request st = NoFuel"
| "answerWithContext (Suc n) S B rm name request (w, ctx) =
     (case map_of rm name of
        None \<Rightarrow> Ret (Inr None, (w, ctx))
      | Some rv \<Rightarrow>
          if StringIn name (rcVisited ctx) then Ret (Inr None, (w, ctx))
          else bind_run (resolverAnswer S B (answerWithContext n S B rm) rv request (w, ctx)) (\<lambda>(p, st).
                 Ret (Inr p, st)))"

text \<open>
  The result that comes with an answer: none when the name is unknown or was visited before. The
  fuel is one more than the number of resolvers.
\<close>

definition mapFuel :: "resolverMap \<Rightarrow> nat" where
  "mapFuel rm = Suc (length rm)"

definition answerResult :: "resolverMap \<Rightarrow> string \<Rightarrow> resolutionContext \<Rightarrow> resolutionContext \<Rightarrow> resolutionResult option" where
  "answerResult rm name ctx ctx' = (if map_of rm name = None \<or> StringIn name (rcVisited ctx) then None else Some (resultOf ctx'))"

fun multiResolverLoop :: "srclib \<Rightarrow> 'b backer \<Rightarrow> resolverMap \<Rightarrow> string list \<Rightarrow> Msg \<Rightarrow> string list \<Rightarrow> 'b rstate
    \<Rightarrow> ((ptr option \<times> resolutionResult option) result \<times> 'b world) run" where
  "multiResolverLoop S B rm [] request errors (w, ctx) =
     Ret (if length errors > 0 then Inl (Join errors '','') else Inr (None, None), w)"
| "multiResolverLoop S B rm (name # names) request errors (w, ctx) =
     bind_run (answerWithContext (mapFuel rm) S B rm name request (w, ctx)) (\<lambda>(r, (w', ctx')).
       case r of
         Inl e \<Rightarrow> multiResolverLoop S B rm names request (errors @ [e]) (w', ctx')
       | Inr p \<Rightarrow>
           if \<not> emptyAt (srcDns S) w' p then Ret (Inr (p, answerResult rm name ctx ctx'), w')
           else multiResolverLoop S B rm names request errors (w', ctx'))"

definition AnswerMultiResolvers :: "srclib \<Rightarrow> 'b backer \<Rightarrow> resolverMap \<Rightarrow> string list \<Rightarrow> Msg \<Rightarrow> 'b world
    \<Rightarrow> ((ptr option \<times> resolutionResult option) result \<times> 'b world) run" where
  "AnswerMultiResolvers S B rm names request w = multiResolverLoop S B rm names request [] (w, DefaultResolutionContext)"

definition mapAnswer :: "srclib \<Rightarrow> 'b backer \<Rightarrow> resolverMap \<Rightarrow> string \<Rightarrow> Msg \<Rightarrow> 'b world
    \<Rightarrow> ((ptr option \<times> resolutionResult option) result \<times> 'b world) run" where
  "mapAnswer S B rm name request w =
     bind_run (answerWithContext (mapFuel rm) S B rm name request (w, DefaultResolutionContext)) (\<lambda>(r, (w', ctx')).
       Ret (case r of Inl e \<Rightarrow> Inl e | Inr p \<Rightarrow> Inr (p, answerResult rm name DefaultResolutionContext ctx'), w'))"

text \<open>\<open>Close\<close> and the handler of \<open>souce:change\<close> clear the cache.\<close>

definition clearW :: "'b backer \<Rightarrow> 'b world \<Rightarrow> 'b world" where
  "clearW B w = w\<lparr>wCache := map_option (cacheClear B) (wCache w)\<rparr>"

section \<open>Every resolution returns\<close>

text \<open>
  \<open>L\<close> gives the number of sources of each load balancer. A source is well formed when no alias of a
  hosts file is empty and every load balancer has sources; the world is in order when every router
  points at a source.
\<close>

primrec wfSource :: "(nat \<rightharpoonup> nat) \<Rightarrow> source \<Rightarrow> bool" where
  "wfSource L (HostFile h) = (\<forall>(k, v) \<in> set (cnameEntries h). v \<noteq> [])"
| "wfSource L (Zone z) = True"
| "wfSource L System = True"
| "wfSource L (Dns d) = True"
| "wfSource L (ResolverSrc n) = True"
| "wfSource L (Resolv path search up) = pred_option (wfSource L) up"
| "wfSource L (FileSrc path s) = wfSource L s"
| "wfSource L (Multi n ss) = list_all (wfSource L) ss"
| "wfSource L (Lb i n ss) = (ss \<noteq> [] \<and> L i = Some (length ss) \<and> list_all (wfSource L) ss)"

definition lbOk :: "(nat \<rightharpoonup> nat) \<Rightarrow> 'b world \<Rightarrow> bool" where
  "lbOk L w \<longleftrightarrow> (\<forall>i n. L i = Some n \<longrightarrow> wLb w i < n)"

definition wfMap :: "(nat \<rightharpoonup> nat) \<Rightarrow> resolverMap \<Rightarrow> bool" where
  "wfMap L rm \<longleftrightarrow> (\<forall>(name, rv) \<in> set rm. rvName rv = name \<and> list_all (wfSource L) (rvSources rv))"

text \<open>
  \<open>settles L V r st\<close>: the run \<open>r\<close>, started in \<open>st\<close>, returns; routers stay in order; no resolver name is
  forgotten or visited twice.
\<close>

definition okState :: "(nat \<rightharpoonup> nat) \<Rightarrow> 'b rstate \<Rightarrow> bool" where
  "okState L st \<longleftrightarrow> lbOk L (fst st) \<and> distinct (rcVisited (snd st))"

definition settles :: "(nat \<rightharpoonup> nat) \<Rightarrow> ('a \<times> 'b rstate) run \<Rightarrow> 'b rstate \<Rightarrow> bool" where
  "settles L r st \<longleftrightarrow> (\<exists>a st'. r = Ret (a, st') \<and> okState L st' \<and> set (rcVisited (snd st)) \<subseteq> set (rcVisited (snd st')))"

definition settling :: "(nat \<rightharpoonup> nat) \<Rightarrow> string set \<Rightarrow> 'b srcFun \<Rightarrow> bool" where
  "settling L V f \<longleftrightarrow> (\<forall>request st. msgQuestion request \<noteq> [] \<longrightarrow> okState L st \<longrightarrow> V \<subseteq> set (rcVisited (snd st)) \<longrightarrow>
     settles L (f request st) st)"

lemma settlingI:
  "(\<And>request w c. msgQuestion request \<noteq> [] \<Longrightarrow> okState L (w, c) \<Longrightarrow> V \<subseteq> set (rcVisited c) \<Longrightarrow>
     settles L (f request (w, c)) (w, c)) \<Longrightarrow> settling L V f"
  by (auto simp: settling_def)

lemma settlingD:
  "settling L V f \<Longrightarrow> msgQuestion request \<noteq> [] \<Longrightarrow> okState L st \<Longrightarrow> V \<subseteq> set (rcVisited (snd st)) \<Longrightarrow>
     settles L (f request st) st"
  unfolding settling_def by blast

lemma settles_Ret: "okState L st \<Longrightarrow> settles L (Ret (a, st)) st"
  by (auto simp: settles_def)

lemma settles_Ret': "okState L st' \<Longrightarrow> rcVisited (snd st') = rcVisited (snd st) \<Longrightarrow> settles L (Ret (a, st')) st"
  by (auto simp: settles_def)

lemma settles_bind:
  assumes "settles L r st"
    and "\<And>a st'. okState L st' \<Longrightarrow> set (rcVisited (snd st)) \<subseteq> set (rcVisited (snd st')) \<Longrightarrow> settles L (f (a, st')) st'"
  shows "settles L (bind_run r f) st"
proof -
  obtain a st' where "r = Ret (a, st')" "okState L st'" "set (rcVisited (snd st)) \<subseteq> set (rcVisited (snd st'))"
    using assms(1) by (auto simp: settles_def)
  with assms(2) [OF this(2,3), of a] show ?thesis
    by (auto simp: settles_def)
qed

lemma okState_upd [simp]:
  "okState L (w\<lparr>wHeap := h\<rparr>, c) = okState L (w, c)" "okState L (tickW w, c) = okState L (w, c)"
  "okState L (w\<lparr>wCache := g\<rparr>, c) = okState L (w, c)"
  "okState L (w, c\<lparr>rcSourceUsed := s\<rparr>) = okState L (w, c)" "okState L (w, c\<lparr>rcResolverUsed := s\<rparr>) = okState L (w, c)"
  "okState L (w, c\<lparr>rcStored := b\<rparr>) = okState L (w, c)" "okState L (w, c\<lparr>rcCached := b\<rparr>) = okState L (w, c)"
  by (simp_all add: okState_def lbOk_def tickW_def)

lemma hostRecords_Ret:
  assumes "\<forall>(k, v) \<in> set (cnameEntries h). v \<noteq> []"
  shows "\<exists>rs. hostRecords S h name t = Ret rs"
proof -
  have c: "\<exists>rs. respondToCNAME D h name a = Ret rs" for D a
    using assms by (auto simp: respondToCNAME_def dest!: map_of_SomeD split: option.splits)
  obtain r1 where r1: "respondToCNAME (srcDns S) h name [] = Ret r1"
    using c by blast
  then show ?thesis
    by (auto simp: hostRecords_def)
qed

lemma settles_ownAnswer:
  assumes "\<exists>mo. answer = Ret mo" "okState L st"
  shows "settles L (ownAnswer D b name answer st) st"
proof -
  obtain mo where mo: "answer = Ret mo"
    using assms(1) by blast
  show ?thesis
    using assms(2) by (cases st; cases mo)
      (auto simp: ownAnswer_def mo allocW_def allocMsg_def Let_def intro!: settles_Ret')
qed

lemma settles_dnsAnswer: "okState L st \<Longrightarrow> settles L (dnsAnswer S d request st) st"
  by (cases st) (auto simp: dnsAnswer_def allocW_def allocMsg_def Let_def intro!: settles_Ret' split: sum.splits option.splits)

lemma settling_multiLoop:
  assumes "\<forall>x \<in> set asks. settling L V (snd x)"
  shows "settling L V (multiLoop D name asks)"
  using assms
proof (induction asks)
  case Nil
  then show ?case
    by (auto simp: settling_def intro: settles_Ret)
next
  case (Cons x asks)
  obtain n ask where x: "x = (n, ask)"
    by (cases x)
  have IH: "settling L V (multiLoop D name asks)" and ask: "settling L V ask"
    using Cons x by auto
  show ?case
    unfolding settling_def
  proof (intro allI impI)
    fix request :: Msg and st :: "'a rstate"
    assume q: "msgQuestion request \<noteq> []" "okState L st" "V \<subseteq> set (rcVisited (snd st))"
    show "settles L (multiLoop D name (x # asks) request st) st"
      unfolding x multiLoop.simps
    proof (rule settles_bind)
      show "settles L (ask request st) st"
        by (rule settlingD [OF ask q])
    next
      fix r and st' :: "'a rstate" assume st': "okState L st'" "set (rcVisited (snd st)) \<subseteq> set (rcVisited (snd st'))"
      have "settles L (multiLoop D name asks request st') st'"
        by (rule settlingD [OF IH q(1) st'(1)]) (use q(3) st'(2) in blast)
      then show "settles L (case (r, st') of (r, w, ctx) \<Rightarrow> (case r of
          Inl e \<Rightarrow> multiLoop D name asks request (w, ctx)
        | Inr p \<Rightarrow> if \<not> emptyAt D w p then Ret (Inr p, (w, ctx\<lparr>rcSourceUsed := ''ms:'' @ name @ ''('' @ n @ '')''\<rparr>))
                   else multiLoop D name asks request (w, ctx))) st'"
        using st'(1) by (cases st'; cases r) (auto intro: settles_Ret')
    qed
  qed
qed

lemma routerAsk_ok:
  assumes "okState L (w, c)" "L i = Some n"
  shows "fst (routerAsk i n w) < n" "okState L (snd (routerAsk i n w), c)"
proof -
  have "0 < n"
    using assms unfolding okState_def lbOk_def by (metis fst_conv gr_zeroI not_less_zero)
  then show "fst (routerAsk i n w) < n" "okState L (snd (routerAsk i n w), c)"
    using assms by (auto simp: routerAsk_def okState_def lbOk_def)
qed

lemma settling_lbLoop:
  assumes "\<forall>x \<in> set asks. settling L V (snd x)" "L i = Some (length asks)"
  shows "settling L V (lbLoop D i name asks tries)"
proof (induction tries)
  case 0
  then show ?case
    by (auto simp: settling_def intro: settles_Ret)
next
  case (Suc tries)
  show ?case
    unfolding settling_def
  proof (intro allI impI)
    fix request :: Msg and st :: "'a rstate"
    assume q: "msgQuestion request \<noteq> []" "okState L st" "V \<subseteq> set (rcVisited (snd st))"
    obtain w c where st: "st = (w, c)"
      by (cases st)
    obtain idx w1 where r: "routerAsk i (length asks) w = (idx, w1)"
      by (cases "routerAsk i (length asks) w")
    have ok: "idx < length asks" "okState L (w1, c)"
      using routerAsk_ok [of L w c i "length asks"] assms(2) q(2) r st by auto
    have "settles L (bind_run (snd (asks ! idx) request (w1, c)) (\<lambda>(r, (w, ctx)).
        case r of
          Inr p \<Rightarrow> if \<not> emptyAt D w p
                   then Ret (Inr p, (w, ctx\<lparr>rcSourceUsed := ''lb:'' @ name @ ''('' @ fst (asks ! idx) @ '')''\<rparr>))
                   else lbLoop D i name asks tries request (w, ctx)
        | Inl e \<Rightarrow> lbLoop D i name asks tries request (w, ctx))) (w1, c)"
    proof (rule settles_bind)
      show "settles L (snd (asks ! idx) request (w1, c)) (w1, c)"
        by (rule settlingD) (use assms(1) ok q st in auto)
    next
      fix r and st' :: "'a rstate" assume st': "okState L st'" "set (rcVisited (snd (w1, c))) \<subseteq> set (rcVisited (snd st'))"
      have "settles L (lbLoop D i name asks tries request st') st'"
        by (rule settlingD [OF Suc q(1) st'(1)]) (use q(3) st st'(2) in auto)
      then show "settles L (case (r, st') of (r, w, ctx) \<Rightarrow> (case r of
          Inl e \<Rightarrow> lbLoop D i name asks tries request (w, ctx)
        | Inr p \<Rightarrow> if \<not> emptyAt D w p
                   then Ret (Inr p, (w, ctx\<lparr>rcSourceUsed := ''lb:'' @ name @ ''('' @ fst (asks ! idx) @ '')''\<rparr>))
                   else lbLoop D i name asks tries request (w, ctx))) st'"
        using st'(1) by (cases st'; cases r) (auto intro: settles_Ret')
    qed
    then show "settles L (lbLoop D i name asks (Suc tries) request st) st"
      using r ok st by (simp add: settles_def)
  qed
qed

text \<open>A recursive call is only made for a name that was not visited.\<close>

definition settlingRec :: "(nat \<rightharpoonup> nat) \<Rightarrow> string set \<Rightarrow> (string \<Rightarrow> 'b srcFun) \<Rightarrow> bool" where
  "settlingRec L V rec \<longleftrightarrow> (\<forall>name. settling L V (rec name))"

lemma settling_sourceAnswer:
  assumes "settlingRec L V rec" "wfSource L s"
  shows "settling L V (sourceAnswer S rec s)"
  using assms(2)
proof (induction s)
  case (HostFile h)
  have "\<exists>mo. hostAnswer S h request = Ret mo" for request
  proof (cases "msgQuestion request")
    case (Cons q qs)
    obtain rs where "hostRecords S h (ToLower (Qname q)) (Qtype q) = Ret rs"
      using hostRecords_Ret HostFile by fastforce
    then show ?thesis
      using Cons by (simp add: hostAnswer_def)
  qed (simp add: hostAnswer_def)
  then show ?case
    by (intro settlingI) (auto intro: settles_ownAnswer)
next
  case (Zone z)
  have "\<exists>mo. zoneAnswer S z request = Ret mo" if "msgQuestion request \<noteq> []" for request
    using that by (cases "msgQuestion request") (auto simp: zoneAnswer_def Let_def)
  then show ?case
    by (intro settlingI) (auto intro: settles_ownAnswer)
next
  case System
  have "\<exists>mo. systemAnswer S n request = Ret mo" if "msgQuestion request \<noteq> []" for n request
    using that by (cases "msgQuestion request") (auto simp: systemAnswer_def Let_def)
  then have "settles L (ownAnswer (srcDns S) False ''system'' (systemAnswer S (wTick w) request) (tickW w, c)) (tickW w, c)"
    if "msgQuestion request \<noteq> []" "okState L (w, c)" for request and w :: "'a world" and c
    using that by (intro settles_ownAnswer) auto
  then show ?case
    by (intro settlingI) (auto simp: settles_def)
next
  case (Dns d)
  then show ?case
    by (intro settlingI) (auto intro: settles_dnsAnswer)
next
  case (ResolverSrc n)
  have "settling L V (rec n)"
    using assms(1) by (simp add: settlingRec_def)
  from settlingD [OF this] show ?case
    by (intro settlingI) (auto intro: settles_Ret)
next
  case (Resolv path search up)
  show ?case
  proof (cases up)
    case None
    then show ?thesis
      by (intro settlingI) (auto intro: settles_Ret)
  next
    case (Some s)
    then have IH: "settling L V (sourceAnswer S rec s)"
      using Resolv by auto
    show ?thesis
    proof (intro settlingI)
      fix request :: Msg and w :: "'a world" and c assume q: "msgQuestion request \<noteq> []" "okState L (w, c)" "V \<subseteq> set (rcVisited c)"
      have "settles L (sourceAnswer S rec s request (w, c)) (w, c)"
        by (rule settlingD [OF IH q(1,2)]) (use q(3) in simp)
      then show "settles L (sourceAnswer S rec (Resolv path search up) request (w, c)) (w, c)"
        unfolding Some sourceAnswer.simps option.case
        by (rule settles_bind) (auto intro!: settles_Ret' split: sum.splits)
    qed
  qed
next
  case (FileSrc path s)
  then have "settling L V (sourceAnswer S rec s)"
    by simp
  from settlingD [OF this] show ?case
    by (intro settlingI) auto
next
  case (Multi n ss)
  then have "settling L V (multiLoop (srcDns S) n (map (\<lambda>s. (sourceName s, sourceAnswer S rec s)) ss))"
    by (intro settling_multiLoop) (auto simp: list_all_iff)
  from settlingD [OF this] show ?case
    by (intro settlingI) auto
next
  case (Lb i n ss)
  then have "settling L V (lbLoop (srcDns S) i n (map (\<lambda>s. (sourceName s, sourceAnswer S rec s)) ss) (Suc (length ss)))"
    by (intro settling_lbLoop) (auto simp: list_all_iff)
  from settlingD [OF this] show ?case
    by (intro settlingI) (auto simp del: lbLoop.simps)
qed

lemma settles_answerLoop:
  assumes "settlingRec L V rec" "list_all (wfSource L) ss" "msgQuestion request \<noteq> []" "okState L st" "V \<subseteq> set (rcVisited (snd st))"
  shows "settles L (answerLoop S rec name ss request st) st"
  using assms(2,4,5)
proof (induction ss arbitrary: st)
  case Nil
  then show ?case
    by (simp add: settles_Ret)
next
  case (Cons s ss)
  show ?case
    unfolding answerLoop.simps
  proof (rule settles_bind)
    show "settles L (sourceAnswer S rec s request st) st"
      by (rule settlingD [OF settling_sourceAnswer [OF assms(1)] assms(3)]) (use Cons.prems in auto)
  next
    fix r and st' :: "'a rstate" assume st': "okState L st'" "set (rcVisited (snd st)) \<subseteq> set (rcVisited (snd st'))"
    have "settles L (answerLoop S rec name ss request st') st'"
      by (rule Cons.IH) (use Cons.prems st' in auto)
    then show "settles L (case (r, st') of (r, w, ctx) \<Rightarrow> (case r of
          Inl e \<Rightarrow> answerLoop S rec name ss request (w, ctx)
        | Inr p \<Rightarrow> if \<not> emptyAt (srcDns S) w p then
             Ret (p, (w, if rcResolverUsed ctx = [] then ctx\<lparr>rcResolverUsed := name\<rparr> else ctx))
           else answerLoop S rec name ss request (w, ctx))) st'"
      using st'(1) by (cases st'; cases r) (auto intro: settles_Ret')
  qed
qed

lemma msgQuestion_setQname [simp]: "msgQuestion (setQname n m) = [] \<longleftrightarrow> msgQuestion m = []"
  by (simp add: setQname_def split: list.splits)

lemma settles_searchDomainLoop:
  assumes "settlingRec L V rec" "list_all (wfSource L) (rvSources rv)" "msgQuestion request \<noteq> []"
    and "okState L st" "V \<subseteq> set (rcVisited (snd st))"
  shows "settles L (searchDomainLoop S rec rv original request ds st) st"
  using assms(4,5)
proof (induction ds arbitrary: st)
  case Nil
  then show ?case
    by (simp add: settles_Ret)
next
  case (Cons d ds)
  show ?case
  proof (cases "d = []")
    case True
    then show ?thesis
      using Cons by simp
  next
    case False
    have "settles L (bind_run (resolver_answer S rec rv
          (setQname (Fqdn (srcDns S) (Fqdn (srcDns S) original @ d)) request) st) (\<lambda>(po, (w, ctx)).
        case po of
          Some p \<Rightarrow> if \<not> emptyAt (srcDns S) w (Some p)
                    then Ret (Some p, (redirectReply (srcDns S) original request p w, ctx))
                    else searchDomainLoop S rec rv original request ds (w, ctx)
        | None \<Rightarrow> searchDomainLoop S rec rv original request ds (w, ctx))) st"
    proof (rule settles_bind)
      show "settles L (resolver_answer S rec rv (setQname (Fqdn (srcDns S) (Fqdn (srcDns S) original @ d)) request) st) st"
        unfolding resolver_answer_def
        by (rule settles_answerLoop [OF assms(1,2)]) (use assms(3) Cons.prems in auto)
    next
      fix po and st' :: "'a rstate" assume st': "okState L st'" "set (rcVisited (snd st)) \<subseteq> set (rcVisited (snd st'))"
      have "settles L (searchDomainLoop S rec rv original request ds st') st'"
        by (rule Cons.IH) (use Cons.prems st' in auto)
      then show "settles L (case (po, st') of (po, w, ctx) \<Rightarrow> (case po of
          None \<Rightarrow> searchDomainLoop S rec rv original request ds (w, ctx)
        | Some p \<Rightarrow> if \<not> emptyAt (srcDns S) w (Some p)
                    then Ret (Some p, (redirectReply (srcDns S) original request p w, ctx))
                    else searchDomainLoop S rec rv original request ds (w, ctx))) st'"
        using st'(1) by (cases st'; cases po) (auto simp: redirectReply_def intro: settles_Ret')
    qed
    then show ?thesis
      using False by simp
  qed
qed

lemma settles_searchDomains:
  assumes "settlingRec L V rec" "list_all (wfSource L) (rvSources rv)" "msgQuestion request \<noteq> []"
    and "okState L st" "V \<subseteq> set (rcVisited (snd st))"
  shows "settles L (searchDomains S rec rv request st) st"
  using settles_searchDomainLoop [OF assms] assms(3,4)
  by (cases "msgQuestion request") (auto simp: searchDomains_def Let_def intro: settles_Ret)

lemma queryW_state:
  "fst (snd (queryW S B part request w), c) = snd (queryW S B part request w)"
  "okState L (snd (queryW S B part request w), c) = okState L (w, c)"
  by (auto simp: queryW_def Let_def split: option.splits prod.splits)

lemma storeW_state:
  assumes "okState L st"
  shows "okState L (storeW S B part request p st)" "rcVisited (snd (storeW S B part request p st)) = rcVisited (snd st)"
  using assms by (cases st, auto simp: storeW_def Let_def split: option.splits prod.splits)+

lemma settles_resolverAnswer:
  assumes "settlingRec L (insert (rvName rv) (set (rcVisited (snd st)))) rec" "list_all (wfSource L) (rvSources rv)"
    and "okState L st" "rvName rv \<notin> set (rcVisited (snd st))"
  shows "settles L (resolverAnswer S B rec rv request st) st"
proof (cases "msgQuestion request")
  case Nil
  then show ?thesis
    using assms(3) by (simp add: resolverAnswer_def settles_Ret)
next
  case (Cons q qs)
  let ?V = "insert (rvName rv) (set (rcVisited (snd st)))"
  obtain w0 c0 where st: "st = (w0, c0)"
    by (cases st)
  let ?c = "c0\<lparr>rcVisited := rcVisited c0 @ [rvName rv]\<rparr>"
  obtain cached w1 where qw: "queryW S B (rvName rv) request w0 = (cached, w1)"
    by (cases "queryW S B (rvName rv) request w0")
  have ok1: "okState L (w1, ?c)"
    using queryW_state(2) [of L S B "rvName rv" request w0 c0] qw assms(3,4) st by (auto simp: okState_def)
  have ne: "msgQuestion request \<noteq> []"
    using Cons by simp
  have main: "settles L (bind_run (resolver_answer S rec rv request (w1, ?c)) (\<lambda>(p1, (w2, ctx2)).
      bind_run (if emptyAt (srcDns S) w2 p1 \<and> length (rvSearch rv) > 0
                then bind_run (searchDomains S rec rv request (w2, ctx2)) (\<lambda>(r, (w3, ctx3)).
                       Ret (if \<not> emptyAt (srcDns S) w3 r then r else p1, (w3, ctx3)))
                else Ret (p1, (w2, ctx2))) (\<lambda>(p, st3).
      Ret (p, storeW S B (rvName rv) request p st3)))) (w1, ?c)"
  proof (rule settles_bind)
    show "settles L (resolver_answer S rec rv request (w1, ?c)) (w1, ?c)"
      unfolding resolver_answer_def
      by (rule settles_answerLoop [OF assms(1,2) ne ok1]) (use st in auto)
  next
    fix p1 and st2 :: "'a rstate"
    assume st2: "okState L st2" "set (rcVisited (snd (w1, ?c))) \<subseteq> set (rcVisited (snd st2))"
    obtain w2 c2 where s2: "st2 = (w2, c2)"
      by (cases st2)
    have sd: "settles L (searchDomains S rec rv request (w2, c2)) (w2, c2)"
      by (rule settles_searchDomains [OF assms(1,2) ne]) (use st2 st s2 in auto)
    have "settles L (if emptyAt (srcDns S) w2 p1 \<and> length (rvSearch rv) > 0
          then bind_run (searchDomains S rec rv request (w2, c2)) (\<lambda>(r, (w3, ctx3)).
                 Ret (if \<not> emptyAt (srcDns S) w3 r then r else p1, (w3, ctx3)))
          else Ret (p1, (w2, c2))) (w2, c2)"
      using settles_bind [OF sd, of "\<lambda>(r, (w3, ctx3)). Ret (if \<not> emptyAt (srcDns S) w3 r then r else p1, (w3, ctx3))"] st2(1) s2
      by (auto intro: settles_Ret)
    then show "settles L (case (p1, st2) of (p1, w2, ctx2) \<Rightarrow>
        bind_run (if emptyAt (srcDns S) w2 p1 \<and> length (rvSearch rv) > 0
          then bind_run (searchDomains S rec rv request (w2, ctx2)) (\<lambda>(r, (w3, ctx3)).
                 Ret (if \<not> emptyAt (srcDns S) w3 r then r else p1, (w3, ctx3)))
          else Ret (p1, (w2, ctx2))) (\<lambda>(p, st3). Ret (p, storeW S B (rvName rv) request p st3))) st2"
      unfolding s2 prod.case by (rule settles_bind) (auto intro!: settles_Ret' storeW_state)
  qed
  then have main': "settles L (bind_run (resolver_answer S rec rv request (w1, ?c)) (\<lambda>(p1, (w2, ctx2)).
      bind_run (if emptyAt (srcDns S) w2 p1 \<and> length (rvSearch rv) > 0
                then bind_run (searchDomains S rec rv request (w2, ctx2)) (\<lambda>(r, (w3, ctx3)).
                       Ret (if \<not> emptyAt (srcDns S) w3 r then r else p1, (w3, ctx3)))
                else Ret (p1, (w2, ctx2))) (\<lambda>(p, st3).
      Ret (p, storeW S B (rvName rv) request p st3)))) st"
    unfolding settles_def st by auto
  show ?thesis
    using main' ok1 assms(3) st
    by (auto simp: resolverAnswer_def Cons qw Let_def settles_def)
qed

text \<open>One more unit of fuel than there are resolvers left to visit is enough.\<close>

lemma settling_answerWithContext:
  assumes "wfMap L rm"
  shows "card (fst ` set rm - V) < n \<Longrightarrow> settling L V (answerWithContext n S B rm name)"
proof (induction n arbitrary: V name)
  case (Suc n)
  show ?case
  proof (rule settlingI)
    fix request :: Msg and w :: "'a world" and c
    assume q: "msgQuestion request \<noteq> []" "okState L (w, c)" "V \<subseteq> set (rcVisited c)"
    show "settles L (answerWithContext (Suc n) S B rm name request (w, c)) (w, c)"
    proof (cases "map_of rm name = None \<or> name \<in> set (rcVisited c)")
      case True
      then show ?thesis
        using q(2) by (auto intro: settles_Ret split: option.splits)
    next
      case False
      then obtain rv where rv: "map_of rm name = Some rv"
        by auto
      then have mem: "(name, rv) \<in> set rm"
        by (rule map_of_SomeD)
      then have wf: "rvName rv = name" "list_all (wfSource L) (rvSources rv)"
        using assms by (auto simp: wfMap_def)
      let ?W = "insert (rvName rv) (set (rcVisited (snd (w, c))))"
      have "fst ` set rm - ?W \<subset> fst ` set rm - V"
        using mem False wf(1) q(3) by force
      then have "card (fst ` set rm - ?W) < card (fst ` set rm - V)"
        by (rule psubset_card_mono [rotated]) simp
      then have "settling L ?W (answerWithContext n S B rm k)" for k
        using Suc.prems by (intro Suc.IH) linarith
      then have "settles L (resolverAnswer S B (answerWithContext n S B rm) rv request (w, c)) (w, c)"
        using False wf q(2) by (intro settles_resolverAnswer) (auto simp: settlingRec_def)
      then show ?thesis
        using rv False by (auto intro!: settles_bind settles_Ret)
    qed
  qed
qed simp

lemma settles_mapFuel:
  assumes "wfMap L rm" "msgQuestion request \<noteq> []" "okState L st"
  shows "settles L (answerWithContext (mapFuel rm) S B rm name request st) st"
proof -
  have "card (fst ` set rm - {}) \<le> length rm"
    by (metis Diff_empty card_length length_map set_map)
  then have "card (fst ` set rm - {}) < mapFuel rm"
    by (simp add: mapFuel_def)
  from settlingD [OF settling_answerWithContext [OF assms(1) this] assms(2,3)] show ?thesis
    by simp
qed

lemma multiResolverLoop_returns:
  assumes "wfMap L rm" "msgQuestion request \<noteq> []" "okState L st"
  shows "\<exists>r w. multiResolverLoop S B rm names request errs st = Ret (r, w) \<and> lbOk L w \<and>
    (\<forall>p res. r = Inr (p, res) \<longrightarrow> p = None \<or> \<not> emptyAt (srcDns S) w p)"
  using assms(3)
proof (induction names arbitrary: errs st)
  case Nil
  then show ?case
    by (cases st) (auto simp: okState_def)
next
  case (Cons name names)
  obtain w c where st: "st = (w, c)"
    by (cases st)
  obtain r w' c' where run: "answerWithContext (mapFuel rm) S B rm name request (w, c) = Ret (r, (w', c'))" "okState L (w', c')"
    using settles_mapFuel [OF assms(1,2) Cons.prems, of S B name] unfolding settles_def st by auto
  then show ?case
    using Cons.IH [of "(w', c')"] run(2) by (cases r) (auto simp: st okState_def)
qed

section \<open>Load balancing\<close>

text \<open>The sources the router hands out in \<open>k\<close> questions, from a given position.\<close>

fun routerAsks :: "nat \<Rightarrow> nat \<Rightarrow> nat \<Rightarrow> 'b world \<Rightarrow> nat list \<times> 'b world" where
  "routerAsks i n 0 w = ([], w)"
| "routerAsks i n (Suc k) w =
     (let (idx, w1) = routerAsk i n w; (rest, w2) = routerAsks i n k w1 in (idx # rest, w2))"

lemma routerAsks_eq:
  "wLb w i < n \<Longrightarrow> fst (routerAsks i n k w) = map (\<lambda>j. (wLb w i + j) mod n) [0..<k] \<and>
     wLb (snd (routerAsks i n k w)) i = (wLb w i + k) mod n"
proof (induction k arbitrary: w)
  case (Suc k)
  let ?w = "snd (routerAsk i n w)"
  have n: "0 < n"
    using Suc.prems by simp
  have w: "wLb ?w i = (wLb w i + 1) mod n"
    by (simp add: routerAsk_def)
  have IH: "fst (routerAsks i n k ?w) = map (\<lambda>j. (wLb ?w i + j) mod n) [0..<k]"
    "wLb (snd (routerAsks i n k ?w)) i = (wLb ?w i + k) mod n"
    using Suc.IH [of ?w] n w by simp_all
  have "map (\<lambda>j. (wLb ?w i + j) mod n) [0..<k] = map (\<lambda>j. (wLb w i + Suc j) mod n) [0..<k]"
    by (simp add: w mod_add_left_eq)
  moreover have "[0..<Suc k] = 0 # map Suc [0..<k]"
    by (metis map_Suc_upt upt_conv_Cons zero_less_Suc)
  moreover obtain rest w2 where "routerAsks i n k ?w = (rest, w2)"
    by (cases "routerAsks i n k ?w")
  ultimately show ?case
    using IH Suc.prems w by (simp add: routerAsk_def Let_def comp_def mod_add_left_eq)
qed simp

section \<open>Properties\<close>

text \<open>
  A resolver bound to plain domains (no glob) answers exactly for those domains and their
  subdomains, whatever the case of the configured name; a trailing dot of the question is ignored.
\<close>

theorem domainMatches_plain:
  assumes "ds \<noteq> []" "\<forall>d \<in> set ds. CHR ''*'' \<notin> set (ToLower d)"
  shows "domainMatches glob question ds \<longleftrightarrow>
    (let q = (if HasSuffix question ''.'' then butlast question else question) in
     \<exists>d \<in> set ds. q = ToLower d \<or> (\<exists>pre. q = pre @ ''.'' @ ToLower d))"
proof -
  have "domainLoop glob q ds \<longleftrightarrow> (\<exists>d \<in> set ds. q = ToLower d \<or> (\<exists>pre. q = pre @ ''.'' @ ToLower d))" for q
    using assms(2)
  proof (induction ds)
    case (Cons d ds)
    have "HasSuffix q (''.'' @ ToLower d) \<longleftrightarrow> (\<exists>pre. q = pre @ ''.'' @ ToLower d)"
      by (simp add: HasSuffix_iff suffix_def)
    then show ?case
      using Cons by (auto simp: Let_def)
  qed simp
  then show ?thesis
    using assms(1) by (simp add: domainMatches_def Let_def)
qed

theorem domainMatches_plain_witness:
  "domainMatches (\<lambda>p s. False) ''nas.home.'' [''Home'']"
proof -
  have l: "ToLower ''Home'' = ''home''" "CHR ''*'' \<notin> set ''home''"
    by code_simp+
  have h: "HasSuffix ''nas.home.'' ''.''"
    by (simp add: HasSuffix_snoc)
  have "\<exists>pre. ''nas.home'' = pre @ ''.'' @ ''home''"
    by (rule exI [of _ "''nas''"]) simp
  then show ?thesis
    using domainMatches_plain [of "[''Home'']" "\<lambda>p s. False" "''nas.home.''"] l h by (simp add: Let_def)
qed

text \<open>
  A glob among the domains of a resolver decides alone: whatever follows it in the list is not
  looked at.
\<close>

theorem glob_domain_decides:
  assumes "CHR ''*'' \<in> set (ToLower g)" "\<forall>d \<in> set pre. CHR ''*'' \<notin> set (ToLower d)"
    and "\<not> domainLoop glob q pre"
  shows "domainLoop glob q (pre @ g # post) = glob (ToLower g) q"
  using assms(2,3) by (induction pre) (auto simp: Let_def assms(1))

theorem glob_domain_decides_witness:
  "domainLoop (\<lambda>p s. False) ''a.lan'' ([] @ ''*.home'' # [''lan'']) = False \<and> domainLoop (\<lambda>p s. False) ''a.lan'' [''lan'']"
proof -
  have "CHR ''*'' \<in> set (ToLower ''*.home'')" "domainLoop (\<lambda>p s. False) ''a.lan'' [''lan'']"
    by code_simp+
  then show ?thesis
    using glob_domain_decides [of "''*.home''" "[]" "\<lambda>p s. False" "''a.lan''" "[''lan'']"] by simp
qed

text \<open>
  A load balancer rotates: \<open>k\<close> questions to its router, from position \<open>i\<close> on, are answered by the
  sources \<open>i\<close>, \<open>i + 1\<close>, and so on, modulo their number; any as many consecutive questions as there are
  sources reach every source.
\<close>

theorem load_balancer_rotates:
  assumes "wLb w i < n"
  shows "fst (routerAsks i n k w) = map (\<lambda>j. (wLb w i + j) mod n) [0..<k] \<and>
    wLb (snd (routerAsks i n k w)) i = (wLb w i + k) mod n \<and>
    (n \<le> k \<longrightarrow> set (fst (routerAsks i n k w)) = {..<n})"
proof -
  have "x \<in> (\<lambda>j. (wLb w i + j) mod n) ` {0..<k}" if "x < n" "n \<le> k" for x
  proof (cases "wLb w i \<le> x")
    case True
    then show ?thesis
      using that by (intro image_eqI [of _ _ "x - wLb w i"]) auto
  next
    case False
    then have "(wLb w i + (x + n - wLb w i)) mod n = x"
      using that assms by simp
    then show ?thesis
      using False that assms by (intro image_eqI [of _ _ "x + n - wLb w i"]) auto
  qed
  then have "n \<le> k \<Longrightarrow> (\<lambda>j. (wLb w i + j) mod n) ` {0..<k} = {..<n}"
    using assms by auto
  then show ?thesis
    using routerAsks_eq [OF assms, of k] by simp
qed

theorem load_balancer_rotates_witness:
  "fst (routerAsks 0 3 4 (\<lparr>wHeap = [], wCache = None, wTick = 0, wLb = (\<lambda>_. 2)\<rparr> :: nat world)) = [2, 0, 1, 2]"
  using load_balancer_rotates [of "\<lparr>wHeap = [], wCache = None, wTick = 0, wLb = (\<lambda>_. 2)\<rparr> :: nat world" 0 3 4]
  by (simp add: upt_rec)

text \<open>
  A resolver that finds the question in its cache answers from there: nothing is asked of any
  source, the context is marked as cached and as not to be stored again, and the cache is unchanged.
\<close>

theorem cached_answer_asks_no_source:
  assumes "msgQuestion request = q # qs" "\<not> skips S rv (ToLower (Qname q))" "wCache w = Some c"
    and "cacheQuery (srcDns S) B (clock S (wTick w)) (wHeap w) c (rvName rv) request = (Some p, h)"
    and "\<not> IsEmptyResponse (srcDns S) (deref h (Some p))"
  shows "resolverAnswer S B rec rv request (w, ctx) = Ret (Some p, ((tickW w)\<lparr>wHeap := h\<rparr>,
    ctx\<lparr>rcVisited := rcVisited ctx @ [rvName rv], rcCached := True, rcStored := True,
      rcResolverUsed := (if rcResolverUsed ctx = [] then rvName rv else rcResolverUsed ctx)\<rparr>))"
  using assms by (simp add: resolverAnswer_def queryW_def emptyAt_def)

definition demoWorld :: "(string \<times> envelope \<times> int) list world" where
  "demoWorld = \<lparr>wHeap = [demoReply ''a.com.'' 60], wCache = Some \<lparr>backers = [(''up'', [(''a.com.|in|a'', \<lparr>envMessage = 0, envTime = 0\<rparr>, 60000000000)])]\<rparr>,
     wTick = 5, wLb = (\<lambda>_. 0)\<rparr>"

theorem cached_answer_asks_no_source_witness:
  "\<exists>h. resolverAnswer demoSrc demoBacker (\<lambda>n r s. NoFuel) \<lparr>rvName = ''up'', rvDomains = [], rvSkip = [], rvSearch = [], rvSources = []\<rparr>
     (demoQuery ''A.com.'') (demoWorld, DefaultResolutionContext) =
   Ret (Some 1, ((tickW demoWorld)\<lparr>wHeap := h\<rparr>, \<lparr>rcVisited = [''up''], rcStored = True, rcResolverUsed = ''up'', rcSourceUsed = [], rcCached = True\<rparr>))"
proof -
  let ?rv = "\<lparr>rvName = ''up'', rvDomains = [], rvSkip = [], rvSearch = [], rvSources = []\<rparr>"
  let ?q = "\<lparr>Qname = ''A.com.'', Qtype = TypeA, Qclass = ClassINET\<rparr>"
  let ?h = "[demoReply ''a.com.'' 60, (demoReply ''a.com.'' 55)\<lparr>msgId := 7\<rparr>]"
  have "cacheQuery demoDns demoBacker (clock demoSrc (wTick demoWorld)) (wHeap demoWorld) (the (wCache demoWorld)) ''up'' (demoQuery ''A.com.'') = (Some 1, ?h)"
    "\<not> IsEmptyResponse demoDns (deref ?h (Some 1))"
    by code_simp+
  then show ?thesis
    using cached_answer_asks_no_source [of "demoQuery ''A.com.''" ?q "[]" demoSrc ?rv demoWorld _ demoBacker 1 ?h "\<lambda>n r s. NoFuel" DefaultResolutionContext]
    by (auto simp: demoQuery_def newMsg_def skips_def demoWorld_def demoSrc_def DefaultResolutionContext_def)
qed

end
