(* ===== verification/Resolver_Init.thy ===== *)
theory Resolver_Init
  imports Resolver
begin

text \<open>
  How \<^verbatim>\<open>src/resolver\<close> builds its sources and resolvers from the configuration: \<open>NewSource\<close>,
  \<open>NewConfigurationSource\<close>, \<open>newSharedSourceResolver\<close> and \<open>NewResolverMap\<close>, and what the reload of a watched
  file does to the resolvers.

  Sources are shared by pointer between resolvers. A source value stands for its pointer: the only
  state that changes after the construction is the position of a load balancer, which the world
  keeps under the number given here, and the content of a file source, which \<open>reloadSource\<close> replaces
  wherever the file is used. A \<open>resolv.conf\<close> may name a further file, without bound; \<open>NewSource\<close> has fuel.
\<close>

section \<open>source.go\<close>

definition localServers :: "string list" where
  "localServers = [''127.0.0.1'', ''::1'', ''::'']"

fun newSources :: "(string \<Rightarrow> source run) \<Rightarrow> string list \<Rightarrow> source list run" where
  "newSources new [] = Ret []"
| "newSources new (server # servers) =
     (if StringIn server localServers then newSources new servers
      else bind_run (new server) (\<lambda>s. bind_run (newSources new servers) (\<lambda>ss. Ret (s # ss))))"

text \<open>\<open>resolvSource.Load\<close> on a new source; a file that cannot be read leaves it without an upstream.\<close>

definition resolvLoad :: "srclib \<Rightarrow> (string \<Rightarrow> source run) \<Rightarrow> string \<Rightarrow> source run" where
  "resolvLoad S new path = (case clientConfig S path of
       None \<Rightarrow> Ret (Resolv path [] None)
     | Some (servers, search) \<Rightarrow>
         bind_run (newSources new servers) (\<lambda>ss.
           Ret (Resolv path search
             (if length ss > 1 then Some (Multi path ss)
              else if length ss = 1 then Some (hd ss) else None))))"

fun NewSource :: "nat \<Rightarrow> srclib \<Rightarrow> string \<Rightarrow> source run" where
  "NewSource 0 S spec = NoFuel"
| "NewSource (Suc n) S spec =
     (if statExists S spec then
        bind_run (if srcGlob S ''*.db'' spec then Ret (Zone (zoneLoad S emptyZone spec))
                  else if srcGlob S ''*.conf'' spec then resolvLoad S (NewSource n S) spec
                  else Ret (HostFile (hostLoad S emptyHostFile spec)))
          (\<lambda>s. Ret (FileSrc spec s))
      else if ParseIP spec \<noteq> None \<or> Contains spec '':'' \<or> Contains spec ''/'' then Ret (Dns (dnsLoad spec))
      else Ret (ResolverSrc spec))"

text \<open>The shared sources by specification and the number of the next load balancer.\<close>

type_synonym shared = "(string \<times> source) list \<times> nat"

fun specSources :: "nat \<Rightarrow> srclib \<Rightarrow> string list \<Rightarrow> shared \<Rightarrow> (source list \<times> shared) run" where
  "specSources n S [] sh = Ret ([], sh)"
| "specSources n S (spec # specs) (m, i) =
     bind_run (case map_of m spec of Some s \<Rightarrow> Ret s | None \<Rightarrow> NewSource n S spec) (\<lambda>s.
     bind_run (specSources n S specs (AList.update spec s m, i)) (\<lambda>(ss, sh). Ret (s # ss, sh)))"

definition NewConfigurationSource :: "nat \<Rightarrow> srclib \<Rightarrow> GudgeonSource \<Rightarrow> shared \<Rightarrow> (source option \<times> shared) run" where
  "NewConfigurationSource n S c sh0 =
     bind_run (specSources n S (srSpecs c) sh0) (\<lambda>(ss, (m, i)).
       Ret (if length ss > 1 then
              (if srLoadBalance c then (Some (Lb i (srName c) ss), (m, Suc i)) else (Some (Multi (srName c) ss), (m, i)))
            else if length ss > 0 then (Some (hd ss), (m, i))
            else (None, (m, i))))"

section \<open>resolver.go: construction\<close>

fun resolverSources :: "nat \<Rightarrow> srclib \<Rightarrow> string \<Rightarrow> (string \<times> source) list \<Rightarrow> string list \<Rightarrow> shared \<Rightarrow> (source list \<times> shared) run" where
  "resolverSources n S name configured [] sh = Ret ([], sh)"
| "resolverSources n S name configured (spec # specs) (m, i) =
     (let fromConfig = (case map_of configured spec of Some s \<Rightarrow> [s] | None \<Rightarrow> []) in
      bind_run (if name = ''system'' \<and> spec = ''system'' then Ret ([System], m)
                else case map_of m spec of
                    Some s \<Rightarrow> Ret ([s], m)
                  | None \<Rightarrow> bind_run (NewSource n S spec) (\<lambda>s.
                      Ret (if sourceName s \<noteq> [] then ([s], AList.update spec s m) else ([], m))))
        (\<lambda>(own, m').
      bind_run (resolverSources n S name configured specs (m', i)) (\<lambda>(ss, sh).
        Ret (fromConfig @ own @ ss, sh))))"

definition newSharedSourceResolver :: "nat \<Rightarrow> srclib \<Rightarrow> (string \<times> source) list \<Rightarrow> GudgeonResolver \<Rightarrow> shared \<Rightarrow> (resolver option \<times> shared) run" where
  "newSharedSourceResolver n S configured c sh0 =
     (if rsName c = [] then Ret (None, sh0)
      else
        let hosts = (if length (rsHosts c) > 0 then [HostFile (LoadArray (srcDns S) (rsHosts c))] else []) in
        bind_run (resolverSources n S (rsName c) configured (rsSources c) sh0) (\<lambda>(ss, sh).
          Ret (Some \<lparr>rvName = rsName c, rvDomains = rsDomains c, rvSkip = rsSkipDomains c, rvSearch = rsSearch c,
                     rvSources = hosts @ ss\<rparr>, sh)))"

section \<open>resolver\_map.go: construction\<close>

fun configuredLoop :: "nat \<Rightarrow> srclib \<Rightarrow> GudgeonSource option list \<Rightarrow> (string \<times> source) list \<Rightarrow> shared
    \<Rightarrow> ((string \<times> source) list \<times> shared) run" where
  "configuredLoop n S [] configured sh = Ret (configured, sh)"
| "configuredLoop n S (None # cs) configured sh = Panic"
| "configuredLoop n S (Some c # cs) configured sh =
     bind_run (NewConfigurationSource n S c sh) (\<lambda>(so, sh').
       configuredLoop n S cs (case so of None \<Rightarrow> configured | Some s \<Rightarrow> AList.update (srName c) s configured) sh')"

fun resolverMapLoop :: "nat \<Rightarrow> srclib \<Rightarrow> (string \<times> source) list \<Rightarrow> GudgeonResolver option list \<Rightarrow> resolverMap \<Rightarrow> shared
    \<Rightarrow> resolverMap run" where
  "resolverMapLoop n S configured [] rm sh = Ret rm"
| "resolverMapLoop n S configured (None # cs) rm sh = Panic"
| "resolverMapLoop n S configured (Some c # cs) rm sh =
     bind_run (newSharedSourceResolver n S configured c sh) (\<lambda>(ro, sh').
       resolverMapLoop n S configured cs (case ro of None \<Rightarrow> rm | Some r \<Rightarrow> AList.update (rvName r) r rm) sh')"

definition NewResolverMap :: "nat \<Rightarrow> srclib \<Rightarrow> GudgeonSource option list \<Rightarrow> GudgeonResolver option list \<Rightarrow> resolverMap run" where
  "NewResolverMap n S sources resolvers =
     bind_run (configuredLoop n S sources [] ([], 0)) (\<lambda>(configured, sh).
       resolverMapLoop n S configured resolvers [] sh)"

section \<open>file\_source.go: reload\<close>

text \<open>
  \<open>fileSource.Load\<close> again, after its file changed: the inner source loads the file anew. A source that
  cannot read its file keeps what it had, except that a zone is emptied.
\<close>

fun reloadInner :: "nat \<Rightarrow> srclib \<Rightarrow> string \<Rightarrow> source \<Rightarrow> source run" where
  "reloadInner n S path (HostFile h) = Ret (HostFile (hostLoad S h path))"
| "reloadInner n S path (Zone z) = Ret (Zone (zoneLoad S z path))"
| "reloadInner n S path (Resolv p search up) = (case clientConfig S path of
       None \<Rightarrow> Ret (Resolv path search up)
     | Some (servers, search') \<Rightarrow>
         bind_run (newSources (NewSource n S) servers) (\<lambda>ss.
           Ret (Resolv path search'
             (if length ss > 1 then Some (Multi path ss)
              else if length ss = 1 then Some (hd ss) else up))))"
| "reloadInner n S path s = Ret s"

fun mapRun :: "('a \<Rightarrow> 'b run) \<Rightarrow> 'a list \<Rightarrow> 'b list run" where
  "mapRun f [] = Ret []"
| "mapRun f (x # xs) = bind_run (f x) (\<lambda>y. bind_run (mapRun f xs) (\<lambda>ys. Ret (y # ys)))"

lemma mapRun_cong [fundef_cong]:
  "xs = ys \<Longrightarrow> (\<And>x. x \<in> set ys \<Longrightarrow> f x = g x) \<Longrightarrow> mapRun f xs = mapRun g ys"
  by (induction xs arbitrary: ys) auto

fun reloadSource :: "nat \<Rightarrow> srclib \<Rightarrow> string \<Rightarrow> source \<Rightarrow> source run" where
  "reloadSource n S path (FileSrc p s) =
     (if p = path then bind_run (reloadInner n S path s) (\<lambda>s'. Ret (FileSrc p s')) else Ret (FileSrc p s))"
| "reloadSource n S path (Multi name ss) = bind_run (mapRun (reloadSource n S path) ss) (\<lambda>ss'. Ret (Multi name ss'))"
| "reloadSource n S path (Lb i name ss) = bind_run (mapRun (reloadSource n S path) ss) (\<lambda>ss'. Ret (Lb i name ss'))"
| "reloadSource n S path s = Ret s"

definition fileSourceChanged :: "nat \<Rightarrow> srclib \<Rightarrow> 'b backer \<Rightarrow> string \<Rightarrow> resolverMap \<Rightarrow> 'b world \<Rightarrow> (resolverMap \<times> 'b world) run" where
  "fileSourceChanged n S B path rm w =
     bind_run (mapRun (\<lambda>(name, rv). bind_run (mapRun (reloadSource n S path) (rvSources rv)) (\<lambda>ss.
         Ret (name, rv\<lparr>rvSources := ss\<rparr>))) rm) (\<lambda>rm'.
       Ret (rm', clearW B w))"

section \<open>What is built is well formed\<close>

lemma Fqdn_nonempty: "Fqdn_ok D \<Longrightarrow> Fqdn D s \<noteq> []"
  unfolding Fqdn_ok_def HasSuffix_snoc by blast

lemma set_AList_update: "set (AList.update k v m) \<subseteq> insert (k, v) (set m)"
  by (induction m) auto

definition aliasesOk :: "hostFileSource \<Rightarrow> bool" where
  "aliasesOk h \<longleftrightarrow> (\<forall>(k, v) \<in> set (cnameEntries h). v \<noteq> [])"

lemma hostDomains_aliases [simp]: "cnameEntries (hostDomains D a ds h) = cnameEntries h"
  by (induction ds arbitrary: h) (auto simp: Let_def)

lemma hostAliases_ok: "Fqdn_ok D \<Longrightarrow> aliasesOk h \<Longrightarrow> aliasesOk (hostAliases D address as h)"
proof (induction as arbitrary: h)
  case (Cons a as)
  have "aliasesOk (h\<lparr>cnameEntries := AList.update (Fqdn D a) (Fqdn D address) (cnameEntries h)\<rparr>)"
    using Cons.prems set_AList_update [of "Fqdn D a" "Fqdn D address" "cnameEntries h"] Fqdn_nonempty [of D address]
    unfolding aliasesOk_def by auto
  then show ?case
    using Cons by auto
qed simp

lemma hostLine_ok: "Fqdn_ok D \<Longrightarrow> aliasesOk h \<Longrightarrow> aliasesOk (hostLine D h line)"
  by (auto simp: hostLine_def Let_def hostAliases_ok split: option.splits) (simp add: aliasesOk_def)

lemma LoadArray_ok: "Fqdn_ok D \<Longrightarrow> aliasesOk (LoadArray D lines)"
proof -
  assume D: "Fqdn_ok D"
  have "aliasesOk h \<Longrightarrow> aliasesOk (foldl (hostLine D) h lines)" for h
    by (induction lines arbitrary: h) (auto simp: hostLine_ok [OF D])
  moreover have "aliasesOk (emptyHostFile\<lparr>hfPath := ''hosts''\<rparr>)"
    by (simp add: aliasesOk_def emptyHostFile_def)
  ultimately show ?thesis
    by (simp only: LoadArray_def)
qed

lemma hostLoad_ok: "Fqdn_ok (srcDns S) \<Longrightarrow> aliasesOk h \<Longrightarrow> aliasesOk (hostLoad S h path)"
  using LoadArray_ok [of "srcDns S"] by (auto simp: hostLoad_def aliasesOk_def split: option.splits)

lemma wfSource_HostFile: "wfSource L (HostFile h) = aliasesOk h"
  by (simp add: aliasesOk_def)

lemma wfSource_mono: "wfSource L s \<Longrightarrow> L \<subseteq>\<^sub>m L' \<Longrightarrow> wfSource L' s"
proof (induction s)
  case (Resolv path search up)
  then show ?case by (cases up) auto
next
  case (Lb i n ss)
  then have "L' i = Some (length ss)"
    by (metis domI map_le_def wfSource.simps(9))
  with Lb show ?case
    by (auto simp: list_all_iff)
qed (auto simp: list_all_iff)

lemma newSources_ok:
  assumes "\<And>spec s. new spec = Ret s \<Longrightarrow> wfSource L s" "newSources new servers = Ret ss"
  shows "list_all (wfSource L) ss"
  using assms(2)
proof (induction servers arbitrary: ss)
  case (Cons v vs)
  then show ?case
    using assms(1) by (auto simp: bind_run_Ret_iff split: if_splits)
qed simp

lemma resolvLoad_ok:
  assumes "\<And>spec s. new spec = Ret s \<Longrightarrow> wfSource L s" "resolvLoad S new path = Ret s"
  shows "wfSource L s"
proof (cases "clientConfig S path")
  case None
  then show ?thesis
    using assms(2) by (auto simp: resolvLoad_def)
next
  case (Some c)
  obtain servers search where c: "c = (servers, search)"
    by (cases c)
  obtain ss where ss: "newSources new servers = Ret ss"
    "s = Resolv path search (if length ss > 1 then Some (Multi path ss) else if length ss = 1 then Some (hd ss) else None)"
    using assms(2) Some c by (auto simp: resolvLoad_def bind_run_Ret_iff)
  have "list_all (wfSource L) ss"
    by (rule newSources_ok [OF assms(1) ss(1)])
  then show ?thesis
    by (cases ss) (auto simp: ss(2))
qed

lemma NewSource_ok:
  assumes "Fqdn_ok (srcDns S)"
  shows "NewSource n S spec = Ret s \<Longrightarrow> wfSource L s"
proof (induction n arbitrary: spec s)
  case (Suc n)
  have "aliasesOk (hostLoad S emptyHostFile spec)"
    by (rule hostLoad_ok [OF assms]) (simp add: aliasesOk_def emptyHostFile_def)
  moreover have "wfSource L a" if "resolvLoad S (NewSource n S) spec = Ret a" for a
    by (rule resolvLoad_ok [OF Suc.IH that])
  ultimately show ?case
    using Suc.prems by (auto simp: bind_run_Ret_iff wfSource_HostFile simp del: wfSource.simps(1) split: if_splits)
qed simp

text \<open>The sources built so far, and the load balancers among them, numbered below the counter.\<close>

definition sharedOk :: "(nat \<rightharpoonup> nat) \<Rightarrow> shared \<Rightarrow> bool" where
  "sharedOk L sh \<longleftrightarrow> (\<forall>(k, s) \<in> set (fst sh). wfSource L s) \<and> (\<forall>i n. L i = Some n \<longrightarrow> i < snd sh \<and> 0 < n)"

lemma sharedOk_update:
  "sharedOk L (m, i) \<Longrightarrow> wfSource L s \<Longrightarrow> sharedOk L (AList.update k s m, i)"
  using set_AList_update [of k s m] unfolding sharedOk_def by auto

lemma sharedOk_lookup: "sharedOk L (m, i) \<Longrightarrow> map_of m k = Some s \<Longrightarrow> wfSource L s"
  by (auto simp: sharedOk_def dest!: map_of_SomeD)

lemma specSources_ok:
  assumes "Fqdn_ok (srcDns S)" "sharedOk L (m, i)" "specSources n S specs (m, i) = Ret (ss, sh')"
  shows "list_all (wfSource L) ss \<and> sharedOk L sh' \<and> snd sh' = i"
  using assms(2,3)
proof (induction specs arbitrary: m ss)
  case (Cons spec specs)
  obtain s ss1 where s: "(case map_of m spec of Some s \<Rightarrow> Ret s | None \<Rightarrow> NewSource n S spec) = Ret s"
    "specSources n S specs (AList.update spec s m, i) = Ret (ss1, sh')" "ss = s # ss1"
    using Cons.prems(2) by (auto simp: bind_run_Ret_iff)
  have "wfSource L s"
    using s(1) NewSource_ok [OF assms(1)] sharedOk_lookup [OF Cons.prems(1)] by (auto split: option.splits)
  then show ?case
    using Cons.IH [OF sharedOk_update [OF Cons.prems(1)] s(2)] s(3) by simp
qed auto

lemma NewConfigurationSource_ok:
  assumes "Fqdn_ok (srcDns S)" "sharedOk L (m, i)" "NewConfigurationSource n S c (m, i) = Ret (so, sh')"
  shows "\<exists>L'. L \<subseteq>\<^sub>m L' \<and> sharedOk L' sh' \<and> pred_option (wfSource L') so"
proof -
  obtain ss m' where ss: "specSources n S (srSpecs c) (m, i) = Ret (ss, (m', i))"
    "list_all (wfSource L) ss" "sharedOk L (m', i)"
    "(so, sh') = (if length ss > 1 then
              (if srLoadBalance c then (Some (Lb i (srName c) ss), (m', Suc i)) else (Some (Multi (srName c) ss), (m', i)))
            else if length ss > 0 then (Some (hd ss), (m', i)) else (None, (m', i)))"
    using assms(3) specSources_ok [OF assms(1,2)] unfolding NewConfigurationSource_def
    by (fastforce simp: bind_run_Ret_iff split: prod.splits)
  show ?thesis
  proof (cases "length ss > 1 \<and> srLoadBalance c")
    case True
    let ?L = "L(i \<mapsto> length ss)"
    have "L i = None"
      using ss(3) unfolding sharedOk_def by (metis less_irrefl not_None_eq snd_conv)
    then have le: "L \<subseteq>\<^sub>m ?L"
      by (auto simp: map_le_def)
    have "list_all (wfSource ?L) ss" "\<forall>(k, s) \<in> set m'. wfSource ?L s"
      using ss(2,3) wfSource_mono [OF _ le] by (auto simp: list_all_iff sharedOk_def)
    then show ?thesis
      using True ss(3,4) le by (intro exI [of _ ?L]) (auto simp: sharedOk_def less_Suc_eq)
  next
    case False
    then show ?thesis
      using ss(2-4) by (intro exI [of _ L]) (cases ss; auto split: if_splits)
  qed
qed

lemma configuredLoop_ok:
  assumes "Fqdn_ok (srcDns S)" "sharedOk L sh" "\<forall>(k, s) \<in> set configured. wfSource L s"
    and "configuredLoop n S cs configured sh = Ret (configured', sh')"
  shows "\<exists>L'. L \<subseteq>\<^sub>m L' \<and> sharedOk L' sh' \<and> (\<forall>(k, s) \<in> set configured'. wfSource L' s)"
  using assms(2-4)
proof (induction cs arbitrary: L configured sh)
  case Nil
  then show ?case
    by (intro exI [of _ L]) auto
next
  case (Cons co cs)
  then obtain c so sh1 where c: "co = Some c" "NewConfigurationSource n S c sh = Ret (so, sh1)"
    "configuredLoop n S cs (case so of None \<Rightarrow> configured | Some s \<Rightarrow> AList.update (srName c) s configured) sh1 = Ret (configured', sh')"
    by (cases co) (auto simp: bind_run_Ret_iff)
  obtain m i where sh: "sh = (m, i)"
    by (cases sh)
  obtain L1 where L1: "L \<subseteq>\<^sub>m L1" "sharedOk L1 sh1" "pred_option (wfSource L1) so"
    using NewConfigurationSource_ok [OF assms(1)] c(2) Cons.prems(1) sh by blast
  have "\<forall>(k, s) \<in> set (case so of None \<Rightarrow> configured | Some s \<Rightarrow> AList.update (srName c) s configured). wfSource L1 s"
    using L1 Cons.prems(2) wfSource_mono set_AList_update [of "srName c" _ configured]
    by (cases so) (fastforce simp: pred_option_def)+
  from Cons.IH [OF L1(2) this c(3)] show ?case
    using map_le_trans [OF L1(1)] by blast
qed

lemma resolverSources_ok:
  assumes "Fqdn_ok (srcDns S)" "sharedOk L (m, i)" "\<forall>(k, s) \<in> set configured. wfSource L s"
    and "resolverSources n S name configured specs (m, i) = Ret (ss, sh')"
  shows "list_all (wfSource L) ss \<and> sharedOk L sh'"
  using assms(2,4)
proof (induction specs arbitrary: m ss)
  case (Cons spec specs)
  let ?own = "if name = ''system'' \<and> spec = ''system'' then Ret ([System], m)
      else case map_of m spec of
          Some s \<Rightarrow> Ret ([s], m)
        | None \<Rightarrow> bind_run (NewSource n S spec) (\<lambda>s.
            Ret (if sourceName s \<noteq> [] then ([s], AList.update spec s m) else ([], m)))"
  obtain own m' ss1 where o: "?own = Ret (own, m')" "resolverSources n S name configured specs (m', i) = Ret (ss1, sh')"
    "ss = (case map_of configured spec of Some s \<Rightarrow> [s] | None \<Rightarrow> []) @ own @ ss1"
    using Cons.prems(2) by (auto simp: bind_run_Ret_iff Let_def)
  have "list_all (wfSource L) own \<and> sharedOk L (m', i)"
    using o(1) Cons.prems(1) NewSource_ok [OF assms(1)] sharedOk_lookup [OF Cons.prems(1)] sharedOk_update
    by (auto simp: bind_run_Ret_iff split: if_splits option.splits)
  moreover have "list_all (wfSource L) (case map_of configured spec of Some s \<Rightarrow> [s] | None \<Rightarrow> [])"
    using assms(3) by (auto dest!: map_of_SomeD split: option.splits)
  ultimately show ?case
    using Cons.IH [OF _ o(2)] o(3) by simp
qed auto

lemma newSharedSourceResolver_ok:
  assumes "Fqdn_ok (srcDns S)" "sharedOk L sh" "\<forall>(k, s) \<in> set configured. wfSource L s"
    and "newSharedSourceResolver n S configured c sh = Ret (ro, sh')"
  shows "sharedOk L sh' \<and> pred_option (\<lambda>rv. list_all (wfSource L) (rvSources rv)) ro"
proof -
  obtain m i where sh: "sh = (m, i)"
    by (cases sh)
  have "list_all (wfSource L) (if length (rsHosts c) > 0 then [HostFile (LoadArray (srcDns S) (rsHosts c))] else [])"
    using LoadArray_ok [OF assms(1)] by (simp add: wfSource_HostFile del: wfSource.simps(1))
  then show ?thesis
    using assms(4) resolverSources_ok [OF assms(1) _ assms(3)] assms(2) sh
    by (auto simp: newSharedSourceResolver_def bind_run_Ret_iff Let_def split: if_splits simp del: wfSource.simps)
qed

lemma resolverMapLoop_ok:
  assumes "Fqdn_ok (srcDns S)" "sharedOk L sh" "\<forall>(k, s) \<in> set configured. wfSource L s" "wfMap L rm"
    and "resolverMapLoop n S configured cs rm sh = Ret rm'"
  shows "wfMap L rm'"
  using assms(2,4,5)
proof (induction cs arbitrary: rm sh)
  case (Cons co cs)
  then obtain c ro sh1 where c: "co = Some c" "newSharedSourceResolver n S configured c sh = Ret (ro, sh1)"
    "resolverMapLoop n S configured cs (case ro of None \<Rightarrow> rm | Some r \<Rightarrow> AList.update (rvName r) r rm) sh1 = Ret rm'"
    by (cases co) (auto simp: bind_run_Ret_iff)
  note ok = newSharedSourceResolver_ok [OF assms(1) Cons.prems(1) assms(3) c(2)]
  have "wfMap L (case ro of None \<Rightarrow> rm | Some r \<Rightarrow> AList.update (rvName r) r rm)"
    using ok Cons.prems(2) set_AList_update [of _ _ rm] unfolding wfMap_def by (cases ro) fastforce+
  then show ?case
    using Cons.IH [of sh1] ok c(3) by blast
qed simp

lemma NewResolverMap_ok:
  assumes "Fqdn_ok (srcDns S)" "NewResolverMap n S sources resolvers = Ret rm"
  shows "\<exists>L. wfMap L rm \<and> (\<forall>i k. L i = Some k \<longrightarrow> 0 < k)"
proof -
  obtain configured sh where c: "configuredLoop n S sources [] ([], 0) = Ret (configured, sh)"
    "resolverMapLoop n S configured resolvers [] sh = Ret rm"
    using assms(2) by (auto simp: NewResolverMap_def bind_run_Ret_iff)
  have "sharedOk Map.empty ([], 0)"
    by (simp add: sharedOk_def)
  then obtain L where "sharedOk L sh" "\<forall>(k, s) \<in> set configured. wfSource L s"
    using configuredLoop_ok [OF assms(1) _ _ c(1)] by auto
  then show ?thesis
    using resolverMapLoop_ok [OF assms(1) _ _ _ c(2), of L] by (auto simp: wfMap_def sharedOk_def)
qed

section \<open>Properties\<close>

definition newWorld :: "'b gocache option \<Rightarrow> 'b world" where
  "newWorld c = \<lparr>wHeap = [], wCache = c, wTick = 0, wLb = (\<lambda>_. 0)\<rparr>"

text \<open>Requests served one after the other on the same resolver map.\<close>

fun serve :: "srclib \<Rightarrow> 'b backer \<Rightarrow> resolverMap \<Rightarrow> (string list \<times> Msg) list \<Rightarrow> 'b world
    \<Rightarrow> ((ptr option \<times> resolutionResult option) result list \<times> 'b world) run" where
  "serve S B rm [] w = Ret ([], w)"
| "serve S B rm ((names, request) # rs) w =
     bind_run (AnswerMultiResolvers S B rm names request w) (\<lambda>(a, w1).
     bind_run (serve S B rm rs w1) (\<lambda>(as, w2). Ret (a # as, w2)))"

lemma serve_returns:
  assumes "wfMap L rm" "\<forall>(names, request) \<in> set rs. msgQuestion request \<noteq> []" "lbOk L w"
  shows "\<exists>as w'. serve S B rm rs w = Ret (as, w') \<and> length as = length rs"
  using assms(2,3)
proof (induction rs arbitrary: w)
  case (Cons r rs)
  obtain names request where r: "r = (names, request)"
    by (cases r)
  have "okState L (w, DefaultResolutionContext)"
    using Cons.prems(2) by (simp add: okState_def DefaultResolutionContext_def)
  then obtain a w1 where a: "AnswerMultiResolvers S B rm names request w = Ret (a, w1)" "lbOk L w1"
    using multiResolverLoop_returns [OF assms(1), of request "(w, DefaultResolutionContext)" S B names "[]"] Cons.prems(1) r
    by (auto simp: AnswerMultiResolvers_def)
  obtain as w2 where "serve S B rm rs w1 = Ret (as, w2)" "length as = length rs"
    using Cons.IH [OF _ a(2)] Cons.prems(1) by auto
  then show ?case
    using a by (simp add: r)
qed simp

text \<open>
  C3. Resolution always comes back: on a resolver map built from any configuration, whatever sources
  refer to each other, and whatever upstream servers and the system answer, every sequence of
  requests that ask something is answered, each one, without a panic and without recursing for
  ever (the fuel of one unit per resolver and one more is enough).
\<close>

theorem resolution_always_returns:
  assumes "Fqdn_ok (srcDns S)" "NewResolverMap n S sources resolvers = Ret rm"
    and "\<forall>(names, request) \<in> set rs. msgQuestion request \<noteq> []"
  shows "\<exists>as w. serve S B rm rs (newWorld c) = Ret (as, w) \<and> length as = length rs"
proof -
  obtain L where "wfMap L rm" "\<forall>i k. L i = Some k \<longrightarrow> 0 < k"
    using NewResolverMap_ok [OF assms(1,2)] by blast
  then show ?thesis
    using serve_returns [of L rm rs "newWorld c" S B] assms(3) by (simp add: lbOk_def newWorld_def)
qed

definition demoResolvers :: "GudgeonResolver option list" where
  "demoResolvers = [Some \<lparr>rsName = ''a'', rsDomains = [], rsSkipDomains = [], rsSearch = [''home''], rsHosts = [''10.0.0.1 nas.home''], rsSources = [''b'']\<rparr>,
     Some \<lparr>rsName = ''b'', rsDomains = [], rsSkipDomains = [], rsSearch = [], rsHosts = [], rsSources = [''a'', ''pair'']\<rparr>]"

definition demoSources :: "GudgeonSource option list" where
  "demoSources = [Some \<lparr>srName = ''pair'', srSpecs = [''8.8.8.8'', ''a''], srLoadBalance = True\<rparr>]"

theorem resolution_always_returns_witness:
  "\<exists>rm. NewResolverMap 1 demoSrc demoSources demoResolvers = Ret rm \<and>
     (\<exists>as w. serve demoSrc demoBacker rm [([''a'', ''b''], demoQuery ''x.org.'')] (newWorld (Some newCache)) = Ret (as, w) \<and> length as = 1)"
proof -
  have "(case NewResolverMap 1 demoSrc demoSources demoResolvers of Ret rm \<Rightarrow> length rm = 2 | _ \<Rightarrow> False)"
    by code_simp
  then obtain rm where rm: "NewResolverMap 1 demoSrc demoSources demoResolvers = Ret rm"
    by (auto split: run.splits)
  have "Fqdn_ok (srcDns demoSrc)"
    using demoDns_ok by (simp add: demoSrc_def)
  from resolution_always_returns [OF this rm, of "[([''a'', ''b''], demoQuery ''x.org.'')]" demoBacker "Some newCache"] rm show ?thesis
    by (auto simp: demoQuery_def newMsg_def)
qed



end
