(* ===== verification/Channel.thy ===== *)
theory Channel
  imports Gudgeon_Prelude
begin

text \<open>
  The outcome of operations on Go channels: an operation is done and has a result, it has to wait, or it
  panics because it sends on a closed channel or closes it twice.
\<close>

datatype 'a chan = Done 'a | Block | SendPanic

fun bind_chan :: "'a chan \<Rightarrow> ('a \<Rightarrow> 'b chan) \<Rightarrow> 'b chan" where
  "bind_chan (Done x) f = f x"
| "bind_chan Block f = Block"
| "bind_chan SendPanic f = SendPanic"

lemma bind_chan_cong [fundef_cong]: "r = r' \<Longrightarrow> (\<And>x. r' = Done x \<Longrightarrow> f x = g x) \<Longrightarrow> bind_chan r f = bind_chan r' g"
  by (cases r') auto

lemma bind_chan_Done: "bind_chan r f = Done y \<longleftrightarrow> (\<exists>x. r = Done x \<and> f x = Done y)"
  by (cases r) auto

end
