(* ===== verification/Pool.thy ===== *)
theory Pool
  imports Channel
begin

text \<open>
  \<^verbatim>\<open>src/pool/dns_pool.go\<close> and the use of the pool in \<^verbatim>\<open>src/resolver/dns_source.go\<close>: connections to an upstream
  server, handed out through a channel that holds idle connections and nil entries for connections
  that are still to be dialled.

  The operations are functions on the pool; an operation that would block or panic on the channel has
  the result \<open>Block\<close> or \<open>SendPanic\<close>. Queries that run side by side are a step relation over the pool and the
  position of each query. Deadlines, TLS and the time limit of dialling are left out: dialling yields a
  connection or an error.
\<close>

section \<open>The pool\<close>

text \<open>A connection is a number; a nil connection, which stands for the right to dial, is \<^const>\<open>None\<close>.\<close>

record dnsPool =
  plShutdown :: bool
  plProtocol :: string
  plNetwork :: string
  plAddress :: string
  plMax :: nat
  plCons :: "nat option list"
  plClosed :: bool

definition chanRecv :: "dnsPool \<Rightarrow> (nat option \<times> dnsPool) chan" where
  "chanRecv p = (case plCons p of
       x # xs \<Rightarrow> Done (x, p\<lparr>plCons := xs\<rparr>)
     | [] \<Rightarrow> if plClosed p then Done (None, p) else Block)"

definition chanSend :: "nat option \<Rightarrow> dnsPool \<Rightarrow> dnsPool chan" where
  "chanSend x p =
     (if plClosed p then SendPanic
      else if plMax p \<le> length (plCons p) then Block
      else Done (p\<lparr>plCons := plCons p @ [x]\<rparr>))"

definition NewDnsPool :: "string \<Rightarrow> string \<Rightarrow> nat \<Rightarrow> dnsPool" where
  "NewDnsPool protocol address maxConnections =
     \<lparr>plShutdown = False, plProtocol = protocol, plNetwork = (if protocol = ''tcp-tls'' then ''tcp'' else protocol),
      plAddress = address, plMax = maxConnections, plCons = replicate maxConnections None, plClosed = False\<rparr>"

definition DefaultDnsPool :: "string \<Rightarrow> string \<Rightarrow> dnsPool" where
  "DefaultDnsPool protocol address = NewDnsPool protocol address 2"

text \<open>
  \<open>Get\<close> in two parts, before and after dialling: the first yields what came out of the channel (nothing
  from a pool that is shut down), the second puts the right to dial back when dialling failed.
\<close>

definition getTake :: "dnsPool \<Rightarrow> (nat option option \<times> dnsPool) chan" where
  "getTake p = (if plShutdown p then Done (None, p)
     else bind_chan (chanRecv p) (\<lambda>(con, p'). Done (Some con, p')))"

definition hasRoom :: "dnsPool \<Rightarrow> bool" where
  "hasRoom p \<longleftrightarrow> \<not> plShutdown p \<and> length (plCons p) \<noteq> plMax p"

definition Get :: "nat result \<Rightarrow> dnsPool \<Rightarrow> (nat option result \<times> dnsPool) chan" where
  "Get dialled p = bind_chan (getTake p) (\<lambda>(got, p').
     case got of
       None \<Rightarrow> Done (Inr None, p')
     | Some (Some con) \<Rightarrow> Done (Inr (Some con), p')
     | Some None \<Rightarrow>
         (case dialled of
            Inr con \<Rightarrow> Done (Inr (Some con), p')
          | Inl err \<Rightarrow> if hasRoom p' then bind_chan (chanSend None p') (\<lambda>p''. Done (Inl err, p'')) else Done (Inl err, p')))"

text \<open>What \<open>Release\<close> gives back: a UDP connection is closed and not used again.\<close>

definition returned :: "dnsPool \<Rightarrow> nat \<Rightarrow> nat option" where
  "returned p con = (if plNetwork p = ''udp'' then None else Some con)"

definition Release :: "nat \<Rightarrow> dnsPool \<Rightarrow> dnsPool chan" where
  "Release con p =
     (if plShutdown p then Done p
      else if \<not> hasRoom p then Done p
      else chanSend (returned p con) p)"

definition Discard :: "dnsPool \<Rightarrow> dnsPool chan" where
  "Discard p = (if hasRoom p then chanSend None p else Done p)"

text \<open>
  The methods have value receivers: \<open>Shutdown\<close> sets the flag of its own copy of the pool, and only the
  channel is shared. Its loop compares a counter that grows with a room that shrinks.
\<close>

function fillLoop :: "nat \<Rightarrow> dnsPool \<Rightarrow> dnsPool chan" where
  "fillLoop c p = (if int c < int (plMax p) - int (length (plCons p))
     then bind_chan (chanSend None p) (fillLoop (Suc c))
     else Done p)"
  by auto
termination
  by (relation "measure (\<lambda>(c, p). plMax p - length (plCons p))") (auto simp: chanSend_def split: if_splits)

declare fillLoop.simps [simp del]

definition Shutdown :: "dnsPool \<Rightarrow> dnsPool chan" where
  "Shutdown p = bind_chan (fillLoop 0 p) (\<lambda>p'. if plClosed p' then SendPanic else Done (p'\<lparr>plClosed := True\<rparr>))"

section \<open>dns_source.go: query\<close>

text \<open>The exchange over a connection is a parameter: the response or an error.\<close>

definition query :: "nat result \<Rightarrow> (nat \<Rightarrow> 'm result) \<Rightarrow> dnsPool \<Rightarrow> ('m result \<times> dnsPool) chan" where
  "query dialled handle p = bind_chan (Get dialled p) (\<lambda>(conn, p1).
     case conn of
       Inl err \<Rightarrow> bind_chan (Discard p1) (\<lambda>p2. Done (Inl err, p2))
     | Inr None \<Rightarrow> bind_chan (Discard p1) (\<lambda>p2. Done (Inl ''no connection provided by pool'', p2))
     | Inr (Some con) \<Rightarrow>
         (case handle con of
            Inl err \<Rightarrow> bind_chan (Discard p1) (\<lambda>p2. Done (Inl err, p2))
          | Inr m \<Rightarrow> bind_chan (Release con p1) (\<lambda>p2. Done (Inr m, p2))))"

section \<open>Queries side by side\<close>

text \<open>
  Where a query stands. Each method locks a copy of the mutex, so a check of the room and the send that
  follows it are two steps.
\<close>

datatype client = Start | Took "nat option" | Using nat | FailPut | Failed | ReleasePut "nat option" | DiscardPut | Finished

inductive poolStep :: "bool \<Rightarrow> dnsPool \<times> client list \<Rightarrow> dnsPool \<times> client list \<Rightarrow> bool" for mayFail where
  take: "i < length cs \<Longrightarrow> cs ! i = Start \<Longrightarrow> chanRecv p = Done (x, p') \<Longrightarrow> poolStep mayFail (p, cs) (p', cs[i := Took x])"
| reuse: "i < length cs \<Longrightarrow> cs ! i = Took (Some k) \<Longrightarrow> poolStep mayFail (p, cs) (p, cs[i := Using k])"
| dialled: "i < length cs \<Longrightarrow> cs ! i = Took None \<Longrightarrow> Some k \<notin> set (plCons p) \<Longrightarrow>
    \<forall>c \<in> set cs. c \<notin> {Took (Some k), Using k, ReleasePut (Some k)} \<Longrightarrow> poolStep mayFail (p, cs) (p, cs[i := Using k])"
| dialFailed: "mayFail \<Longrightarrow> i < length cs \<Longrightarrow> cs ! i = Took None \<Longrightarrow>
    poolStep mayFail (p, cs) (p, cs[i := if hasRoom p then FailPut else Failed])"
| failPut: "i < length cs \<Longrightarrow> cs ! i = FailPut \<Longrightarrow> chanSend None p = Done p' \<Longrightarrow> poolStep mayFail (p, cs) (p', cs[i := Failed])"
| failDiscard: "i < length cs \<Longrightarrow> cs ! i = Failed \<Longrightarrow> poolStep mayFail (p, cs) (p, cs[i := if hasRoom p then DiscardPut else Finished])"
| release: "i < length cs \<Longrightarrow> cs ! i = Using k \<Longrightarrow>
    poolStep mayFail (p, cs) (p, cs[i := if hasRoom p then ReleasePut (returned p k) else Finished])"
| releasePut: "i < length cs \<Longrightarrow> cs ! i = ReleasePut x \<Longrightarrow> chanSend x p = Done p' \<Longrightarrow> poolStep mayFail (p, cs) (p', cs[i := Finished])"
| discard: "i < length cs \<Longrightarrow> cs ! i = Using k \<Longrightarrow> poolStep mayFail (p, cs) (p, cs[i := if hasRoom p then DiscardPut else Finished])"
| discardPut: "i < length cs \<Longrightarrow> cs ! i = DiscardPut \<Longrightarrow> chanSend None p = Done p' \<Longrightarrow> poolStep mayFail (p, cs) (p', cs[i := Finished])"
| again: "i < length cs \<Longrightarrow> cs ! i = Finished \<Longrightarrow> poolStep mayFail (p, cs) (p, cs[i := Start])"

inductive poolReach :: "bool \<Rightarrow> dnsPool \<Rightarrow> nat \<Rightarrow> dnsPool \<times> client list \<Rightarrow> bool" for mayFail p0 n where
  init: "poolReach mayFail p0 n (p0, replicate n Start)"
| step: "poolReach mayFail p0 n st \<Longrightarrow> poolStep mayFail st st' \<Longrightarrow> poolReach mayFail p0 n st'"

fun holds :: "nat \<Rightarrow> client \<Rightarrow> nat" where
  "holds k (Took x) = (if x = Some k then 1 else 0)"
| "holds k (Using j) = (if j = k then 1 else 0)"
| "holds k (ReleasePut x) = (if x = Some k then 1 else 0)"
| "holds k c = 0"

definition owners :: "nat \<Rightarrow> dnsPool \<times> client list \<Rightarrow> nat" where
  "owners k st = count_list (plCons (fst st)) (Some k) + sum_list (map (holds k) (snd st))"

fun tokens :: "client \<Rightarrow> nat" where
  "tokens Start = 0" | "tokens Finished = 0" | "tokens Failed = 0" | "tokens c = 1"

lemma sum_update: "i < length cs \<Longrightarrow> sum_list (map f (cs[i := c])) + f (cs ! i) = sum_list (map f cs) + (f c :: nat)"
  by (induction cs arbitrary: i) (auto split: nat.split)

lemma chanRecv_Done: "chanRecv p = Done (x, p') \<Longrightarrow> \<not> plClosed p \<Longrightarrow> plCons p = x # plCons p' \<and> plMax p' = plMax p \<and> plClosed p' = plClosed p \<and> plShutdown p' = plShutdown p"
  by (auto simp: chanRecv_def split: list.splits)

lemma chanSend_Done:
  "chanSend x p = Done p' \<Longrightarrow> plCons p' = plCons p @ [x] \<and> plMax p' = plMax p \<and> plClosed p' = plClosed p \<and> plShutdown p' = plShutdown p \<and> length (plCons p) < plMax p"
  by (auto simp: chanSend_def split: if_splits)

lemma owners_update:
  assumes "i < length cs"
  shows "owners k (p', cs[i := c]) + holds k (cs ! i) + count_list (plCons p) (Some k) =
    owners k (p, cs) + holds k c + count_list (plCons p') (Some k)"
  using sum_update [OF assms, of "holds k" c] by (simp add: owners_def)

lemma count_list_snoc: "count_list (xs @ [y]) x = count_list xs x + (if x = y then 1 else 0)"
  by (induction xs) auto

lemma not_owned:
  assumes "Some k \<notin> set (plCons p)" "\<forall>c \<in> set cs. c \<notin> {Took (Some k), Using k, ReleasePut (Some k)}"
  shows "owners k (p, cs) = 0"
proof -
  have "holds k c = 0" if "c \<in> set cs" for c
    using assms(2) that by (cases c) auto
  then show ?thesis
    using assms(1) by (simp add: owners_def count_list_0_iff)
qed

lemma owners_step:
  assumes "owners k (p, cs) \<le> 1" "i < length cs"
    and "holds k c + count_list (plCons p') (Some k) \<le> holds k (cs ! i) + count_list (plCons p) (Some k)"
  shows "owners k (p', cs[i := c]) \<le> 1"
  using owners_update [OF assms(2), of k p' c p] assms(1,3) by linarith

text \<open>No step puts a connection into a second hand.\<close>

lemma poolStep_owners:
  assumes "poolStep mayFail st st'" "\<not> plClosed (fst st)" "owners k st \<le> 1"
  shows "owners k st' \<le> 1"
  using assms
proof (induction rule: poolStep.induct)
  case (take i cs p x p')
  then show ?case
    using chanRecv_Done [OF take(3)] by (intro owners_step [OF take(5,1) [simplified fst_conv]]) auto
next
  case (dialled i cs j p)
  then show ?case
    using owners_update [OF dialled(1), of k p "Using j" p] not_owned [OF dialled(3,4)] by (cases "j = k") auto
next
  case (releasePut i cs x p p')
  then show ?case
    using chanSend_Done [OF releasePut(3)] by (intro owners_step [OF releasePut(5,1)]) (auto simp: count_list_snoc)
next
  case (failPut i cs p p')
  then show ?case
    using chanSend_Done [OF failPut(3)] by (intro owners_step [OF failPut(5,1)]) (auto simp: count_list_snoc)
next
  case (discardPut i cs p p')
  then show ?case
    using chanSend_Done [OF discardPut(3)] by (intro owners_step [OF discardPut(5,1)]) (auto simp: count_list_snoc)
qed (rule owners_step; auto simp: returned_def)+

text \<open>While dialling succeeds every right to connect is in the channel or with one query.\<close>

definition balanced :: "dnsPool \<times> client list \<Rightarrow> bool" where
  "balanced st \<longleftrightarrow> \<not> plShutdown (fst st) \<and> \<not> plClosed (fst st) \<and> length (plCons (fst st)) + sum_list (map tokens (snd st)) = plMax (fst st) \<and>
     (\<forall>c \<in> set (snd st). c \<notin> {FailPut, Failed})"

lemma tokens_update:
  "i < length cs \<Longrightarrow> tokens c + n' = tokens (cs ! i) + n \<Longrightarrow> n + sum_list (map tokens cs) = k \<Longrightarrow> n' + sum_list (map tokens (cs[i := c])) = k"
  using sum_update [of i cs tokens c] by linarith

lemma balanced_room:
  assumes "balanced (p, cs)" "i < length cs" "tokens (cs ! i) = 1"
  shows "hasRoom p"
proof -
  have "tokens (cs ! i) \<le> sum_list (map tokens cs)"
    using assms(2) by (intro member_le_sum_list) auto
  then show ?thesis
    using assms by (simp add: balanced_def hasRoom_def)
qed

lemma balanced_update:
  assumes "balanced (p, cs)" "i < length cs" "c \<notin> {FailPut, Failed}" "tokens c + length (plCons p') = tokens (cs ! i) + length (plCons p)"
    and "plShutdown p' = plShutdown p" "plClosed p' = plClosed p" "plMax p' = plMax p"
  shows "balanced (p', cs[i := c])"
  using assms tokens_update [OF assms(2,4)] set_update_subset_insert [of cs i c] by (auto simp: balanced_def)

lemma balanced_step:
  assumes "poolStep False st st'" "balanced st"
  shows "balanced st'"
  using assms
proof (induction rule: poolStep.induct)
  case (take i cs p x p')
  then have "\<not> plClosed p"
    by (simp add: balanced_def)
  with take show ?case
    using chanRecv_Done [OF take(3)] by (intro balanced_update [OF take(4,1)]) auto
next
  case (failPut i cs p p')
  then show ?case
    by (auto simp: balanced_def dest: nth_mem)
next
  case (failDiscard i cs p)
  then show ?case
    by (auto simp: balanced_def dest: nth_mem)
next
  case (release i cs k p)
  then have "hasRoom p"
    by (intro balanced_room) auto
  with release show ?case
    by (intro balanced_update [OF release(3,1)]) auto
next
  case (discard i cs k p)
  then have "hasRoom p"
    by (intro balanced_room) auto
  with discard show ?case
    by (intro balanced_update [OF discard(3,1)]) auto
next
  case (releasePut i cs x p p')
  then show ?case
    using chanSend_Done [OF releasePut(3)] by (intro balanced_update [OF releasePut(4,1)]) auto
next
  case (discardPut i cs p p')
  then show ?case
    using chanSend_Done [OF discardPut(3)] by (intro balanced_update [OF discardPut(4,1)]) auto
qed (rule balanced_update; auto)+

lemma poolReach_balanced: "poolReach False (NewDnsPool protocol address m) n st \<Longrightarrow> balanced st"
proof (induction rule: poolReach.induct)
  case init
  show ?case
    by (simp add: balanced_def NewDnsPool_def sum_list_replicate)
qed (rule balanced_step)

lemma poolStep_open: "poolStep mayFail st st' \<Longrightarrow> \<not> plClosed (fst st) \<Longrightarrow> \<not> plClosed (fst st')"
  by (induction rule: poolStep.induct) (auto dest!: chanRecv_Done chanSend_Done)

lemma poolReach_owners: "poolReach mayFail (NewDnsPool protocol address m) n st \<Longrightarrow> \<not> plClosed (fst st) \<and> owners k st \<le> 1"
proof (induction rule: poolReach.induct)
  case init
  have "count_list (replicate m None) (Some k) = 0"
    by (simp add: count_list_0_iff)
  then show ?case
    by (simp add: owners_def NewDnsPool_def sum_list_replicate)
qed (auto dest: poolStep_owners poolStep_open)

definition inUse :: "client list \<Rightarrow> nat" where
  "inUse cs = length (filter (\<lambda>c. \<exists>k. c = Using k) cs)"

lemma inUse_tokens: "inUse cs \<le> sum_list (map tokens cs)"
  by (induction cs) (auto simp: inUse_def)

section \<open>Properties\<close>

text \<open>
  C14. Queries that run side by side, interleaved in any way, never share a connection: each one is idle
  in the pool or in the hands of at most one query. As long as dialling succeeds, no more
  connections are in use than the pool allows, a query that gives its connection back never blocks and
  finds room for it.
\<close>

theorem pool_exclusive:
  assumes "poolReach mayFail (NewDnsPool protocol address m) n (p, cs)"
  shows "owners k (p, cs) \<le> 1 \<and>
    (\<not> mayFail \<longrightarrow> inUse cs \<le> m \<and>
       (\<forall>i < length cs. (\<exists>j. cs ! i = Using j) \<longrightarrow> hasRoom p) \<and>
       (\<forall>i < length cs. \<forall>x. cs ! i \<in> {ReleasePut x, DiscardPut} \<longrightarrow> (\<exists>p'. chanSend x p = Done p')))"
proof (cases mayFail)
  case True
  then show ?thesis
    using poolReach_owners [OF assms] by simp
next
  case False
  with assms have b: "balanced (p, cs)"
    by (intro poolReach_balanced) simp
  have m: "plMax p = m"
    using assms
  proof (induction "(p, cs)" arbitrary: p cs rule: poolReach.induct)
    case (step st)
    then show ?case
      by (cases st) (auto simp: chanRecv_def chanSend_def elim!: poolStep.cases split: list.splits if_splits)
  qed (simp add: NewDnsPool_def)
  have "hasRoom p" if "i < length cs" "tokens (cs ! i) = 1" for i
    by (rule balanced_room [OF b that])
  then have "\<exists>p'. chanSend x p = Done p'" if "i < length cs" "tokens (cs ! i) = 1" for i x
    using b that by (auto simp: hasRoom_def chanSend_def balanced_def)
  then show ?thesis
    using poolReach_owners [OF assms] balanced_room [OF b] inUse_tokens [of cs] b m by (fastforce simp: balanced_def)
qed

lemma reach_dialled:
  assumes "poolReach mayFail p0 n (p, cs)" "i < length cs" "cs ! i = Start" "plCons p = None # rest" "owners k (p, cs) = 0"
  shows "poolReach mayFail p0 n (p\<lparr>plCons := rest\<rparr>, cs[i := Using k])"
proof -
  have "chanRecv p = Done (None, p\<lparr>plCons := rest\<rparr>)"
    using assms(4) by (simp add: chanRecv_def)
  with assms(1-3) have t: "poolReach mayFail p0 n (p\<lparr>plCons := rest\<rparr>, cs[i := Took None])"
    by (intro poolReach.step [OF _ poolStep.take]) auto
  have "\<forall>c \<in> set (cs[i := Took None]). holds k c = 0"
    using assms(2,5) set_update_subset_insert [of cs i "Took None"] by (auto simp: owners_def)
  then have "\<forall>c \<in> set (cs[i := Took None]). c \<notin> {Took (Some k), Using k, ReleasePut (Some k)}"
    by fastforce
  moreover have "Some k \<notin> set rest"
    using assms(4,5) by (auto simp: owners_def count_list_0_iff split: if_splits)
  ultimately have "poolStep mayFail (p\<lparr>plCons := rest\<rparr>, cs[i := Took None]) (p\<lparr>plCons := rest\<rparr>, (cs[i := Took None])[i := Using k])"
    using assms(2) by (intro poolStep.dialled) auto
  with t show ?thesis
    by (auto intro: poolReach.step)
qed

theorem pool_exclusive_witness:
  "\<exists>p. poolReach False (NewDnsPool ''tcp'' ''9.9.9.9:53'' 2) 2 (p, [Using 0, Start]) \<and> owners 0 (p, [Using 0, Start]) \<le> 1 \<and> inUse [Using 0, Start] \<le> 2"
proof -
  let ?p = "NewDnsPool ''tcp'' ''9.9.9.9:53'' 2"
  have "poolReach False ?p 2 (?p, [Start, Start])"
    using poolReach.init [of False ?p 2] by (simp add: numeral_2_eq_2)
  from reach_dialled [OF this, of 0 "[None]" 0] obtain p where "poolReach False ?p 2 (p, [Using 0, Start])"
    by (auto simp: NewDnsPool_def owners_def numeral_2_eq_2)
  with pool_exclusive [OF this, of 0] show ?thesis
    by blast
qed

text \<open>
  A query whose dialling fails gives two rights to connect back, one in \<open>Get\<close> and one in \<open>Discard\<close>, when
  another query holds one.
\<close>

lemma reach_failed:
  assumes "poolReach True p0 n (p, cs)" "l < length cs" "cs ! l = Start" "plCons p = [None]" "plMax p = 2" "\<not> plShutdown p" "\<not> plClosed p"
  shows "poolReach True p0 n (p\<lparr>plCons := [None, None]\<rparr>, cs)"
proof -
  let ?p0 = "p\<lparr>plCons := []\<rparr>" and ?p1 = "p\<lparr>plCons := [None]\<rparr>" and ?p2 = "p\<lparr>plCons := [None, None]\<rparr>"
  have chan: "chanRecv p = Done (None, ?p0)" "chanSend None ?p0 = Done ?p1" "chanSend None ?p1 = Done ?p2" "hasRoom ?p0" "hasRoom ?p1"
    using assms by (simp_all add: chanRecv_def chanSend_def hasRoom_def)
  have "poolReach True p0 n (?p0, cs[l := Took None])"
    using poolReach.step [OF assms(1) poolStep.take [OF assms(2,3) chan(1)]] .
  then have "poolReach True p0 n (?p0, cs[l := FailPut])"
    using poolReach.step [OF _ poolStep.dialFailed [of True l "cs[l := Took None]" ?p0]] assms(2) chan(4) by auto
  then have "poolReach True p0 n (?p1, cs[l := Failed])"
    using poolReach.step [OF _ poolStep.failPut [OF _ _ chan(2), of l "cs[l := FailPut]"]] assms(2) by auto
  then have "poolReach True p0 n (?p1, cs[l := DiscardPut])"
    using poolReach.step [OF _ poolStep.failDiscard [of l "cs[l := Failed]" True ?p1]] assms(2) chan(5) by auto
  then have "poolReach True p0 n (?p2, cs[l := Finished])"
    using poolReach.step [OF _ poolStep.discardPut [OF _ _ chan(3), of l "cs[l := DiscardPut]"]] assms(2) by auto
  then have "poolReach True p0 n (?p2, cs[l := Start])"
    using poolReach.step [OF _ poolStep.again [of l "cs[l := Finished]" True ?p2]] assms(2) by auto
  then show ?thesis
    using list_update_id [of cs l] by (simp add: assms(3))
qed

text \<open>
  The limit of the pool does not hold: when dialling may fail, a pool for two connections hands out
  any number of connections at a time.
\<close>

theorem pool_limit_broken:
  "\<exists>n p cs. poolReach True (DefaultDnsPool ''tcp'' address) n (p, cs) \<and> inUse cs = k"
proof -
  let ?p = "DefaultDnsPool ''tcp'' address"
  have "j \<le> k \<Longrightarrow> poolReach True ?p (Suc k) (?p, map Using [0..<j] @ replicate (Suc k - j) Start)" for j
  proof (induction j)
    case 0
    then show ?case
      using poolReach.init [of True ?p "Suc k"] by simp
  next
    case (Suc j)
    let ?cs = "map Using [0..<j] @ replicate (Suc k - j) Start"
    have cons: "plCons ?p = [None, None]" "plMax ?p = 2" "\<not> plShutdown ?p" "\<not> plClosed ?p"
      by (simp_all add: DefaultDnsPool_def NewDnsPool_def numeral_2_eq_2)
    have "sum_list (map (holds j) (map Using [0..<j])) = 0"
      by simp
    then have "owners j (?p, ?cs) = 0"
      by (simp add: owners_def cons sum_list_replicate comp_def)
    with Suc have "poolReach True ?p (Suc k) (?p\<lparr>plCons := [None]\<rparr>, ?cs[j := Using j])"
      using cons(1) by (intro reach_dialled) (auto simp: nth_append)
    moreover have "?cs[j := Using j] = map Using [0..<Suc j] @ replicate (Suc k - Suc j) Start"
      using Suc.prems by (cases "Suc k - j") (auto simp: list_update_append)
    ultimately have "poolReach True ?p (Suc k) (?p\<lparr>plCons := [None]\<rparr>, map Using [0..<Suc j] @ replicate (Suc k - Suc j) Start)"
      by simp
    then have "poolReach True ?p (Suc k) (?p\<lparr>plCons := [None], plCons := [None, None]\<rparr>, map Using [0..<Suc j] @ replicate (Suc k - Suc j) Start)"
      using Suc.prems cons(2-4) by (intro reach_failed [where l = k]) (auto simp: nth_append)
    moreover have "?p\<lparr>plCons := [None], plCons := [None, None]\<rparr> = ?p"
      using cons(1) by (simp add: DefaultDnsPool_def NewDnsPool_def)
    ultimately show ?case
      by simp
  qed
  from this [of k] show ?thesis
    by (intro exI [of _ "Suc k"] exI conjI) (auto simp: inUse_def)
qed

lemma fillLoop_room:
  assumes "\<not> plClosed p" "length (plCons p) < plMax p" "2 + length (plCons p) \<le> plMax p + c"
  shows "\<exists>p'. fillLoop c p = Done p' \<and> length (plCons p') < plMax p' \<and> \<not> plClosed p' \<and> plShutdown p' = plShutdown p"
  using assms
proof (induction c p rule: fillLoop.induct)
  case (1 c p)
  show ?case
  proof (cases "int c < int (plMax p) - int (length (plCons p))")
    case True
    then have "chanSend None p = Done (p\<lparr>plCons := plCons p @ [None]\<rparr>)"
      using 1 by (simp add: chanSend_def)
    then show ?thesis
      using 1(1) [OF True] 1(2-4) True by (simp add: fillLoop.simps [of c p])
  next
    case False
    then show ?thesis
      using 1 by (simp add: fillLoop.simps [of c p])
  qed
qed

text \<open>
  Shutting a pool down while two or more connections are in use makes the next query that gives its
  connection back panic: the flag is set on a copy, so \<open>Release\<close> does not see it, and the loop that fills
  the channel stops half way, so there is room to send on the closed channel.
\<close>

theorem release_after_shutdown_panics:
  assumes "\<not> plClosed p" "\<not> plShutdown p" "length (plCons p) + 2 \<le> plMax p"
  shows "\<exists>p'. Shutdown p = Done p' \<and> Release con p' = SendPanic"
proof -
  obtain p' where "fillLoop 0 p = Done p'" "length (plCons p') < plMax p'" "\<not> plClosed p'" "plShutdown p' = plShutdown p"
    using fillLoop_room [of p 0] assms by auto
  then show ?thesis
    using assms(2) by (simp add: Shutdown_def Release_def hasRoom_def chanSend_def)
qed

theorem release_after_shutdown_panics_witness:
  "\<exists>p'. Shutdown ((DefaultDnsPool ''udp'' ''9.9.9.9:53'')\<lparr>plCons := []\<rparr>) = Done p' \<and> Release 1 p' = SendPanic"
  by (rule release_after_shutdown_panics) (simp_all add: DefaultDnsPool_def NewDnsPool_def)

lemma fillLoop_Done:
  "\<not> plClosed p \<Longrightarrow> \<exists>p'. fillLoop c p = Done p' \<and> \<not> plClosed p' \<and> plShutdown p' = plShutdown p \<and> plMax p' = plMax p \<and>
     (length (plCons p) \<le> plMax p \<longrightarrow> length (plCons p') \<le> plMax p')"
proof (induction c p rule: fillLoop.induct)
  case (1 c p)
  show ?case
  proof (cases "int c < int (plMax p) - int (length (plCons p))")
    case True
    then have "chanSend None p = Done (p\<lparr>plCons := plCons p @ [None]\<rparr>)"
      using 1(2) by (simp add: chanSend_def)
    then show ?thesis
      using 1(1) [OF True] 1(2) True by (simp add: fillLoop.simps [of c p])
  next
    case False
    then show ?thesis
      using 1(2) by (simp add: fillLoop.simps [of c p])
  qed
qed

lemma closed_room: "plClosed p \<Longrightarrow> hasRoom p \<Longrightarrow> Discard p = SendPanic \<and> Release con p = SendPanic"
  by (simp add: Discard_def Release_def hasRoom_def chanSend_def)

text \<open>
  A pool that was shut down brings the program down: \<open>Shutdown\<close> sets its flag on a copy of the pool, so
  the next query takes an entry from the closed channel and panics when it gives it back, whether
  dialling and the exchange succeed or fail.
\<close>

theorem query_after_shutdown_panics:
  assumes "\<not> plClosed p" "\<not> plShutdown p" "length (plCons p) \<le> plMax p" "1 \<le> plMax p"
  shows "\<exists>p'. Shutdown p = Done p' \<and> query dialled handle p' = SendPanic"
proof -
  obtain q where q: "fillLoop 0 p = Done q" "\<not> plClosed q" "\<not> plShutdown q" "length (plCons q) \<le> plMax q" "1 \<le> plMax q"
    using fillLoop_Done [OF assms(1), of 0] assms by auto
  let ?p' = "q\<lparr>plClosed := True\<rparr>"
  obtain con r where r: "getTake ?p' = Done (Some con, r)" "plClosed r" "hasRoom r"
    using q by (cases "plCons q") (auto simp: getTake_def chanRecv_def hasRoom_def)
  have "query dialled handle ?p' = SendPanic"
    using r closed_room [OF r(2,3)]
    by (auto simp: query_def Get_def chanSend_def split: option.splits sum.splits)
  then show ?thesis
    using q by (simp add: Shutdown_def)
qed

theorem query_after_shutdown_panics_witness:
  "\<exists>p'. Shutdown (DefaultDnsPool ''udp'' ''9.9.9.9:53'') = Done p' \<and> query (Inr 1) (\<lambda>con. Inr ()) p' = SendPanic"
  by (rule query_after_shutdown_panics) (simp_all add: DefaultDnsPool_def NewDnsPool_def)

end
