(* ===== verification/Resolver_Close.thy ===== *)
theory Resolver_Close
  imports Resolver_Init Pool "HOL-Library.Multiset"
begin

text \<open>
  How \<^verbatim>\<open>src/resolver\<close> closes its sources: the \<open>Close\<close> methods of the sources, of a resolver and of the resolver
  map. What can be closed only once are the pools of the upstream servers, whose channel a second
  \<open>Shutdown\<close> would close again, and the routers of the load balancers, which a second \<open>Close\<close> would wait for.
  A source is shared by the resolvers that name it, so both can happen.

  Closing the subscription of a file source a second time does nothing (theory \<open>Events\<close>); it is left out, and
  so are the log lines.
\<close>

section \<open>State and operations\<close>

text \<open>The pools by the specification of their source, and which routers run.\<close>

record sourceState =
  ssPools :: "string \<Rightarrow> dnsPool"
  ssRouters :: "nat \<Rightarrow> bool"

definition newSourceState :: sourceState where
  "newSourceState = \<lparr>ssPools = (\<lambda>spec. DefaultDnsPool (dsProtocol (dnsLoad spec)) (dsRemoteAddress (dnsLoad spec))), ssRouters = (\<lambda>i. True)\<rparr>"

fun closeEach :: "('a \<Rightarrow> 's \<Rightarrow> 's chan) \<Rightarrow> 'a list \<Rightarrow> 's \<Rightarrow> 's chan" where
  "closeEach close [] st = Done st"
| "closeEach close (x # xs) st = bind_chan (close x st) (closeEach close xs)"

lemma closeEach_cong [fundef_cong]:
  "xs = ys \<Longrightarrow> st = st' \<Longrightarrow> (\<And>x s. x \<in> set ys \<Longrightarrow> f x s = g x s) \<Longrightarrow> closeEach f xs st = closeEach g ys st'"
  by (induction xs arbitrary: ys st st') (auto intro!: bind_chan_cong)

definition dnsClose :: "dnsSource \<Rightarrow> sourceState \<Rightarrow> sourceState chan" where
  "dnsClose d st = bind_chan (Shutdown (ssPools st (dsPool d))) (\<lambda>p. Done (st\<lparr>ssPools := (ssPools st)(dsPool d := p)\<rparr>))"

text \<open>
  The channel that ends the router has no buffer and is never closed: the router receives from it once and
  returns.
\<close>

definition endRouter :: "nat \<Rightarrow> sourceState \<Rightarrow> sourceState chan" where
  "endRouter i st = (if ssRouters st i then Done (st\<lparr>ssRouters := (ssRouters st)(i := False)\<rparr>) else Block)"

fun closeSource :: "source \<Rightarrow> sourceState \<Rightarrow> sourceState chan" where
  "closeSource (Dns d) st = dnsClose d st"
| "closeSource (Multi name ss) st = closeEach closeSource ss st"
| "closeSource (Lb i name ss) st = bind_chan (endRouter i st) (closeEach closeSource ss)"
| "closeSource s st = Done st"

definition resolverClose :: "resolver \<Rightarrow> sourceState \<Rightarrow> sourceState chan" where
  "resolverClose rv = closeEach closeSource (rvSources rv)"

text \<open>
  The resolvers of the map are a Go map, visited in any order; whether the whole of it is closed does not
  depend on the order (\<open>resolverMapClose_order\<close>). The cache is cleared with the engine.
\<close>

definition resolverMapClose :: "resolverMap \<Rightarrow> sourceState \<Rightarrow> sourceState chan" where
  "resolverMapClose rm = closeEach (\<lambda>(name, rv). resolverClose rv) rm"

section \<open>What a call of Close ends\<close>

datatype held = HPool string | HRouter nat

fun isOpen :: "sourceState \<Rightarrow> held \<Rightarrow> bool" where
  "isOpen st (HPool spec) = (\<not> plClosed (ssPools st spec))"
| "isOpen st (HRouter i) = ssRouters st i"

fun holdsOf :: "source \<Rightarrow> held list" where
  "holdsOf (Dns d) = [HPool (dsPool d)]"
| "holdsOf (Multi name ss) = concat (map holdsOf ss)"
| "holdsOf (Lb i name ss) = HRouter i # concat (map holdsOf ss)"
| "holdsOf s = []"

definition mapHolds :: "resolverMap \<Rightarrow> held list" where
  "mapHolds rm = concat (map (\<lambda>(name, rv). concat (map holdsOf (rvSources rv))) rm)"

text \<open>
  The contract of a closing operation: it returns exactly when everything it ends is open and named once,
  and then exactly that is no longer open.
\<close>

definition ends :: "(sourceState \<Rightarrow> sourceState chan) \<Rightarrow> held list \<Rightarrow> bool" where
  "ends close hs \<longleftrightarrow> (\<forall>st. case close st of
       Done st' \<Rightarrow> distinct hs \<and> (\<forall>h \<in> set hs. isOpen st h) \<and> (\<forall>h. isOpen st' h \<longleftrightarrow> isOpen st h \<and> h \<notin> set hs)
     | _ \<Rightarrow> \<not> (distinct hs \<and> (\<forall>h \<in> set hs. isOpen st h)))"

lemma ends_Done: "ends Done []"
  by (simp add: ends_def)

lemma ends_bind:
  assumes "ends f hs" "ends g hs'"
  shows "ends (\<lambda>st. bind_chan (f st) g) (hs @ hs')"
  unfolding ends_def
proof
  fix st
  show "case bind_chan (f st) g of
       Done st' \<Rightarrow> distinct (hs @ hs') \<and> (\<forall>h \<in> set (hs @ hs'). isOpen st h) \<and> (\<forall>h. isOpen st' h \<longleftrightarrow> isOpen st h \<and> h \<notin> set (hs @ hs'))
     | _ \<Rightarrow> \<not> (distinct (hs @ hs') \<and> (\<forall>h \<in> set (hs @ hs'). isOpen st h))"
  proof (cases "f st")
    case (Done st1)
    then show ?thesis
      using assms(1) [unfolded ends_def, rule_format, of st] assms(2) [unfolded ends_def, rule_format, of st1]
      by (auto split: chan.splits)
  qed (use assms(1) [unfolded ends_def, rule_format, of st] in auto)
qed

lemma ends_closeEach: "(\<And>x. x \<in> set xs \<Longrightarrow> ends (f x) (h x)) \<Longrightarrow> ends (closeEach f xs) (concat (map h xs))"
proof (induction xs)
  case Nil
  then show ?case
    using ends_Done by (simp add: ends_def)
next
  case (Cons x xs)
  then show ?case
    using ends_bind [of "f x" "h x" "closeEach f xs"] by (simp add: ends_def)
qed

text \<open>What queries left in a pool makes no difference to \<^const>\<open>Shutdown\<close>: only a closed pool cannot be shut down.\<close>

lemma fillLoop_open: "\<not> plClosed p \<Longrightarrow> \<exists>p'. fillLoop c p = Done p' \<and> \<not> plClosed p'"
proof (induction c p rule: fillLoop.induct)
  case (1 c p)
  show ?case
  proof (cases "int c < int (plMax p) - int (length (plCons p))")
    case True
    then have send: "chanSend None p = Done (p\<lparr>plCons := plCons p @ [None]\<rparr>)"
      using 1(2) by (simp add: chanSend_def)
    show ?thesis
      using 1(1) [OF True send] True send 1(2) by (simp add: fillLoop.simps [of c p])
  qed (use 1(2) in \<open>simp add: fillLoop.simps\<close>)
qed

lemma fillLoop_closed: "plClosed p \<Longrightarrow> fillLoop c p \<in> {SendPanic, Done p}"
  by (simp add: fillLoop.simps [of c p] chanSend_def)

lemma Shutdown_outcome:
  "plClosed p \<Longrightarrow> Shutdown p = SendPanic" "\<not> plClosed p \<Longrightarrow> \<exists>p'. Shutdown p = Done p' \<and> plClosed p'"
  using fillLoop_closed [of p 0] fillLoop_open [of p 0] by (auto simp: Shutdown_def)

lemma isOpen_pool: "isOpen (st\<lparr>ssPools := (ssPools st)(spec := p)\<rparr>) h \<longleftrightarrow> (if h = HPool spec then \<not> plClosed p else isOpen st h)"
  by (cases h) auto

lemma isOpen_router: "isOpen (st\<lparr>ssRouters := (ssRouters st)(i := b)\<rparr>) h \<longleftrightarrow> (if h = HRouter i then b else isOpen st h)"
  by (cases h) auto

lemma ends_dnsClose: "ends (dnsClose d) [HPool (dsPool d)]"
  unfolding ends_def
proof
  fix st
  show "case dnsClose d st of
       Done st' \<Rightarrow> distinct [HPool (dsPool d)] \<and> (\<forall>h \<in> set [HPool (dsPool d)]. isOpen st h) \<and> (\<forall>h. isOpen st' h \<longleftrightarrow> isOpen st h \<and> h \<notin> set [HPool (dsPool d)])
     | _ \<Rightarrow> \<not> (distinct [HPool (dsPool d)] \<and> (\<forall>h \<in> set [HPool (dsPool d)]. isOpen st h))"
    using Shutdown_outcome [of "ssPools st (dsPool d)"]
    by (cases "plClosed (ssPools st (dsPool d))") (auto simp: dnsClose_def isOpen_pool simp del: isOpen.simps, auto)
qed

lemma ends_endRouter: "ends (endRouter i) [HRouter i]"
  by (auto simp: ends_def endRouter_def isOpen_router)

theorem ends_closeSource: "ends (closeSource s) (holdsOf s)"
proof (induction s)
  case (Dns d)
  then show ?case
    using ends_dnsClose [of d] by (simp add: ends_def)
next
  case (Multi name ss)
  then show ?case
    using ends_closeEach [of ss closeSource holdsOf] by (simp add: ends_def)
next
  case (Lb i name ss)
  then show ?case
    using ends_bind [OF ends_endRouter [of i] ends_closeEach [of ss closeSource holdsOf]] by (simp add: ends_def)
qed (simp_all add: ends_def)

lemma ends_resolverMapClose: "ends (resolverMapClose rm) (mapHolds rm)"
  unfolding resolverMapClose_def mapHolds_def
  by (rule ends_closeEach) (auto simp: resolverClose_def intro!: ends_closeEach ends_closeSource)

lemma resolverMapClose_returns:
  "(\<exists>st'. resolverMapClose rm st = Done st') \<longleftrightarrow> distinct (mapHolds rm) \<and> (\<forall>h \<in> set (mapHolds rm). isOpen st h)"
  using ends_resolverMapClose [of rm, unfolded ends_def, rule_format, of st] by (auto split: chan.splits)

lemma resolverMapClose_closed: "resolverMapClose rm st = Done st' \<Longrightarrow> h \<in> set (mapHolds rm) \<Longrightarrow> \<not> isOpen st' h"
  using ends_resolverMapClose [of rm, unfolded ends_def, rule_format, of st] by auto

lemma resolverMapClose_order:
  assumes "mset rm' = mset rm"
  shows "(\<exists>st'. resolverMapClose rm' st = Done st') \<longleftrightarrow> (\<exists>st'. resolverMapClose rm st = Done st')"
proof -
  have "mset (mapHolds rm') = mset (mapHolds rm)"
    by (simp add: mapHolds_def mset_concat sum_mset_sum_list [symmetric] mset_map assms del: map_map)
  then show ?thesis
    unfolding resolverMapClose_returns by (metis mset_eq_imp_distinct_iff mset_eq_setD)
qed

lemma newSourceState_open [simp]: "isOpen newSourceState h"
  by (cases h) (auto simp: newSourceState_def DefaultDnsPool_def NewDnsPool_def)

section \<open>Sharing in what is built\<close>

definition isUpstream :: "srclib \<Rightarrow> string \<Rightarrow> bool" where
  "isUpstream S spec \<longleftrightarrow> \<not> statExists S spec \<and> (ParseIP spec \<noteq> None \<or> Contains spec '':'' \<or> Contains spec ''/'')"

text \<open>Sharing is transparent: a shared source is what its specification makes.\<close>

definition sharedMade :: "nat \<Rightarrow> srclib \<Rightarrow> shared \<Rightarrow> bool" where
  "sharedMade n S sh \<longleftrightarrow> (\<forall>(k, s) \<in> set (fst sh). NewSource n S k = Ret s)"

lemma sharedMade_lookup: "sharedMade n S (m, i) \<Longrightarrow> map_of m spec = Some s \<Longrightarrow> NewSource n S spec = Ret s"
  unfolding sharedMade_def by (auto dest!: map_of_SomeD)

lemma sharedMade_update: "sharedMade n S (m, i) \<Longrightarrow> NewSource n S spec = Ret s \<Longrightarrow> sharedMade n S (AList.update spec s m, j)"
  using set_AList_update [of spec s m] unfolding sharedMade_def by auto

lemma specSources_made:
  "specSources n S specs sh = Ret (ss, sh') \<Longrightarrow> sharedMade n S sh \<Longrightarrow> sharedMade n S sh'"
proof (induction specs arbitrary: sh ss)
  case (Cons spec specs)
  obtain m i where sh: "sh = (m, i)"
    by (cases sh)
  obtain s ss1 where s: "(case map_of m spec of Some s \<Rightarrow> Ret s | None \<Rightarrow> NewSource n S spec) = Ret s"
    "specSources n S specs (AList.update spec s m, i) = Ret (ss1, sh')"
    using Cons.prems(1) by (auto simp: sh bind_run_Ret_iff)
  have "NewSource n S spec = Ret s"
    using s(1) sharedMade_lookup Cons.prems(2) by (auto simp: sh split: option.splits)
  then show ?case
    using Cons.IH [OF s(2)] sharedMade_update Cons.prems(2) sh by blast
qed simp

lemma NewConfigurationSource_made:
  "NewConfigurationSource n S c sh = Ret (so, sh') \<Longrightarrow> sharedMade n S sh \<Longrightarrow> sharedMade n S sh'"
  by (auto simp: NewConfigurationSource_def bind_run_Ret_iff sharedMade_def dest!: specSources_made split: if_splits)

lemma configuredLoop_made:
  "configuredLoop n S cs configured sh = Ret (configured', sh') \<Longrightarrow> sharedMade n S sh \<Longrightarrow> sharedMade n S sh'"
  by (induction n S cs configured sh rule: configuredLoop.induct) (auto simp: bind_run_Ret_iff dest: NewConfigurationSource_made)

lemma NewSource_upstream: "NewSource n S spec = Ret s \<Longrightarrow> isUpstream S spec \<Longrightarrow> s = Dns (dnsLoad spec)"
  by (cases n) (auto simp: isUpstream_def)

lemma isUpstream_not_system: "isUpstream S spec \<Longrightarrow> spec \<noteq> ''system''"
proof
  have "ParseIP ''system'' = None" "\<not> Contains ''system'' '':''" "\<not> Contains ''system'' ''/''"
    by code_simp+
  then show "isUpstream S spec \<Longrightarrow> spec = ''system'' \<Longrightarrow> False"
    by (simp add: isUpstream_def)
qed

lemma resolverSources_made:
  assumes "resolverSources n S name configured specs (m, i) = Ret (ss, sh')" "sharedMade n S (m, i)"
  shows "sharedMade n S sh' \<and> (\<forall>spec \<in> set specs. isUpstream S spec \<longrightarrow> Dns (dnsLoad spec) \<in> set ss)"
  using assms
proof (induction specs arbitrary: m ss)
  case (Cons spec specs)
  let ?own = "if name = ''system'' \<and> spec = ''system'' then Ret ([System], m)
      else case map_of m spec of
          Some s \<Rightarrow> Ret ([s], m)
        | None \<Rightarrow> bind_run (NewSource n S spec) (\<lambda>s.
            Ret (if sourceName s \<noteq> [] then ([s], AList.update spec s m) else ([], m)))"
  obtain own m' ss1 where o: "?own = Ret (own, m')" "resolverSources n S name configured specs (m', i) = Ret (ss1, sh')"
    "ss = (case map_of configured spec of Some s \<Rightarrow> [s] | None \<Rightarrow> []) @ own @ ss1"
    using Cons.prems(1) by (auto simp: bind_run_Ret_iff Let_def)
  have "sharedMade n S (m', i)"
    using o(1) Cons.prems(2) sharedMade_update by (auto simp: bind_run_Ret_iff split: if_splits option.splits)
  moreover have "Dns (dnsLoad spec) \<in> set own" if up: "isUpstream S spec"
  proof (cases "map_of m spec")
    case (Some s)
    then show ?thesis
      using o(1) NewSource_upstream [OF sharedMade_lookup [OF Cons.prems(2) Some] up] isUpstream_not_system [OF up] by auto
  next
    case None
    then obtain s where "NewSource n S spec = Ret s" "own = (if sourceName s \<noteq> [] then [s] else [])"
      using o(1) isUpstream_not_system [OF up] by (auto simp: bind_run_Ret_iff split: if_splits)
    moreover from this(1) have "s = Dns (dnsLoad spec)"
      by (rule NewSource_upstream [OF _ up])
    ultimately show ?thesis
      by (simp add: dnsName_def)
  qed
  ultimately show ?case
    using Cons.IH [OF o(2)] o(3) by auto
qed auto

lemma newSharedSourceResolver_made:
  assumes "newSharedSourceResolver n S configured c sh = Ret (ro, sh')" "sharedMade n S sh"
  shows "sharedMade n S sh'"
    and "rsName c \<noteq> [] \<Longrightarrow> \<exists>rv. ro = Some rv \<and> rvName rv = rsName c \<and>
      (\<forall>spec \<in> set (rsSources c). isUpstream S spec \<longrightarrow> Dns (dnsLoad spec) \<in> set (rvSources rv))"
    and "rsName c = [] \<Longrightarrow> ro = None"
  using assms resolverSources_made [of n S "rsName c" configured "rsSources c" "fst sh" "snd sh"]
  by (auto simp: newSharedSourceResolver_def bind_run_Ret_iff Let_def split: if_splits)

text \<open>A resolver whose entries in the configuration all name an upstream server has it among its sources.\<close>

lemma resolverMapLoop_upstream:
  assumes "resolverMapLoop n S configured cs rm sh = Ret rm'" "sharedMade n S sh" "name \<noteq> []" "isUpstream S spec"
    and "\<forall>c. Some c \<in> set cs \<and> rsName c = name \<longrightarrow> spec \<in> set (rsSources c)"
    and "(\<exists>c. Some c \<in> set cs \<and> rsName c = name) \<or> (\<exists>rv. map_of rm name = Some rv \<and> Dns (dnsLoad spec) \<in> set (rvSources rv))"
  shows "\<exists>rv. map_of rm' name = Some rv \<and> Dns (dnsLoad spec) \<in> set (rvSources rv)"
  using assms(1,2,5,6)
proof (induction cs arbitrary: rm sh)
  case (Cons co cs)
  then obtain c ro sh1 where c: "co = Some c" "newSharedSourceResolver n S configured c sh = Ret (ro, sh1)"
    "resolverMapLoop n S configured cs (case ro of None \<Rightarrow> rm | Some r \<Rightarrow> AList.update (rvName r) r rm) sh1 = Ret rm'"
    by (cases co) (auto simp: bind_run_Ret_iff)
  note made = newSharedSourceResolver_made [OF c(2) Cons.prems(2)]
  show ?case
  proof (rule Cons.IH [OF c(3) made(1)])
    show "\<forall>c. Some c \<in> set cs \<and> rsName c = name \<longrightarrow> spec \<in> set (rsSources c)"
      using Cons.prems(3) by simp
    show "(\<exists>c. Some c \<in> set cs \<and> rsName c = name) \<or>
        (\<exists>rv. map_of (case ro of None \<Rightarrow> rm | Some r \<Rightarrow> AList.update (rvName r) r rm) name = Some rv \<and> Dns (dnsLoad spec) \<in> set (rvSources rv))"
    proof (cases "rsName c = name")
      case True
      then show ?thesis
        using made(2) assms(3,4) Cons.prems(3) c(1) by (auto simp: update_conv')
    next
      case False
      then show ?thesis
        using made(2,3) Cons.prems(4) c(1) by (cases "rsName c = []") (auto simp: update_conv')
    qed
  qed
qed simp

lemma NewResolverMap_upstream:
  assumes "NewResolverMap n S sources resolvers = Ret rm" "isUpstream S spec"
    and "Some c \<in> set resolvers" "rsName c \<noteq> []" "distinct (map (map_option rsName) resolvers)" "spec \<in> set (rsSources c)"
  shows "\<exists>rv. (rsName c, rv) \<in> set rm \<and> HPool spec \<in> set (concat (map holdsOf (rvSources rv)))"
proof -
  obtain configured sh where b: "configuredLoop n S sources [] ([], 0) = Ret (configured, sh)"
    "resolverMapLoop n S configured resolvers [] sh = Ret rm"
    using assms(1) by (auto simp: NewResolverMap_def bind_run_Ret_iff)
  have made: "sharedMade n S sh"
    using configuredLoop_made [OF b(1)] by (simp add: sharedMade_def)
  have one: "c' = c" if "Some c' \<in> set resolvers" "rsName c' = rsName c" for c'
    using inj_onD [OF conjunct2 [OF assms(5) [unfolded distinct_map]] _ that(1) assms(3)] that(2) by simp
  obtain rv where "map_of rm (rsName c) = Some rv" "Dns (dnsLoad spec) \<in> set (rvSources rv)"
    using resolverMapLoop_upstream [OF b(2) made assms(4,2)] one assms(3,6) by blast
  moreover have "dsPool (dnsLoad spec) = spec"
    by (simp add: dnsLoad_def Let_def)
  ultimately show ?thesis
    by (intro exI [of _ rv]) (auto dest: map_of_SomeD intro!: bexI [of _ "Dns (dnsLoad spec)"])
qed

lemma mapHolds_twice:
  assumes "(k1, r1) \<in> set rm" "(k2, r2) \<in> set rm" "k1 \<noteq> k2"
    and "h \<in> set (concat (map holdsOf (rvSources r1)))" "h \<in> set (concat (map holdsOf (rvSources r2)))"
  shows "\<not> distinct (mapHolds rm)"
proof
  assume "distinct (mapHolds rm)"
  moreover obtain xs ys where "rm = xs @ (k1, r1) # ys"
    using assms(1) by (auto simp: in_set_conv_decomp)
  moreover have "(k2, r2) \<in> set xs \<union> set ys"
    using assms(2,3) calculation(2) by auto
  ultimately show False
    using assms(4,5) by (auto simp: mapHolds_def) blast+
qed

text \<open>An upstream server that two resolvers name is closed twice: closing the resolvers does not come back.\<close>

lemma shared_upstream_held_twice:
  assumes "NewResolverMap n S sources resolvers = Ret rm" "isUpstream S spec" "distinct (map (map_option rsName) resolvers)"
    and "Some c1 \<in> set resolvers" "Some c2 \<in> set resolvers" "rsName c1 \<noteq> rsName c2" "rsName c1 \<noteq> []" "rsName c2 \<noteq> []"
    and "spec \<in> set (rsSources c1)" "spec \<in> set (rsSources c2)"
  shows "\<not> distinct (mapHolds rm)"
  using NewResolverMap_upstream [OF assms(1,2,4,7,3,9)] NewResolverMap_upstream [OF assms(1,2,5,8,3,10)] mapHolds_twice assms(6)
  by metis

end
