(* ===== verification/Resolver_Heap.thy ===== *)
theory Resolver_Heap
  imports Resolver
begin

text \<open>
  Resolution never takes a message away: every function of the theory \<open>Resolver\<close> leaves at least the
  messages in the heap that it found there, so a pointer handed out once stays valid. What the
  resolver map returns is a message with content or nothing.
\<close>

section \<open>The heap only grows\<close>

definition heapAtLeast :: "nat \<Rightarrow> ('a \<times> 'b rstate) run \<Rightarrow> bool" where
  "heapAtLeast k r \<longleftrightarrow> (\<forall>a w c. r = Ret (a, (w, c)) \<longrightarrow> k \<le> length (wHeap w))"

lemma heapAtLeast_Ret [simp]: "heapAtLeast k (Ret (a, st)) = (k \<le> length (wHeap (fst st)))"
  by (cases st) (auto simp: heapAtLeast_def)

lemma heapAtLeast_fail [simp]: "heapAtLeast k Panic" "heapAtLeast k NoFuel"
  by (auto simp: heapAtLeast_def)

lemma heapAtLeast_bind:
  assumes "heapAtLeast k r" "\<And>a w c. k \<le> length (wHeap w) \<Longrightarrow> heapAtLeast k (f (a, (w, c)))"
  shows "heapAtLeast k (bind_run r f)"
proof (cases r)
  case (Ret x)
  obtain a w c where x: "x = (a, (w, c))"
    by (cases x) auto
  with Ret assms(1) have "k \<le> length (wHeap w)"
    by simp
  from assms(2) [OF this] show ?thesis
    by (simp add: Ret x)
qed auto

definition growing :: "nat \<Rightarrow> 'b srcFun \<Rightarrow> bool" where
  "growing k f \<longleftrightarrow> (\<forall>request w c. k \<le> length (wHeap w) \<longrightarrow> heapAtLeast k (f request (w, c)))"

lemma growingD: "growing k f \<Longrightarrow> k \<le> length (wHeap w) \<Longrightarrow> heapAtLeast k (f request (w, c))"
  by (simp add: growing_def)

lemma growing_ownAnswer:
  "k \<le> length (wHeap w) \<Longrightarrow> heapAtLeast k (ownAnswer D b name answer (w, c))"
  by (cases answer) (auto simp: ownAnswer_def allocW_def allocMsg_def Let_def split: option.splits)

lemma growing_dnsAnswer: "growing k (dnsAnswer S d)"
  by (auto simp: growing_def dnsAnswer_def allocW_def allocMsg_def tickW_def Let_def split: sum.splits option.splits)

lemma growing_multiLoop:
  "\<forall>x \<in> set asks. growing k (snd x) \<Longrightarrow> growing k (multiLoop D name asks)"
proof (induction asks)
  case (Cons x asks)
  then show ?case
    by (cases x) (auto simp: growing_def intro!: heapAtLeast_bind split: sum.splits)
qed (simp add: growing_def)

lemma growing_lbLoop:
  assumes "\<forall>x \<in> set asks. growing k (snd x)"
  shows "growing k (lbLoop D i name asks tries)"
proof (induction tries)
  case (Suc tries)
  have "growing k (snd (asks ! idx))" if "idx < length asks" for idx
    using assms that by simp
  with Suc show ?case
    by (auto simp: growing_def Let_def routerAsk_def intro!: heapAtLeast_bind split: sum.splits prod.splits)
qed (simp add: growing_def)

lemma growing_sourceAnswer:
  assumes "\<And>name. growing k (rec name)"
  shows "growing k (sourceAnswer S rec s)"
proof (induction s)
  case (Resolv path search up)
  then show ?case
    by (cases up) (auto simp: growing_def intro!: heapAtLeast_bind split: sum.splits)
next
  case (Multi n ss)
  then have "growing k (multiLoop (srcDns S) n (map (\<lambda>s. (sourceName s, sourceAnswer S rec s)) ss))"
    by (intro growing_multiLoop) auto
  then show ?case
    by (simp add: growing_def)
next
  case (Lb i n ss)
  then have "growing k (lbLoop (srcDns S) i n (map (\<lambda>s. (sourceName s, sourceAnswer S rec s)) ss) (Suc (length ss)))"
    by (intro growing_lbLoop) auto
  then show ?case
    by (simp add: growing_def del: lbLoop.simps)
qed (use assms in \<open>auto simp: growing_def tickW_def intro!: growing_ownAnswer growingD [OF growing_dnsAnswer]\<close>)

lemma heapAtLeast_answerLoop:
  assumes "\<And>name. growing k (rec name)" "k \<le> length (wHeap w)"
  shows "heapAtLeast k (answerLoop S rec name ss request (w, c))"
  using assms(2)
  by (induction ss arbitrary: w c)
     (auto intro!: heapAtLeast_bind growingD [OF growing_sourceAnswer] assms(1) split: sum.splits)

lemma heapAtLeast_searchDomainLoop:
  assumes "\<And>name. growing k (rec name)" "k \<le> length (wHeap w)"
  shows "heapAtLeast k (searchDomainLoop S rec rv original request ds (w, c))"
  using assms(2)
  by (induction ds arbitrary: w c)
     (auto simp: resolver_answer_def redirectReply_def intro!: heapAtLeast_bind heapAtLeast_answerLoop assms(1) split: option.splits)

lemma heapAtLeast_searchDomains:
  assumes "\<And>name. growing k (rec name)" "k \<le> length (wHeap w)"
  shows "heapAtLeast k (searchDomains S rec rv request (w, c))"
  using assms(2)
  by (auto simp: searchDomains_def Let_def intro!: heapAtLeast_searchDomainLoop assms(1) split: list.splits)

lemma cacheQuery_heap: "length h \<le> length (snd (cacheQuery D B now h c part request))"
  by (auto simp: cacheQuery_def allocMsg_def Let_def split: option.splits)

lemma queryW_heap: "length (wHeap w) \<le> length (wHeap (snd (queryW S B part request w)))"
  using cacheQuery_heap [of "wHeap w" "srcDns S" B "clock S (wTick w)" _ part request]
  by (auto simp: queryW_def Let_def split: option.splits prod.splits) (metis snd_conv)

lemma storeW_heap: "wHeap (fst (storeW S B part request p st)) = wHeap (fst st)"
  by (cases st) (auto simp: storeW_def Let_def tickW_def split: option.splits prod.splits)

lemma heapAtLeast_resolverAnswer:
  assumes "\<And>name. growing k (rec name)" "k \<le> length (wHeap w)"
  shows "heapAtLeast k (resolverAnswer S B rec rv request (w, c))"
proof (cases "msgQuestion request")
  case (Cons q qs)
  obtain cached w1 where q: "queryW S B (rvName rv) request w = (cached, w1)"
    by (cases "queryW S B (rvName rv) request w")
  with assms(2) have "k \<le> length (wHeap w1)"
    using queryW_heap [of w S B "rvName rv" request] by simp
  then show ?thesis
    using assms(2)
    by (auto simp: resolverAnswer_def Cons q Let_def resolver_answer_def storeW_heap
        intro!: heapAtLeast_bind heapAtLeast_answerLoop heapAtLeast_searchDomains assms(1))
qed (use assms(2) in \<open>simp add: resolverAnswer_def\<close>)

lemma growing_answerWithContext: "growing k (answerWithContext n S B rm name)"
proof (induction n arbitrary: name)
  case (Suc n)
  then show ?case
    by (auto simp: growing_def intro!: heapAtLeast_bind heapAtLeast_resolverAnswer split: option.splits)
qed (simp add: growing_def)

lemma multiResolverLoop_heap:
  assumes "multiResolverLoop S B rm names request errs (w, c) = Ret (r, w')" "k \<le> length (wHeap w)"
  shows "k \<le> length (wHeap w')"
  using assms
proof (induction names arbitrary: errs w c)
  case (Cons name names)
  obtain r1 w1 c1 where a: "answerWithContext (mapFuel rm) S B rm name request (w, c) = Ret (r1, (w1, c1))"
    using Cons.prems(1) by (cases "answerWithContext (mapFuel rm) S B rm name request (w, c)") auto
  then have "k \<le> length (wHeap w1)"
    using growingD [OF growing_answerWithContext Cons.prems(2), of "mapFuel rm" S B rm name request c] by simp
  with Cons.prems(1) a show ?case
    by (auto intro: Cons.IH split: sum.splits if_splits)
qed simp

lemma AnswerMultiResolvers_heap:
  "AnswerMultiResolvers S B rm names request w = Ret (r, w') \<Longrightarrow> length (wHeap w) \<le> length (wHeap w')"
  unfolding AnswerMultiResolvers_def by (rule multiResolverLoop_heap) auto

lemma AnswerMultiResolvers_content:
  assumes "AnswerMultiResolvers S B rm names request w = Ret (Inr (Some p, res), w')"
  shows "\<not> emptyAt (srcDns S) w' (Some p)" "p < length (wHeap w')" "pred_option (\<lambda>r. rrMatch r = MatchNone) res"
proof -
  have "\<not> emptyAt (srcDns S) w' (Some p) \<and> pred_option (\<lambda>r. rrMatch r = MatchNone) res"
    if "multiResolverLoop S B rm names request errs (w, c) = Ret (Inr (Some p, res), w')" for errs c
    using that
  proof (induction names arbitrary: errs w c)
    case (Cons name names)
    obtain r1 w1 c1 where "answerWithContext (mapFuel rm) S B rm name request (w, c) = Ret (r1, (w1, c1))"
      using Cons.prems by (cases "answerWithContext (mapFuel rm) S B rm name request (w, c)") auto
    with Cons.prems show ?case
      by (auto simp: answerResult_def resultOf_def emptyResult_def dest: Cons.IH split: sum.splits if_splits)
  qed (auto split: if_splits)
  then show *: "\<not> emptyAt (srcDns S) w' (Some p)" "pred_option (\<lambda>r. rrMatch r = MatchNone) res"
    using assms unfolding AnswerMultiResolvers_def by blast+
  show "p < length (wHeap w')"
    using *(1) by (auto simp: emptyAt_def deref_def IsEmptyResponse_def split: if_splits)
qed

lemma AnswerMultiResolvers_none:
  "AnswerMultiResolvers S B rm names request w = Ret (Inr (None, res), w') \<Longrightarrow> res = None"
proof -
  have "res = None" if "multiResolverLoop S B rm names request errs (w, c) = Ret (Inr (None, res), w')" for errs c
    using that
  proof (induction names arbitrary: errs w c)
    case (Cons name names)
    obtain r1 w1 c1 where "answerWithContext (mapFuel rm) S B rm name request (w, c) = Ret (r1, (w1, c1))"
      using Cons.prems by (cases "answerWithContext (mapFuel rm) S B rm name request (w, c)") auto
    with Cons.prems show ?case
      by (auto simp: emptyAt_def deref_def IsEmptyResponse_def dest: Cons.IH split: sum.splits if_splits)
  qed (auto split: if_splits)
  then show "AnswerMultiResolvers S B rm names request w = Ret (Inr (None, res), w') \<Longrightarrow> res = None"
    unfolding AnswerMultiResolvers_def by blast
qed

end
