(* ===== verification/Metrics.thy ===== *)
theory Metrics
  imports Resolver
begin

text \<open>
  \<^verbatim>\<open>src/engine/metrics.go\<close>: the named counters, what a recorded query adds to them, the snapshots kept
  in the table \<open>metrics\<close>; and the record of a query (\<open>InfoRecord\<close>, from \<^verbatim>\<open>src/engine/recorder.go\<close>).

  A counter is an \<open>int64\<close>: an integer with the wrap-around written out. \<open>metricsMap\<close> maps a prefixed
  name to its counter; \<open>Get\<close> creates a missing counter, so reading one also changes the map. The
  text that \<open>json.Marshal\<close> makes of the counters is kept as the map it stands for. The mutex makes
  every access atomic.
\<close>

section \<open>recorder.go: the record of a query\<close>

record requestContext =
  rqStarted :: int
  rqProtocol :: string
  rqGroups :: "string list"

record InfoRecord =
  irAddress :: string
  irRequest :: "Msg option"
  irResponse :: "Msg option"
  irResult :: "resolutionResult option"
  irRequestContext :: "requestContext option"
  irConsumer :: string
  irClientName :: string
  irConnectionType :: string
  irRequestDomain :: string
  irRequestType :: string
  irResponseText :: string
  irRcode :: string
  irBlocked :: bool
  irMatch :: Match
  irMatchList :: string
  irMatchListShort :: string
  irMatchRule :: string
  irCached :: bool
  irCreated :: int
  irFinished :: int
  irServiceMilliseconds :: int

section \<open>metrics.go: counters\<close>

abbreviation MetricsPrefix :: string where "MetricsPrefix \<equiv> ''gudgeon-''"
abbreviation TotalRules :: string where "TotalRules \<equiv> ''active-rules''"
abbreviation TotalQueries :: string where "TotalQueries \<equiv> ''total-session-queries''"
abbreviation TotalLifetimeQueries :: string where "TotalLifetimeQueries \<equiv> ''total-lifetime-queries''"
abbreviation TotalIntervalQueries :: string where "TotalIntervalQueries \<equiv> ''total-interval-queries''"
abbreviation CachedQueries :: string where "CachedQueries \<equiv> ''cached-queries''"
abbreviation BlockedQueries :: string where "BlockedQueries \<equiv> ''blocked-session-queries''"
abbreviation BlockedLifetimeQueries :: string where "BlockedLifetimeQueries \<equiv> ''blocked-lifetime-queries''"
abbreviation BlockedIntervalQueries :: string where "BlockedIntervalQueries \<equiv> ''blocked-interval-queries''"
abbreviation QueriesPerSecond :: string where "QueriesPerSecond \<equiv> ''session-queries-ps''"
abbreviation BlocksPerSecond :: string where "BlocksPerSecond \<equiv> ''session-blocks-ps''"
abbreviation QueryTime :: string where "QueryTime \<equiv> ''query-time''"
abbreviation QueryTimeAvg :: string where "QueryTimeAvg \<equiv> ''query-time-avg''"
abbreviation CurrentCacheEntries :: string where "CurrentCacheEntries \<equiv> ''cache-entries''"
abbreviation GoRoutines :: string where "GoRoutines \<equiv> ''goroutines''"
abbreviation Threads :: string where "Threads \<equiv> ''process-threads''"
abbreviation CurrentlyAllocated :: string where "CurrentlyAllocated \<equiv> ''allocated-bytes''"
abbreviation UsedMemory :: string where "UsedMemory \<equiv> ''process-used-bytes''"
abbreviation CPUHundredsPercent :: string where "CPUHundredsPercent \<equiv> ''cpu-hundreds-percent''"

type_synonym counters = "string \<rightharpoonup> int"

record metricsRow =
  mrFromTime :: int
  mrAtTime :: int
  mrValues :: counters
  mrIntervalSeconds :: int

record metrics =
  meMap :: counters
  meInterval :: "int option"
  meDuration :: "int option"
  meLastInsert :: int
  meCacheSizeFunc :: bool

text \<open>\<open>Get\<close> followed by \<open>Value\<close>, \<open>Set\<close>, \<open>Inc\<close> or \<open>Clear\<close>.\<close>

definition metricGet :: "string \<Rightarrow> metrics \<Rightarrow> int \<times> metrics" where
  "metricGet name m = (case meMap m (MetricsPrefix @ name) of
       Some v \<Rightarrow> (v, m)
     | None \<Rightarrow> (0, m\<lparr>meMap := (meMap m)(MetricsPrefix @ name \<mapsto> 0)\<rparr>))"

definition metricSet :: "string \<Rightarrow> int \<Rightarrow> metrics \<Rightarrow> metrics" where
  "metricSet name v m = m\<lparr>meMap := (meMap m)(MetricsPrefix @ name \<mapsto> v)\<rparr>"

definition metricInc :: "string \<Rightarrow> int \<Rightarrow> metrics \<Rightarrow> metrics" where
  "metricInc name by m = (let (v, m') = metricGet name m in metricSet name (wrap64 (v + by)) m')"

definition metricClear :: "string \<Rightarrow> metrics \<Rightarrow> metrics" where
  "metricClear name m = metricSet name 0 m"

definition metricValue :: "string \<Rightarrow> metrics \<Rightarrow> int" where
  "metricValue name m = fst (metricGet name m)"

section \<open>metrics.go: updates\<close>

text \<open>What the process and the runtime report at one moment; a reading that failed is \<^const>\<open>None\<close>.\<close>

record procInfo =
  piCpuHundredths :: "int option"
  piNumCPU :: int
  piRSS :: "int option"
  piThreads :: "int option"
  piGoroutines :: int
  piAlloc :: int

text \<open>
  \<open>math.Round(float64(count) / interval.Seconds())\<close>, halves away from zero. The quotient is taken
  exactly: for counts below \<open>2^40\<close> and intervals of whole seconds the floating point quotient rounds
  to the same integer.
\<close>

definition perSecond :: "int \<Rightarrow> int \<Rightarrow> int" where
  "perSecond count interval =
     (let a = \<bar>count\<bar> * 1000000000 in sgn count * ((2 * a + interval) div (2 * interval)))"

text \<open>Go's integer division truncates.\<close>

definition goDiv :: "int \<Rightarrow> int \<Rightarrow> int" where
  "goDiv a b = sgn a * sgn b * (\<bar>a\<bar> div \<bar>b\<bar>)"

definition setReading :: "string \<Rightarrow> int option \<Rightarrow> metrics \<Rightarrow> metrics" where
  "setReading name r m = (case r of None \<Rightarrow> m | Some v \<Rightarrow> metricSet name v m)"

definition updateRates :: "metrics \<Rightarrow> metrics" where
  "updateRates m = (case meInterval m of
       None \<Rightarrow> m
     | Some interval \<Rightarrow>
         (let (q, m1) = metricGet TotalIntervalQueries m;
              m2 = metricSet QueriesPerSecond (perSecond q interval) m1;
              (b, m3) = metricGet BlockedIntervalQueries m2
          in metricSet BlocksPerSecond (perSecond b interval) m3))"

definition updateAverage :: "metrics \<Rightarrow> metrics" where
  "updateAverage m =
     (let (q, m1) = metricGet TotalIntervalQueries m in
      if q > 0 then (let (t, m2) = metricGet QueryTime m1 in metricSet QueryTimeAvg (goDiv t q) m2) else m1)"

definition update :: "procInfo option \<Rightarrow> procInfo \<Rightarrow> int \<Rightarrow> metrics \<Rightarrow> metrics" where
  "update proc rt entries m0 =
     (let m1 = updateAverage (updateRates m0);
          m2 = (case proc of
                  None \<Rightarrow> m1
                | Some p \<Rightarrow> setReading Threads (piThreads p) (setReading UsedMemory (piRSS p)
                    (setReading CPUHundredsPercent (map_option (\<lambda>c. goDiv c (piNumCPU p)) (piCpuHundredths p)) m1)));
          m3 = metricSet CurrentlyAllocated (piAlloc rt) (metricSet GoRoutines (piGoroutines rt) m2)
      in if meCacheSizeFunc m3 then metricSet CurrentCacheEntries entries m3 else m3)"

definition recordList :: "GudgeonList \<Rightarrow> metrics \<Rightarrow> metrics" where
  "recordList l m =
     metricInc (''rules-lifetime-matched-'' @ ShortName l) 1 (metricInc (''rules-session-matched-'' @ ShortName l) 1 m)"

definition isBlockedResult :: "resolutionResult option \<Rightarrow> bool" where
  "isBlockedResult r = (case r of None \<Rightarrow> False | Some res \<Rightarrow> rrBlocked res \<or> rrMatch res = MatchBlock)"

definition isCachedResult :: "resolutionResult option \<Rightarrow> bool" where
  "isCachedResult r = (case r of None \<Rightarrow> False | Some res \<Rightarrow> rrCached res)"

definition recordMetrics :: "InfoRecord \<Rightarrow> metrics \<Rightarrow> metrics" where
  "recordMetrics info m0 =
     (let m1 = metricInc TotalIntervalQueries 1 (metricInc TotalLifetimeQueries 1 (metricInc TotalQueries 1 m0));
          m2 = metricInc QueryTime (irServiceMilliseconds info) m1;
          m3 = (if isCachedResult (irResult info) then metricInc CachedQueries 1 m2 else m2)
      in if isBlockedResult (irResult info) then
           (let m4 = metricInc BlockedIntervalQueries 1 (metricInc BlockedLifetimeQueries 1 (metricInc BlockedQueries 1 m3)) in
            case irResult info of
              None \<Rightarrow> m4
            | Some res \<Rightarrow> (case rrMatchList res of None \<Rightarrow> m4 | Some l \<Rightarrow> recordList l m4))
         else m3)"

section \<open>metrics.go: the table of snapshots\<close>

text \<open>
  \<open>insert\<close> puts a row in the table and starts a new interval; a statement that fails leaves both
  alone. The number of seconds is rounded, halves away from zero.
\<close>

definition roundSeconds :: "int \<Rightarrow> int" where
  "roundSeconds d = sgn d * ((2 * \<bar>d\<bar> + 1000000000) div 2000000000)"

definition insertMetrics :: "bool \<Rightarrow> int \<Rightarrow> metricsRow list \<times> metrics \<Rightarrow> metricsRow list \<times> metrics" where
  "insertMetrics ok currentTime st =
     (let (rows, m) = st in
      if ok then
        (rows @ [\<lparr>mrFromTime = meLastInsert m, mrAtTime = currentTime, mrValues = meMap m,
                  mrIntervalSeconds = roundSeconds (currentTime - meLastInsert m)\<rparr>],
         (metricClear QueryTime (metricClear BlockedIntervalQueries (metricClear TotalIntervalQueries m)))
           \<lparr>meLastInsert := currentTime\<rparr>)
      else st)"

definition pruneMetrics :: "int \<Rightarrow> metricsRow list \<times> metrics \<Rightarrow> metricsRow list \<times> metrics" where
  "pruneMetrics now st =
     (let (rows, m) = st in
      case meDuration m of
        None \<Rightarrow> st
      | Some d \<Rightarrow> (filter (\<lambda>r. \<not> mrAtTime r \<le> now - d) rows, m))"

text \<open>
  \<open>load\<close>: the counters of the newest row whose key has \<open>lifetime\<close> in it; \<open>pick\<close> chooses among rows of
  the same time. The rows are the ones \<open>insert\<close> wrote, so their keys have the prefix; the loop sets one
  counter per key, so its order does not matter.
\<close>

definition newestRow :: "(metricsRow list \<Rightarrow> metricsRow) \<Rightarrow> metricsRow list \<Rightarrow> metricsRow option" where
  "newestRow pick rows =
     (if rows = [] then None
      else Some (pick (filter (\<lambda>r. list_all (\<lambda>r'. mrAtTime r' \<le> mrAtTime r) rows) rows)))"

definition loadMetrics :: "(metricsRow list \<Rightarrow> metricsRow) \<Rightarrow> metricsRow list \<Rightarrow> metrics \<Rightarrow> metrics" where
  "loadMetrics pick rows m = (case newestRow pick rows of
       None \<Rightarrow> m
     | Some r \<Rightarrow> m\<lparr>meMap := (\<lambda>k. if Contains k ''lifetime'' \<and> HasPrefix k MetricsPrefix \<and> mrValues r k \<noteq> None
                               then mrValues r k else meMap m k)\<rparr>)"

definition NewMetrics :: "hostenv \<Rightarrow> GudgeonMetrics \<Rightarrow> (metricsRow list \<Rightarrow> metricsRow) \<Rightarrow> metricsRow list option
    \<Rightarrow> procInfo option \<Rightarrow> procInfo \<Rightarrow> int \<Rightarrow> metrics" where
  "NewMetrics H conf pick table proc rt now =
     (let m0 = \<lparr>meMap = Map.empty,
                meInterval = (case ParseDuration H (mtInterval conf) of Inl e \<Rightarrow> None | Inr d \<Rightarrow> Some d),
                meDuration = (case ParseDuration H (mtDuration conf) of Inl e \<Rightarrow> None | Inr d \<Rightarrow> Some d),
                meLastInsert = 0, meCacheSizeFunc = False\<rparr>;
          m1 = (case table of None \<Rightarrow> m0 | Some rows \<Rightarrow> if mtPersist conf = Some True then loadMetrics pick rows m0 else m0)
      in (update proc rt 0 m1)\<lparr>meLastInsert := now\<rparr>)"

end
