(* ===== verification/Engine.thy ===== *)
theory Engine
  imports Stores Resolver_Close Resolver_Heap Metrics
begin

text \<open>
  \<^verbatim>\<open>src/engine/engine.go\<close>: which consumer a request belongs to, which groups, lists and resolvers that
  gives it, and the handling of the request: refusal, blocking, resolution and the following of
  aliases.

  A handler works on the \<open>world\<close> of the resolvers (messages live in its heap) and returns the pointer of
  the response, the request context and the result. \<open>handleCnameResolution\<close> and the handlers call each
  other; the model closes the circle with fuel: one unit for each call of \<open>HandleWithResolvers\<close>. The
  engine's recorder is fed with what \<open>Handle\<close> returns beside the response (see the theory \<open>Recorder\<close>).
\<close>

section \<open>State\<close>

record engineGroup =
  grConfig :: GudgeonGroup
  grLists :: "GudgeonList list"

record engineConsumer =
  ecConfig :: GudgeonConsumer
  ecGroupNames :: "string list"
  ecResolverNames :: "string list"
  ecLists :: "GudgeonList list"

text \<open>The Go maps \<open>groups\<close> and \<open>consumerMap\<close> are association lists.\<close>

record 'f engine =
  egConfig :: GudgeonConfig
  egStore :: "'f store option"
  egResolvers :: resolverMap
  egSources :: sourceState
  egGroups :: "(string \<times> engineGroup) list"
  egConsumers :: "engineConsumer list"
  egConsumerMap :: "(string \<times> engineConsumer) list"
  egDefaultConsumer :: "engineConsumer option"
  egMetrics :: "metrics option"
  egRecorder :: bool
  egConsumerNames :: "string list option"
  egGroupNames :: "string list option"
  egResolverNames :: "string list option"
  egListEntries :: "(string \<times> string) list option"

section \<open>Consumers\<close>

definition matchesIP :: "string \<Rightarrow> ip \<Rightarrow> bool" where
  "matchesIP text address =
     (text \<noteq> [] \<and> (case ParseIP text of None \<Rightarrow> False | Some b \<Rightarrow> sliceOf (To16 b) = sliceOf (To16 address)))"

definition matchesRange :: "GudgeonMatchRange option \<Rightarrow> ip \<Rightarrow> bool" where
  "matchesRange rg address = (case rg of
       None \<Rightarrow> False
     | Some r \<Rightarrow> rgStart r \<noteq> [] \<and> rgEnd r \<noteq> [] \<and>
         (case (ParseIP (rgStart r), ParseIP (rgEnd r)) of
            (Some s, Some e) \<Rightarrow> bytesLe (sliceOf (To16 s)) (sliceOf (To16 address)) \<and> bytesLe (sliceOf (To16 address)) (sliceOf (To16 e))
          | _ \<Rightarrow> False))"

definition matchesNet :: "string \<Rightarrow> ip \<Rightarrow> bool" where
  "matchesNet text address =
     (text \<noteq> [] \<and> (case ParseCIDR text of None \<Rightarrow> False | Some n \<Rightarrow> netContains n address))"

fun consumerMatches :: "GudgeonMatch list \<Rightarrow> ip \<Rightarrow> bool" where
  "consumerMatches [] address = False"
| "consumerMatches (m # ms) address =
     (if matchesIP (mcIP m) address then True
      else if matchesRange (mcRange m) address then True
      else if matchesNet (mcNet m) address then True
      else consumerMatches ms address)"

fun findConsumer :: "engineConsumer list \<Rightarrow> ip \<Rightarrow> engineConsumer option" where
  "findConsumer [] address = None"
| "findConsumer (c # cs) address =
     (if consumerMatches (csMatches (ecConfig c)) address then Some c else findConsumer cs address)"

definition getConsumerForIP :: "'f engine \<Rightarrow> ip \<Rightarrow> engineConsumer option" where
  "getConsumerForIP eg address = (case findConsumer (egConsumers eg) address of
       Some c \<Rightarrow> Some c
     | None \<Rightarrow> egDefaultConsumer eg)"

definition getGroups :: "engineConsumer option \<Rightarrow> string list" where
  "getGroups consumer = (case consumer of
       Some c \<Rightarrow> if length (ecGroupNames c) > 0 then ecGroupNames c else [''default'']
     | None \<Rightarrow> [''default''])"

definition getConsumerGroups :: "'f engine \<Rightarrow> ip \<Rightarrow> string list" where
  "getConsumerGroups eg address = getGroups (getConsumerForIP eg address)"

definition getResolvers :: "engineConsumer option \<Rightarrow> string list" where
  "getResolvers consumer = (case consumer of
       Some c \<Rightarrow> if length (ecResolverNames c) > 0 then ecResolverNames c else [''default'']
     | None \<Rightarrow> [''default''])"

definition getConsumerResolvers :: "'f engine \<Rightarrow> ip \<Rightarrow> string list" where
  "getConsumerResolvers eg address = getResolvers (getConsumerForIP eg address)"

section \<open>Rules\<close>

definition domainRuleMatchForLists :: "'f storelib \<Rightarrow> 'f engine \<Rightarrow> GudgeonList list \<Rightarrow> string \<Rightarrow> matchResult" where
  "domainRuleMatchForLists E eg ls d =
     (let domain = (if HasSuffix d ''.'' then butlast d else d) in
      case egStore eg of
        None \<Rightarrow> noMatch
      | Some store \<Rightarrow> if length ls < 1 then noMatch else FindMatch E store ls domain)"

definition domainRuleMatchedForConsumer :: "'f storelib \<Rightarrow> 'f engine \<Rightarrow> engineConsumer option \<Rightarrow> string \<Rightarrow> matchResult" where
  "domainRuleMatchedForConsumer E eg consumer domain = (case consumer of
       None \<Rightarrow> noMatch
     | Some c \<Rightarrow> domainRuleMatchForLists E eg (ecLists c) domain)"

definition IsDomainRuleMatched :: "'f storelib \<Rightarrow> 'f engine \<Rightarrow> ip \<Rightarrow> string \<Rightarrow> matchResult" where
  "IsDomainRuleMatched E eg address domain = domainRuleMatchedForConsumer E eg (getConsumerForIP eg address) domain"

definition groupLists :: "'f engine \<Rightarrow> string list \<Rightarrow> GudgeonList list" where
  "groupLists eg names = concat (map (\<lambda>g. case map_of (egGroups eg) g of None \<Rightarrow> [] | Some gr \<Rightarrow> grLists gr) names)"

definition domainRuleMatchedForGroups :: "'f storelib \<Rightarrow> 'f engine \<Rightarrow> string list \<Rightarrow> string \<Rightarrow> matchResult" where
  "domainRuleMatchedForGroups E eg names domain =
     (if length names < 1 then noMatch
      else domainRuleMatchForLists E eg (groupLists eg names) domain)"

section \<open>Requests\<close>

definition notImplemented :: "16 word list" where
  "notImplemented = [TypeNone, TypeNULL, TypeIXFR, TypeAXFR]"

definition errorReply :: "dnslib \<Rightarrow> Msg \<Rightarrow> int \<Rightarrow> Msg" where
  "errorReply D request code = (SetReply D newMsg request)\<lparr>msgRcode := code\<rparr>"

text \<open>
  The response to a request that is not to be handled, or nothing. \<open>SetReply\<close> reads its argument, so a
  nil request panics.
\<close>

definition invalidRequestHandler :: "dnslib \<Rightarrow> Msg option \<Rightarrow> Msg option run" where
  "invalidRequestHandler D request = (case request of
       None \<Rightarrow> Panic
     | Some r \<Rightarrow>
         (case msgQuestion r of
            [] \<Rightarrow> Ret (Some (errorReply D r RcodeRefused))
          | q # _ \<Rightarrow>
              if Qtype q \<in> set notImplemented then Ret (Some (errorReply D r RcodeNotImplemented))
              else if length (Qname q) < 1 \<or> length (Qname q) > 255 then Ret (Some (errorReply D r RcodeBadName))
              else Ret None))"

type_synonym 'b handled = "((ptr \<times> requestContext option \<times> resolutionResult) \<times> 'b world) run"
type_synonym 'b handler = "string list \<Rightarrow> requestContext option \<Rightarrow> Msg \<Rightarrow> 'b world \<Rightarrow> 'b handled"

text \<open>
  The recursive calls of \<open>handleCnameResolution\<close> are its first two arguments. The assertion that the
  record is a \<open>*dns.CNAME\<close> and the use of a nil context panic.
\<close>

definition handleCnameResolution :: "dnslib \<Rightarrow> 'b handler \<Rightarrow> 'b handler \<Rightarrow> string list \<Rightarrow> requestContext option \<Rightarrow> Msg
    \<Rightarrow> ptr option \<Rightarrow> 'b world \<Rightarrow> (ptr option \<times> 'b world) run" where
  "handleCnameResolution D withGroups withResolvers resolvers rCon request response w =
     (case deref (wHeap w) response of
        None \<Rightarrow> Ret (None, w)
      | Some m \<Rightarrow>
          (case (msgAnswer m, msgQuestion request) of
             (a # _, q # _) \<Rightarrow>
               if Rrtype (Header a) = TypeCNAME \<and> Qtype q \<noteq> TypeCNAME then
                 (case (a, rCon) of
                    (RR_CNAME h target, Some rc) \<Rightarrow>
                      (let cnameRequest = setQname target request in
                       bind_run (if length (rqGroups rc) > 0 then withGroups (rqGroups rc) rCon cnameRequest w
                                 else withResolvers resolvers rCon cnameRequest w) (\<lambda>((p, _, _), w').
                         if \<not> emptyAt D w' (Some p)
                         then Ret (Some p, redirectReply D (Qname q) request p w')
                         else Ret (None, w')))
                  | _ \<Rightarrow> Panic)
               else Ret (None, w)
           | _ \<Rightarrow> Ret (None, w)))"

text \<open>The reply to a request that could not be answered is written into the response in place.\<close>

definition nameErrorAt :: "dnslib \<Rightarrow> Msg \<Rightarrow> ptr \<Rightarrow> 'b world \<Rightarrow> 'b world" where
  "nameErrorAt D request p w =
     w\<lparr>wHeap := (wHeap w)[p := (SetReply D (wHeap w ! p) request)\<lparr>msgRcode := RcodeNameError\<rparr>]\<rparr>"

text \<open>
  \<open>recover\<close> outside a deferred call returns nil, so the block behind it does nothing.
\<close>

definition resolversWith :: "srclib \<Rightarrow> 'b backer \<Rightarrow> 'f engine \<Rightarrow> 'b handler \<Rightarrow> 'b handler \<Rightarrow> 'b handler" where
  "resolversWith S B eg withGroups withResolvers resolverNames rCon request w =
     bind_run (invalidRequestHandler (srcDns S) (Some request)) (\<lambda>invalid.
       case invalid of
         Some m \<Rightarrow> (let (p, w') = allocW m w in Ret ((p, rCon, emptyResult), w'))
       | None \<Rightarrow>
           bind_run
             (if length resolverNames > 0 then
                bind_run (AnswerMultiResolvers S B (egResolvers eg) resolverNames request w) (\<lambda>(answer, w1).
                  case answer of
                    Inl err \<Rightarrow> Ret ((None, None), w1)
                  | Inr (response, result) \<Rightarrow>
                      bind_run (handleCnameResolution (srcDns S) withGroups withResolvers resolverNames rCon request response w1)
                        (\<lambda>(cname, w2). Ret ((if \<not> emptyAt (srcDns S) w2 cname then cname else response, result), w2)))
              else Ret ((None, Some emptyResult), w))
             (\<lambda>((response, result), w3).
                let (p, w4) = (case response of None \<Rightarrow> allocW newMsg w3 | Some p \<Rightarrow> (p, w3));
                    w5 = (if emptyAt (srcDns S) w4 (Some p) then nameErrorAt (srcDns S) request p w4 else w4)
                in Ret ((p, rCon, case result of None \<Rightarrow> emptyResult | Some r \<Rightarrow> r), w5)))"

definition groupResolvers :: "'f engine \<Rightarrow> string list \<Rightarrow> string list" where
  "groupResolvers eg names =
     concat (map (\<lambda>g. case map_of (egGroups eg) g of None \<Rightarrow> [] | Some gr \<Rightarrow> gpResolvers (grConfig gr)) names)"

definition matchedResult :: "matchResult \<Rightarrow> resolutionResult" where
  "matchedResult r = (case r of (m, l, t) \<Rightarrow>
     if m \<noteq> MatchNone then emptyResult\<lparr>rrMatch := m, rrMatchList := l, rrMatchRule := t\<rparr> else emptyResult)"

definition groupsWith :: "srclib \<Rightarrow> 'f storelib \<Rightarrow> 'f engine \<Rightarrow> 'b handler \<Rightarrow> 'b handler" where
  "groupsWith S E eg withResolvers names rCon request w =
     bind_run (invalidRequestHandler (srcDns S) (Some request)) (\<lambda>invalid.
       case invalid of
         Some m \<Rightarrow> (let (p, w') = allocW m w in Ret ((p, rCon, emptyResult), w'))
       | None \<Rightarrow>
           (let rc = (case rCon of
                        None \<Rightarrow> \<lparr>rqStarted = 0, rqProtocol = [], rqGroups = names\<rparr>
                      | Some r \<Rightarrow> r\<lparr>rqGroups := names\<rparr>);
                matched = domainRuleMatchedForGroups E eg names (Qname (hd (msgQuestion request)))
            in if fst matched = MatchBlock
               then (let (p, w') = allocW (errorReply (srcDns S) request RcodeNameError) w in
                     Ret ((p, Some rc, matchedResult matched), w'))
               else withResolvers (groupResolvers eg names) (Some rc) request w))"

primrec HandleWithResolvers :: "nat \<Rightarrow> srclib \<Rightarrow> 'f storelib \<Rightarrow> 'b backer \<Rightarrow> 'f engine \<Rightarrow> 'b handler" where
  "HandleWithResolvers 0 S E B eg = (\<lambda>names rCon request w. NoFuel)"
| "HandleWithResolvers (Suc n) S E B eg =
     resolversWith S B eg (groupsWith S E eg (HandleWithResolvers n S E B eg)) (HandleWithResolvers n S E B eg)"

definition HandleWithGroups :: "nat \<Rightarrow> srclib \<Rightarrow> 'f storelib \<Rightarrow> 'b backer \<Rightarrow> 'f engine \<Rightarrow> 'b handler" where
  "HandleWithGroups n S E B eg = groupsWith S E eg (HandleWithResolvers n S E B eg)"

text \<open>A nil consumer is dereferenced. \<open>SetReply\<close> comes after the response code is set.\<close>

definition HandleWithConsumer :: "nat \<Rightarrow> srclib \<Rightarrow> 'f storelib \<Rightarrow> 'b backer \<Rightarrow> 'f engine
    \<Rightarrow> engineConsumer option \<Rightarrow> requestContext option \<Rightarrow> Msg \<Rightarrow> 'b world \<Rightarrow> 'b handled" where
  "HandleWithConsumer n S E B eg consumer rCon request w = (case consumer of
       None \<Rightarrow> Panic
     | Some c \<Rightarrow>
         if csBlock (ecConfig c) then
           (let (p, w') = allocW (SetReply (srcDns S) (newMsg\<lparr>msgRcode := RcodeRefused\<rparr>) request) w in
            Ret ((p, rCon, emptyResult\<lparr>rrConsumer := csName (ecConfig c), rrBlocked := True\<rparr>), w'))
         else
           bind_run (HandleWithGroups n S E B eg (getGroups consumer) rCon request w) (\<lambda>((p, rc, result), w').
             Ret ((p, rc, result\<lparr>rrConsumer := csName (ecConfig c)\<rparr>), w')))"

definition HandleWithConsumerName :: "nat \<Rightarrow> srclib \<Rightarrow> 'f storelib \<Rightarrow> 'b backer \<Rightarrow> 'f engine
    \<Rightarrow> string \<Rightarrow> requestContext option \<Rightarrow> Msg \<Rightarrow> 'b world \<Rightarrow> 'b handled" where
  "HandleWithConsumerName n S E B eg name rCon request w =
     HandleWithConsumer n S E B eg
       (case map_of (egConsumerMap eg) name of Some c \<Rightarrow> Some c | None \<Rightarrow> egDefaultConsumer eg) rCon request w"

text \<open>
  What \<open>Handle\<close> gives its recorder: the address, the request, the response, the context before it is
  put back, the result and the time.
\<close>

record recorderCall =
  rlAddress :: ip
  rlRequest :: Msg
  rlResponse :: "Msg option"
  rlContext :: "requestContext option"
  rlResult :: resolutionResult
  rlFinished :: int

definition Handle :: "nat \<Rightarrow> srclib \<Rightarrow> 'f storelib \<Rightarrow> 'b backer \<Rightarrow> 'f engine \<Rightarrow> ip \<Rightarrow> string \<Rightarrow> Msg \<Rightarrow> 'b world
    \<Rightarrow> (((ptr \<times> requestContext option \<times> resolutionResult) \<times> recorderCall option) \<times> 'b world) run" where
  "Handle n S E B eg address protocol request w =
     (let consumer = getConsumerForIP eg address;
          rCon = \<lparr>rqStarted = clock S (wTick w), rqProtocol = protocol, rqGroups = []\<rparr> in
      bind_run (HandleWithConsumer n S E B eg consumer (Some rCon) request (tickW w)) (\<lambda>((p, rc, result), w').
        let call = (if egRecorder eg then
               Some \<lparr>rlAddress = address, rlRequest = request, rlResponse = deref (wHeap w') (Some p), rlContext = rc,
                     rlResult = result, rlFinished = clock S (wTick w')\<rparr> else None);
            w'' = (if egRecorder eg then tickW w' else w')
        in Ret (((p, map_option (\<lambda>r. r\<lparr>rqGroups := []\<rparr>) rc, result), call), w'')))"

section \<open>Lookups\<close>

definition lookupMsg :: Msg where
  "lookupMsg = newMsg\<lparr>msgAuthoritative := True, msgAuthenticatedData := True, msgRecursionDesired := True\<rparr>"

abbreviation lookupContext :: requestContext where
  "lookupContext \<equiv> \<lparr>rqStarted = 0, rqProtocol = ''udp'', rqGroups = []\<rparr>"

definition Resolve :: "nat \<Rightarrow> srclib \<Rightarrow> 'f storelib \<Rightarrow> 'b backer \<Rightarrow> 'f engine \<Rightarrow> string \<Rightarrow> 'b world \<Rightarrow> (string result \<times> 'b world) run" where
  "Resolve n S E B eg domainName w =
     (if domainName = [] then Ret (Inl ''cannot resolve an empty domain name'', w)
      else
        let m = lookupMsg\<lparr>msgQuestion := [\<lparr>Qname = Fqdn (srcDns S) domainName, Qtype = TypeA, Qclass = ClassINET\<rparr>]\<rparr> in
        bind_run (HandleWithConsumer n S E B eg (egDefaultConsumer eg) (Some lookupContext) m w) (\<lambda>((p, _, _), w').
          Ret (Inr (GetFirstIPResponse (srcDns S) (deref (wHeap w') (Some p))), w')))"

fun firstPointer :: "RR list \<Rightarrow> string" where
  "firstPointer [] = []"
| "firstPointer (RR_PTR h ptr # rrs) = (if ptr \<noteq> [] then TrimSpace ptr else firstPointer rrs)"
| "firstPointer (rr # rrs) = firstPointer rrs"

definition allGroups :: "srclib \<Rightarrow> 'f engine \<Rightarrow> string list" where
  "allGroups S eg = map (\<lambda>k. case map_of (egGroups eg) k of None \<Rightarrow> k | Some g \<Rightarrow> gpName (grConfig g)) (keyOrder S (map fst (egGroups eg)))"

definition Reverse :: "nat \<Rightarrow> srclib \<Rightarrow> 'f storelib \<Rightarrow> 'b backer \<Rightarrow> 'f engine \<Rightarrow> string \<Rightarrow> 'b world \<Rightarrow> (string \<times> 'b world) run" where
  "Reverse n S E B eg address w =
     (if address = [] \<or> ParseIP address = None then Ret ([], w)
      else
        let m = lookupMsg\<lparr>msgQuestion := [\<lparr>Qname = ReverseLookupDomain (ParseIP address), Qtype = TypePTR, Qclass = ClassINET\<rparr>]\<rparr> in
        bind_run (HandleWithGroups n S E B eg (allGroups S eg) (Some lookupContext) m w) (\<lambda>((p, _, _), w').
          Ret (firstPointer (case deref (wHeap w') (Some p) of None \<Rightarrow> [] | Some r \<Rightarrow> msgAnswer r), w')))"

section \<open>The rest of the interface\<close>

definition CacheSize :: "'b backer \<Rightarrow> 'b world \<Rightarrow> int" where
  "CacheSize B w = (case wCache w of None \<Rightarrow> 0 | Some c \<Rightarrow> uint (cacheSize B c))"

text \<open>The names are computed by the first call and kept.\<close>

definition Consumers :: "srclib \<Rightarrow> 'f engine \<Rightarrow> string list \<times> 'f engine" where
  "Consumers S eg = (case egConsumerNames eg of
       Some names \<Rightarrow> (names, eg)
     | None \<Rightarrow> (let names = keyOrder S (map fst (egConsumerMap eg)) in (names, eg\<lparr>egConsumerNames := Some names\<rparr>)))"

definition Groups :: "srclib \<Rightarrow> 'f engine \<Rightarrow> string list \<times> 'f engine" where
  "Groups S eg = (case egGroupNames eg of
       Some names \<Rightarrow> (names, eg)
     | None \<Rightarrow> (let names = allGroups S eg in (names, eg\<lparr>egGroupNames := Some names\<rparr>)))"

definition Resolvers :: "'f engine \<Rightarrow> (string list \<times> 'f engine) run" where
  "Resolvers eg = (case egResolverNames eg of
       Some names \<Rightarrow> Ret (names, eg)
     | None \<Rightarrow> if None \<in> set (cfResolvers (egConfig eg)) then Panic
               else (let names = map (rsName \<circ> the) (cfResolvers (egConfig eg)) in Ret (names, eg\<lparr>egResolverNames := Some names\<rparr>)))"

definition Lists :: "'f engine \<Rightarrow> ((string \<times> string) list \<times> 'f engine) run" where
  "Lists eg = (case egListEntries eg of
       Some entries \<Rightarrow> Ret (entries, eg)
     | None \<Rightarrow> if None \<in> set (cfLists (egConfig eg)) then Panic
               else (let entries = map ((\<lambda>l. (CanonicalName l, ShortName l)) \<circ> the) (cfLists (egConfig eg)) in
                     Ret (entries, eg\<lparr>egListEntries := Some entries\<rparr>)))"

text \<open>
  Closing closes the sources of the resolvers, clears their cache and closes the store; a nil store panics. A
  call that waits for ever has no result, like one that runs out of fuel. Only the state of the sources
  that \<open>Close\<close> reads is kept in the engine: what queries leave in a pool does not matter to it.
\<close>

fun chanRun :: "'a chan \<Rightarrow> 'a run" where
  "chanRun (Done x) = Ret x"
| "chanRun Block = NoFuel"
| "chanRun SendPanic = Panic"

definition engineClose :: "'b backer \<Rightarrow> 'f engine \<Rightarrow> 'b world \<Rightarrow> ('f engine \<times> 'b world) run" where
  "engineClose B eg w = bind_run (chanRun (resolverMapClose (egResolvers eg) (egSources eg))) (\<lambda>ss.
     case egStore eg of
       None \<Rightarrow> Panic
     | Some store \<Rightarrow> Ret (eg\<lparr>egStore := Some (Close store), egMetrics := None, egSources := ss\<rparr>, clearW B w))"

lemma engineClose_Ret:
  "engineClose B eg w = Ret (eg', w') \<longleftrightarrow> (\<exists>ss store. resolverMapClose (egResolvers eg) (egSources eg) = Done ss \<and> egStore eg = Some store \<and>
     eg' = eg\<lparr>egStore := Some (Close store), egMetrics := None, egSources := ss\<rparr> \<and> w' = clearW B w)"
  by (cases "resolverMapClose (egResolvers eg) (egSources eg)") (auto simp: engineClose_def split: option.splits)

end
