(* ===== verification/Config_Init.thy ===== *)
theory Config_Init
  imports Config
begin

text \<open>
  \<^verbatim>\<open>src/config/config_init.go\<close>: verification and defaults of every part of the configuration. Each
  function returns the updated part and its warnings; the error lists of the source are always
  empty, so only \<open>verifyAndInit\<close> returns one, in the place of the source's.
  What later code relies on is proved in the theory \<open>Config_Facts\<close>.
\<close>

section \<open>Single parts\<close>

definition isAlnum :: "char \<Rightarrow> bool" where
  "isAlnum c = (let n = (of_char c :: nat) in
     (48 \<le> n \<and> n \<le> 57) \<or> (65 \<le> n \<and> n \<le> 90) \<or> (97 \<le> n \<and> n \<le> 122))"

text \<open>\<open>alphaRegex.ReplaceAllString(s, "_")\<close> with \<open>[^a-zA-Z0-9]+\<close>\<close>

fun alphaReplaceFrom :: "bool \<Rightarrow> string \<Rightarrow> string" where
  "alphaReplaceFrom inRun [] = []"
| "alphaReplaceFrom inRun (c # s) =
     (if isAlnum c then c # alphaReplaceFrom False s
      else if inRun then alphaReplaceFrom True s
      else CHR ''_'' # alphaReplaceFrom True s)"

definition alphaReplace :: "string \<Rightarrow> string" where
  "alphaReplace s = alphaReplaceFrom False s"

definition VerifyAndInitList :: "GudgeonList \<Rightarrow> GudgeonList" where
  "VerifyAndInitList l0 =
     (let l1 = l0\<lparr>lsShortName := alphaReplace (CanonicalName l0)\<rparr>;
          l2 = (if lsRegex l1 = None then l1\<lparr>lsRegex := Some False\<rparr> else l1);
          l3 = (if EqualFold ALLOWSTRING (lsType l2) then l2\<lparr>lsParsedType := ALLOW\<rparr>
                else l2\<lparr>lsType := BLOCKSTRING, lsParsedType := BLOCK\<rparr>) in
      l3\<lparr>lsName := ToLower (lsName l3)\<rparr>)"

definition orElse :: "'a option \<Rightarrow> 'a option \<Rightarrow> 'a option" where
  "orElse a b = (case a of None \<Rightarrow> b | Some x \<Rightarrow> Some x)"

definition verifyStorage :: "GudgeonStorage \<Rightarrow> GudgeonStorage" where
  "verifyStorage s = s\<lparr>stCacheEnabled := orElse (stCacheEnabled s) (Some True)\<rparr>"

definition verifyWeb :: "GudgeonWeb \<Rightarrow> GudgeonWeb" where
  "verifyWeb w =
     (if wbEnabled w then
        (let w1 = (if wbAddress w = [] then w\<lparr>wbAddress := ''127.0.0.1''\<rparr> else w) in
         if wbPort w1 < 1 then w1\<lparr>wbPort := 9009\<rparr> else w1)
      else w)"

definition verifyInterface :: "bool option \<Rightarrow> bool option \<Rightarrow> GudgeonInterface \<Rightarrow> GudgeonInterface" where
  "verifyInterface tcp udp i =
     i\<lparr>ifTCP := orElse (ifTCP i) tcp, ifUDP := orElse (ifUDP i) udp\<rparr>"

definition verifyNetwork :: "GudgeonNetwork \<Rightarrow> GudgeonNetwork" where
  "verifyNetwork n =
     (let tcp = orElse (nwTCP n) (Some True); udp = orElse (nwUDP n) (Some True) in
      n\<lparr>nwTCP := tcp, nwUDP := udp, nwInterfaces := map (verifyInterface tcp udp) (nwInterfaces n)\<rparr>)"

abbreviation millisecond :: int where "millisecond \<equiv> 1000000"
abbreviation second :: int where "second \<equiv> 1000000000"
abbreviation minute :: int where "minute \<equiv> 60 * second"
abbreviation hour :: int where "hour \<equiv> 60 * minute"

definition verifyDatabase :: "hostenv \<Rightarrow> GudgeonDatabase \<Rightarrow> GudgeonDatabase \<times> string list" where
  "verifyDatabase H d0 =
     (let d = (if dbFlush d0 = [] then d0\<lparr>dbFlush := ''1s''\<rparr> else d0) in
      case ParseDuration H (dbFlush d) of
        Inl err \<Rightarrow> (d\<lparr>dbFlush := ''1s''\<rparr>,
          [''Could not parse database flush interval: '' @ err @ '', using default (1s)''])
      | Inr parsed \<Rightarrow>
          if parsed > minute then
            (d, [''A flush interval greater than 1m is probably too long, consider changing this value ('' @ dbFlush d @ '')''])
          else if parsed < 500 * millisecond then
            (d\<lparr>dbFlush := ''1s''\<rparr>,
             [''A flush interval less than 500ms is probably too short, using default value (1s)''])
          else (d, []))"

definition verifyMetrics :: "hostenv \<Rightarrow> GudgeonMetrics \<Rightarrow> GudgeonMetrics \<times> string list" where
  "verifyMetrics H m0 =
     (let en = orElse (mtEnabled m0) (Some True);
          m1 = m0\<lparr>mtEnabled := en, mtPersist := orElse (mtPersist m0) en, mtDetailed := orElse (mtDetailed m0) en\<rparr>;
          m2 = (if mtDuration m1 = [] then m1\<lparr>mtDuration := ''7d''\<rparr> else m1);
          (m3, w3) = (case ParseDuration H (mtDuration m2) of
              Inl err \<Rightarrow> (m2\<lparr>mtDuration := ''7d''\<rparr>,
                [''Could not parse metrics duration: '' @ err @ '', using default (7d)''])
            | Inr _ \<Rightarrow> (m2, []));
          m4 = (if mtInterval m3 = [] then m3\<lparr>mtInterval := ''15s''\<rparr> else m3);
          (m5, w5) = (case ParseDuration H (mtInterval m4) of
              Inl err \<Rightarrow> (m4\<lparr>mtInterval := ''15s''\<rparr>,
                [''Could not parse metrics interval: '' @ err @ '', using default (15s)''])
            | Inr parsed \<Rightarrow>
                if parsed < second then
                  (m4\<lparr>mtInterval := ''15s''\<rparr>,
                   [''A metrics interval less than 1s is probably too short, using default value (15s)''])
                else if parsed > 30 * minute then
                  (m4, [''A metrics interval more than 30 minutes (30m) is fairly low resolution, consider changing this value''])
                else (m4, []))
      in (m5, w3 @ w5))"

definition verifySystemd :: "GudgeonSystemd \<Rightarrow> GudgeonSystemd" where
  "verifySystemd s =
     s\<lparr>sdEnabled := orElse (sdEnabled s) (Some True),
       sdDnsPorts := orElse (sdDnsPorts s) (Some [53]),
       sdHttpPorts := orElse (sdHttpPorts s) (Some [80, 8080])\<rparr>"

definition verifyQueryLog :: "hostenv \<Rightarrow> GudgeonQueryLog \<Rightarrow> GudgeonQueryLog \<times> string list" where
  "verifyQueryLog H q0 =
     (let en = orElse (qlEnabled q0) (Some True);
          q1 = q0\<lparr>qlEnabled := en, qlPersist := orElse (qlPersist q0) en, qlStdout := orElse (qlStdout q0) en,
                 qlReverseLookup := orElse (qlReverseLookup q0) en, qlMdnsLookup := orElse (qlMdnsLookup q0) en,
                 qlNetbiosLookup := orElse (qlNetbiosLookup q0) en\<rparr>;
          q2 = (if qlDuration q1 = [] then q1\<lparr>qlDuration := ''7d''\<rparr> else q1) in
      case ParseDuration H (qlDuration q2) of
        Inl err \<Rightarrow> (q2\<lparr>qlDuration := ''7d''\<rparr>,
          [''Could not parse query log duration: '' @ err @ '', using default (7d)''])
      | Inr parsed \<Rightarrow>
          if parsed < hour then
            (q2\<lparr>qlDuration := ''1h''\<rparr>,
             [''A query log duration less than 1 hour (1h) is probably too short, using 1h''])
          else (q2, []))"

section \<open>Named parts and their maps\<close>

text \<open>
  Each loop returns the list with the elements as they are after the loop, the warnings and the map.
  Where the source passes a format string and its argument to \<open>append\<close>, both become warnings.
\<close>

definition quoted :: "string \<Rightarrow> string" where
  "quoted s = CHR 0x27 # s @ [CHR 0x27]"

fun groupsLoop :: "GudgeonGroup option list \<Rightarrow> (string \<rightharpoonup> GudgeonGroup)
    \<Rightarrow> GudgeonGroup option list \<times> string list \<times> (string \<rightharpoonup> GudgeonGroup)" where
  "groupsLoop [] m = ([], [], m)"
| "groupsLoop (None # gs) m = (let (gs', w, m') = groupsLoop gs m in (None # gs', w, m'))"
| "groupsLoop (Some g # gs) m =
     (if gpName g = [] then
        (let (gs', w, m') = groupsLoop gs m in
         (Some g # gs',
          ''A group with no name was found in the configuration, a group with no name will not be used.'' # w, m'))
      else
        (let g' = g\<lparr>gpName := ToLower (gpName g)\<rparr> in
         if m (gpName g') \<noteq> None then
           (let (gs', w, m') = groupsLoop gs m in
            (Some g' # gs',
             (''More than one group was found with the name '' @ quoted ''%s''
                @ '', group names are case insensitive and must be unique.'')
             # gpName g' # w, m'))
         else
           (let (gs', w, m') = groupsLoop gs (m(gpName g' \<mapsto> g')) in (Some g' # gs', w, m'))))"

definition defaultGroup :: GudgeonGroup where
  "defaultGroup = \<lparr>gpName = defaultString, gpInherit = [], gpResolvers = [defaultString],
     gpLists = [], gpTags = Some [defaultString]\<rparr>"

definition verifyAndInitGroups :: "GudgeonConfig \<Rightarrow> GudgeonConfig \<times> string list" where
  "verifyAndInitGroups c =
     (let (gs, w, m) = groupsLoop (cfGroups c) (cfGroupMap c) in
      if m defaultString = None
      then (c\<lparr>cfGroups := gs @ [Some defaultGroup], cfGroupMap := m(defaultString \<mapsto> defaultGroup)\<rparr>, w)
      else (c\<lparr>cfGroups := gs, cfGroupMap := m\<rparr>, w))"

fun consumersLoop :: "GudgeonConsumer option list \<Rightarrow> (string \<rightharpoonup> GudgeonConsumer)
    \<Rightarrow> GudgeonConsumer option list \<times> string list \<times> (string \<rightharpoonup> GudgeonConsumer)" where
  "consumersLoop [] m = ([], [], m)"
| "consumersLoop (None # cs) m = (let (cs', w, m') = consumersLoop cs m in (None # cs', w, m'))"
| "consumersLoop (Some k # cs) m =
     (if csName k = [] then
        (let (cs', w, m') = consumersLoop cs m in
         (Some k # cs',
          ''A consumer with no name was found in the configuration, a consumer with no name will not be used.'' # w, m'))
      else
        (let k' = k\<lparr>csName := ToLower (csName k)\<rparr> in
         if m (csName k') \<noteq> None then
           (let (cs', w, m') = consumersLoop cs m in
            (Some k' # cs',
             (''More than one consumer was found with the name '' @ quoted ''%s''
                @ '', consumer names are case insensitive and must be unique.'')
             # csName k' # w, m'))
         else
           (let (cs', w, m') = consumersLoop cs (m(csName k' \<mapsto> k')) in (Some k' # cs', w, m'))))"

definition defaultConsumer :: GudgeonConsumer where
  "defaultConsumer = \<lparr>csName = defaultString, csBlock = False, csGroups = [defaultString], csMatches = []\<rparr>"

definition verifyAndInitConsumers :: "GudgeonConfig \<Rightarrow> GudgeonConfig \<times> string list" where
  "verifyAndInitConsumers c =
     (let (cs, w, m) = consumersLoop (cfConsumers c) (cfConsumerMap c) in
      if m defaultString = None
      then (c\<lparr>cfConsumers := cs @ [Some defaultConsumer], cfConsumerMap := m(defaultString \<mapsto> defaultConsumer)\<rparr>, w)
      else (c\<lparr>cfConsumers := cs, cfConsumerMap := m\<rparr>, w))"

text \<open>A source without a name is warned about and then handled like the others.\<close>

fun sourcesLoop :: "GudgeonSource option list \<Rightarrow> (string \<rightharpoonup> GudgeonSource)
    \<Rightarrow> GudgeonSource option list \<times> string list \<times> (string \<rightharpoonup> GudgeonSource)" where
  "sourcesLoop [] m = ([], [], m)"
| "sourcesLoop (None # ss) m = (let (ss', w, m') = sourcesLoop ss m in (None # ss', w, m'))"
| "sourcesLoop (Some s # ss) m =
     (let w0 = (if srName s = [] then
            [''A source with no name was found in the configuration, a source with no name cannot be referenced and will not be used.'']
            else []);
          s' = s\<lparr>srName := ToLower (srName s)\<rparr> in
      if m (srName s') \<noteq> None then
        (let (ss', w, m') = sourcesLoop ss m in
         (Some s' # ss',
          w0 @ (''More than one source was found with the name '' @ quoted ''%s''
             @ '', source names are case insensitive and must be unique.'') # srName s' # w, m'))
      else
        (let w1 = (if systemString = srName s' then
               [''The '' @ quoted systemString @ '' source is static and cannot be overridden.''] else []);
             (ss', w, m') = sourcesLoop ss (m(srName s' \<mapsto> s')) in
         (Some s' # ss', w0 @ w1 @ w, m')))"

definition verifyAndInitSources :: "GudgeonConfig \<Rightarrow> GudgeonConfig \<times> string list" where
  "verifyAndInitSources c =
     (let (ss, w, m) = sourcesLoop (cfSources c) (cfSourceMap c) in
      (c\<lparr>cfSources := ss, cfSourceMap := m\<rparr>, w))"

definition conditionResolver :: "GudgeonResolver \<Rightarrow> GudgeonResolver" where
  "conditionResolver r =
     (if (systemString = rsName r \<or> defaultString = rsName r) \<and> length (rsSources r) = 0
      then r\<lparr>rsSources := [systemString]\<rparr> else r)"

fun resolversLoop :: "(string \<rightharpoonup> GudgeonSource) \<Rightarrow> GudgeonResolver option list \<Rightarrow> (string \<rightharpoonup> GudgeonResolver)
    \<Rightarrow> GudgeonResolver option list \<times> string list \<times> (string \<rightharpoonup> GudgeonResolver)" where
  "resolversLoop srcs [] m = ([], [], m)"
| "resolversLoop srcs (None # rs) m = (let (rs', w, m') = resolversLoop srcs rs m in (None # rs', w, m'))"
| "resolversLoop srcs (Some r # rs) m =
     (if rsName r = [] then
        (let (rs', w, m') = resolversLoop srcs rs m in
         (Some r # rs',
          ''A resolver with no name was found in the configuration, a resolver with no name will not be used.'' # w, m'))
      else
        (let r' = r\<lparr>rsName := ToLower (rsName r)\<rparr>;
             w0 = (if srcs (rsName r') \<noteq> None then
                [''A resolver and a source share the name '' @ quoted ''%s'' @ ''. Resolvers using '' @ quoted ''%s''
                   @ '' as a spec will target the SOURCE and not the RESOLVER. Consider changing the name of the source to prevent this.'',
                 rsName r', rsName r'] else []) in
         if m (rsName r') \<noteq> None then
           (let (rs', w, m') = resolversLoop srcs rs m in
            (Some r' # rs',
             w0 @ (''More than one resolver was found with the name '' @ quoted ''%s''
                @ '', resolver names are case insensitive and must be unique.'') # rsName r' # w, m'))
         else
           (let r'' = conditionResolver r';
                (rs', w, m') = resolversLoop srcs rs (m(rsName r'' \<mapsto> r'')) in
            (Some r'' # rs', w0 @ w, m'))))"

definition systemOnlyResolver :: "string \<Rightarrow> GudgeonResolver" where
  "systemOnlyResolver name = \<lparr>rsName = name, rsDomains = [], rsSkipDomains = [], rsSearch = [],
     rsHosts = [], rsSources = [systemString]\<rparr>"

definition injectResolver :: "string \<Rightarrow> GudgeonResolver option list \<times> (string \<rightharpoonup> GudgeonResolver)
    \<Rightarrow> GudgeonResolver option list \<times> (string \<rightharpoonup> GudgeonResolver)" where
  "injectResolver name st =
     (if snd st name = None
      then (fst st @ [Some (systemOnlyResolver name)], (snd st)(name \<mapsto> systemOnlyResolver name))
      else st)"

definition verifyAndInitResolvers :: "GudgeonConfig \<Rightarrow> GudgeonConfig \<times> string list" where
  "verifyAndInitResolvers c =
     (let (rs, w, m) = resolversLoop (cfSourceMap c) (cfResolvers c) (cfResolverMap c);
          (rs', m') = injectResolver defaultString (injectResolver systemString (rs, m)) in
      (c\<lparr>cfResolvers := rs', cfResolverMap := m'\<rparr>, w))"

fun listsLoop :: "GudgeonList option list \<Rightarrow> (string \<rightharpoonup> GudgeonList)
    \<Rightarrow> GudgeonList option list \<times> string list \<times> (string \<rightharpoonup> GudgeonList)" where
  "listsLoop [] m = ([], [], m)"
| "listsLoop (None # ls) m = (let (ls', w, m') = listsLoop ls m in (None # ls', w, m'))"
| "listsLoop (Some l # ls) m =
     (if lsSource l = [] then
        (let (ls', w, m') = listsLoop ls m in
         (Some l # ls',
          (if CanonicalName l \<noteq> [] then
             [''A list named %s does not have a source in the configuration, a list with no source will not be used.'',
              CanonicalName l]
           else [''A list with no source was found in the configuration, a list with no source will not be used.'']) @ w, m'))
      else
        (let l' = VerifyAndInitList l;
             (ls', w, m') = listsLoop ls (m(CanonicalName l' \<mapsto> l')) in
         (Some l' # ls', w, m')))"

definition verifyAndInitLists :: "GudgeonConfig \<Rightarrow> GudgeonConfig \<times> string list" where
  "verifyAndInitLists c =
     (let (ls, w, m) = listsLoop (cfLists c) (cfListMap c) in
      (c\<lparr>cfLists := ls, cfListMap := m\<rparr>, w))"

section \<open>The whole pass and Load\<close>

definition initMaps :: "GudgeonConfig \<Rightarrow> GudgeonConfig" where
  "initMaps c = c\<lparr>cfSourceMap := Map.empty, cfResolverMap := Map.empty, cfListMap := Map.empty,
     cfConsumerMap := Map.empty, cfGroupMap := Map.empty\<rparr>"

definition initHome :: "hostenv \<Rightarrow> GudgeonConfig \<Rightarrow> GudgeonConfig \<times> string list" where
  "initHome H c =
     (if cfHome c = [] then
        (let home = (case userHome H of None \<Rightarrow> ''./.gudgeon'' | Some h \<Rightarrow> pathJoin H h ''.gudgeon'') in
         (c\<lparr>cfHome := home\<rparr>,
          [''No home directory configured, using '' @ quoted home @ '' for Gudgeon home'']))
      else (c, []))"

definition withDefault :: "'a \<Rightarrow> 'a option \<Rightarrow> 'a" where
  "withDefault d a = (case a of None \<Rightarrow> d | Some x \<Rightarrow> x)"

definition defaultStorage :: GudgeonStorage where
  "defaultStorage = \<lparr>stRuleStorage = ''memory'', stCacheEnabled = Some True\<rparr>"

definition defaultNetwork :: GudgeonNetwork where
  "defaultNetwork = \<lparr>nwTCP = None, nwUDP = None,
     nwInterfaces = [\<lparr>ifIP = ''127.0.0.1'', ifPort = 5354, ifTCP = None, ifUDP = None\<rparr>]\<rparr>"

definition emptyMetrics :: GudgeonMetrics where
  "emptyMetrics = \<lparr>mtEnabled = None, mtPersist = None, mtDetailed = None, mtDuration = [], mtInterval = []\<rparr>"

definition emptyQueryLog :: GudgeonQueryLog where
  "emptyQueryLog = \<lparr>qlEnabled = None, qlPersist = None, qlDuration = [], qlStdout = None, qlFile = [],
     qlReverseLookup = None, qlMdnsLookup = None, qlNetbiosLookup = None\<rparr>"

text \<open>
  The result of the query log's own pass is overwritten by the next call before it is appended, so
  its warnings are lost.
\<close>

definition verifyParts :: "hostenv \<Rightarrow> GudgeonConfig \<Rightarrow> GudgeonConfig \<times> string list" where
  "verifyParts H c =
     (let db = verifyDatabase H (withDefault \<lparr>dbFlush = ''1s''\<rparr> (cfDatabase c));
          mt = verifyMetrics H (withDefault emptyMetrics (cfMetrics c));
          ql = verifyQueryLog H (withDefault emptyQueryLog (cfQueryLog c)) in
      (c\<lparr>cfStorage := Some (verifyStorage (withDefault defaultStorage (cfStorage c))),
         cfSystemd := Some (verifySystemd (withDefault \<lparr>sdEnabled = None, sdDnsPorts = None, sdHttpPorts = None\<rparr> (cfSystemd c))),
         cfNetwork := Some (verifyNetwork (withDefault defaultNetwork (cfNetwork c))),
         cfWeb := Some (verifyWeb (withDefault \<lparr>wbEnabled = True, wbAddress = [], wbPort = 0\<rparr> (cfWeb c))),
         cfDatabase := Some (fst db), cfMetrics := Some (fst mt), cfQueryLog := Some (fst ql)\<rparr>,
       snd db @ snd mt))"

definition verifyAndInit :: "hostenv \<Rightarrow> GudgeonConfig \<Rightarrow> GudgeonConfig \<times> string list \<times> string list" where
  "verifyAndInit H c0 =
     (let (c1, w1) = initHome H (initMaps c0);
          (c2, w2) = verifyParts H c1;
          (c3, w3) = verifyAndInitGroups c2;
          (c4, w4) = verifyAndInitConsumers c3;
          (c5, w5) = verifyAndInitSources c4;
          (c6, w6) = verifyAndInitResolvers c5;
          (c7, w7) = verifyAndInitLists c6 in
      (c7, w1 @ w2 @ w3 @ w4 @ w5 @ w6 @ w7, []))"

definition emptyConfig :: GudgeonConfig where
  "emptyConfig = \<lparr>cfHome = [], cfSystemd = None, cfStorage = None, cfDatabase = None, cfMetrics = None,
     cfQueryLog = None, cfNetwork = None, cfWeb = None, cfSources = [], cfResolvers = [], cfLists = [],
     cfGroups = [], cfConsumers = [], cfSourceMap = Map.empty, cfResolverMap = Map.empty,
     cfListMap = Map.empty, cfGroupMap = Map.empty, cfConsumerMap = Map.empty\<rparr>"

text \<open>
  \<open>Load\<close>: \<open>readFile\<close> and \<open>unmarshal\<close> (the YAML package) are parameters; \<open>unmarshal\<close> returns the
  \<open>Config\<close> pointer of the root object.
\<close>

definition Load :: "hostenv \<Rightarrow> (string \<Rightarrow> string result) \<Rightarrow> (string \<Rightarrow> GudgeonConfig option result) \<Rightarrow> string
    \<Rightarrow> (GudgeonConfig \<times> string list) result" where
  "Load H readFile unmarshal filename =
     (let loaded = (if filename = [] then
            Inr (Some emptyConfig, [''No file provided with '' @ quoted ''-c'' @ '' flag, using configuration defaults...''])
          else case readFile filename of
            Inl err \<Rightarrow> Inl (''Load file '' @ quoted filename @ '', error: '' @ err)
          | Inr bytes \<Rightarrow> (case unmarshal bytes of
              Inl err \<Rightarrow> Inl (''Unmarshaling file '' @ quoted filename @ '', error: '' @ err)
            | Inr c \<Rightarrow> Inr (c, []))) in
      case loaded of
        Inl err \<Rightarrow> Inl err
      | Inr (None, _) \<Rightarrow> Inl ''Loaded a nil configuration''
      | Inr (Some c, w) \<Rightarrow>
          (let (c', w', errs) = verifyAndInit H c in
           if length errs > 0
           then Inl (''Errors loading the configuration file:'' @ [CHR 0x0A]
                  @ Join (map (\<lambda>e. e @ [CHR 0x0A]) errs) [])
           else Inr (c', w @ w')))"

end
