(* ===== verification/Engine_Facts.thy ===== *)
theory Engine_Facts
  imports Engine Config_Init
begin

text \<open>
  What the engine promises for a request: what is blocked and how, that every request gets a reply,
  which consumer it is attributed to, and what following aliases does.
\<close>

section \<open>Facts about requests and responses\<close>

definition validRequest :: "Msg \<Rightarrow> bool" where
  "validRequest request = (case msgQuestion request of
       [] \<Rightarrow> False
     | q # _ \<Rightarrow> Qtype q \<notin> set notImplemented \<and> 1 \<le> length (Qname q) \<and> length (Qname q) \<le> 255)"

lemma validRequest_question: "validRequest request \<Longrightarrow> msgQuestion request \<noteq> []"
  by (auto simp: validRequest_def)

lemma invalidRequestHandler_valid [simp]:
  "validRequest request \<Longrightarrow> invalidRequestHandler D (Some request) = Ret None"
  by (auto simp: validRequest_def invalidRequestHandler_def split: list.splits)

lemma invalidRequestHandler_invalid:
  "\<not> validRequest request \<Longrightarrow> \<exists>code \<in> {RcodeRefused, RcodeNotImplemented, RcodeBadName}.
     invalidRequestHandler D (Some request) = Ret (Some (errorReply D request code))"
  by (cases "msgQuestion request") (auto simp: validRequest_def invalidRequestHandler_def Suc_le_eq)

lemma allocW_simps [simp]:
  "fst (allocW m w) = length (wHeap w)" "wHeap (snd (allocW m w)) = wHeap w @ [m]"
  "wCache (snd (allocW m w)) = wCache w" "wTick (snd (allocW m w)) = wTick w" "wLb (snd (allocW m w)) = wLb w"
  by (simp_all add: allocW_def allocMsg_def)

lemma allocW_eq: "allocW m w = (length (wHeap w), w\<lparr>wHeap := wHeap w @ [m]\<rparr>)"
  by (simp add: allocW_def allocMsg_def)

lemma deref_Some: "p < length h \<Longrightarrow> deref h (Some p) = Some (h ! p)"
  by (simp add: deref_def)

lemma errorReply_simps:
  assumes "SetReply_ok D"
  shows "msgRcode (errorReply D request code) = code" "msgAnswer (errorReply D request code) = []"
    "msgId (errorReply D request code) = msgId request"
    "msgQuestion request \<noteq> [] \<Longrightarrow> msgQuestion (errorReply D request code) = [hd (msgQuestion request)]"
  using assms by (auto simp: errorReply_def SetReply_ok_def newMsg_def)

lemma groupsWith_blocked:
  assumes "validRequest request" "domainRuleMatchedForGroups E eg names (Qname (hd (msgQuestion request))) = (MatchBlock, l, t)"
  shows "\<exists>rc. groupsWith S E eg f names rCon request w =
    Ret ((length (wHeap w), Some rc, emptyResult\<lparr>rrMatch := MatchBlock, rrMatchList := l, rrMatchRule := t\<rparr>),
         w\<lparr>wHeap := wHeap w @ [errorReply (srcDns S) request RcodeNameError]\<rparr>)"
  using assms by (simp add: groupsWith_def matchedResult_def allocW_eq Let_def)

section \<open>Every response is in the heap\<close>

definition replies :: "'b handler \<Rightarrow> bool" where
  "replies f \<longleftrightarrow> (\<forall>names rCon request w p rc result w'. f names rCon request w = Ret ((p, rc, result), w') \<longrightarrow>
     length (wHeap w) \<le> length (wHeap w') \<and> p < length (wHeap w'))"

lemma repliesD:
  "replies f \<Longrightarrow> f names rCon request w = Ret ((p, rc, result), w') \<Longrightarrow> length (wHeap w) \<le> length (wHeap w') \<and> p < length (wHeap w')"
  unfolding replies_def by blast

lemma bind_run_Ret: "bind_run r f = Ret y \<longleftrightarrow> (\<exists>x. r = Ret x \<and> f x = Ret y)"
  by (cases r) auto

lemma replies_groupsWith:
  assumes "replies f"
  shows "replies (groupsWith S E eg f)"
  unfolding replies_def
proof (intro allI impI)
  fix names rCon request w p rc result w'
  assume run: "groupsWith S E eg f names rCon request w = Ret ((p, rc, result), w')"
  show "length (wHeap w) \<le> length (wHeap w') \<and> p < length (wHeap w')"
  proof (cases "validRequest request")
    case True
    with run repliesD [OF assms] show ?thesis
      by (auto simp: groupsWith_def Let_def allocW_eq split: if_splits)
  next
    case False
    with run show ?thesis
      using invalidRequestHandler_invalid [OF False, of "srcDns S"] by (auto simp: groupsWith_def allocW_eq)
  qed
qed

lemma handleCnameResolution_heap:
  assumes "replies f" "replies g" "handleCnameResolution D f g resolvers rCon request response w = Ret (c, w')"
  shows "length (wHeap w) \<le> length (wHeap w')" "\<And>p. c = Some p \<Longrightarrow> p < length (wHeap w')"
  using assms(3) repliesD [OF assms(1)] repliesD [OF assms(2)]
  by (auto simp: handleCnameResolution_def bind_run_Ret redirectReply_def Let_def
      split: option.splits list.splits RR.splits if_splits)


text \<open>The two halves of \<open>HandleWithResolvers\<close> for a valid request.\<close>

definition resolveAndFollow :: "srclib \<Rightarrow> 'b backer \<Rightarrow> 'f engine \<Rightarrow> 'b handler \<Rightarrow> 'b handler \<Rightarrow> string list \<Rightarrow> requestContext option \<Rightarrow> Msg \<Rightarrow> 'b world
    \<Rightarrow> ((ptr option \<times> resolutionResult option) \<times> 'b world) run" where
  "resolveAndFollow S B eg f g names rCon request w =
     (if length names > 0 then
        bind_run (AnswerMultiResolvers S B (egResolvers eg) names request w) (\<lambda>(answer, w1).
          case answer of
            Inl err \<Rightarrow> Ret ((None, None), w1)
          | Inr (response, result) \<Rightarrow>
              bind_run (handleCnameResolution (srcDns S) f g names rCon request response w1)
                (\<lambda>(cname, w2). Ret ((if \<not> emptyAt (srcDns S) w2 cname then cname else response, result), w2)))
      else Ret ((None, Some emptyResult), w))"

definition ensureReply :: "srclib \<Rightarrow> Msg \<Rightarrow> ptr option \<Rightarrow> 'b world \<Rightarrow> ptr \<times> 'b world" where
  "ensureReply S request response w3 =
     (let (p, w4) = (case response of None \<Rightarrow> allocW newMsg w3 | Some p \<Rightarrow> (p, w3)) in
      (p, if emptyAt (srcDns S) w4 (Some p) then nameErrorAt (srcDns S) request p w4 else w4))"

lemma resolversWith_valid:
  "validRequest request \<Longrightarrow> resolversWith S B eg f g names rCon request w =
     bind_run (resolveAndFollow S B eg f g names rCon request w) (\<lambda>((response, result), w3).
       let (p, w5) = ensureReply S request response w3 in
       Ret ((p, rCon, case result of None \<Rightarrow> emptyResult | Some r \<Rightarrow> r), w5))"
  by (simp add: resolversWith_def resolveAndFollow_def ensureReply_def Let_def case_prod_beta)

lemma ensureReply_reply:
  assumes "ensureReply S request response w = (p, w')" "\<And>q. response = Some q \<Longrightarrow> q < length (wHeap w)"
  shows "length (wHeap w) \<le> length (wHeap w')" "p < length (wHeap w')"
    "emptyAt (srcDns S) w' (Some p) \<Longrightarrow> \<exists>m. wHeap w' ! p = (SetReply (srcDns S) m request)\<lparr>msgRcode := RcodeNameError\<rparr>"
  using assms by (auto simp: ensureReply_def nameErrorAt_def allocW_eq Let_def split: option.splits if_splits prod.splits)

lemma resolveAndFollow_reply:
  assumes "replies f" "replies g" "resolveAndFollow S B eg f g names rCon request w = Ret ((response, result), w')"
  shows "length (wHeap w) \<le> length (wHeap w')" "\<And>q. response = Some q \<Longrightarrow> q < length (wHeap w')"
    "pred_option (\<lambda>r. rrMatch r = MatchNone) result"
proof -
  have "length (wHeap w) \<le> length (wHeap w') \<and> (\<forall>q. response = Some q \<longrightarrow> q < length (wHeap w')) \<and>
    pred_option (\<lambda>r. rrMatch r = MatchNone) result"
  proof (cases "names = []")
    case True
    with assms(3) show ?thesis
      by (auto simp: resolveAndFollow_def emptyResult_def)
  next
    case False
    with assms(3) obtain answer w1 where a: "AnswerMultiResolvers S B (egResolvers eg) names request w = Ret (answer, w1)"
      by (auto simp: resolveAndFollow_def bind_run_Ret)
    note grow = AnswerMultiResolvers_heap [OF a]
    show ?thesis
    proof (cases answer)
      case (Inl e)
      with assms(3) False a grow show ?thesis
        by (auto simp: resolveAndFollow_def)
    next
      case (Inr y)
      obtain p0 res where y: "y = (p0, res)"
        by (cases y)
      obtain cname w2 where c: "handleCnameResolution (srcDns S) f g names rCon request p0 w1 = Ret (cname, w2)"
        and out: "response = (if \<not> emptyAt (srcDns S) w2 cname then cname else p0)" "result = res" "w' = w2"
        using assms(3) False a Inr y by (auto simp: resolveAndFollow_def bind_run_Ret)
      have p0: "q < length (wHeap w2)" if "p0 = Some q" for q
        using AnswerMultiResolvers_content(2) [of S B "egResolvers eg" names request w q res w1]
          handleCnameResolution_heap(1) [OF assms(1,2) c] a Inr y that by auto
      have "pred_option (\<lambda>r. rrMatch r = MatchNone) res"
      proof (cases p0)
        case None
        with a Inr y have "res = None"
          by (auto dest: AnswerMultiResolvers_none)
        then show ?thesis
          by simp
      qed (use a Inr y in \<open>auto dest: AnswerMultiResolvers_content(3)\<close>)
      then show ?thesis
        using p0 out grow handleCnameResolution_heap [OF assms(1,2) c] by (auto split: if_splits)
    qed
  qed
  then show "length (wHeap w) \<le> length (wHeap w')" "\<And>q. response = Some q \<Longrightarrow> q < length (wHeap w')"
    "pred_option (\<lambda>r. rrMatch r = MatchNone) result"
    by auto
qed


lemma resolversWith_reply:
  assumes "replies f" "replies g" "validRequest request" "resolversWith S B eg f g names rCon request w = Ret ((p, rc, result), w')"
  shows "length (wHeap w) \<le> length (wHeap w')" "p < length (wHeap w')" "rrMatch result = MatchNone" "rc = rCon"
    "emptyAt (srcDns S) w' (Some p) \<Longrightarrow> \<exists>m. wHeap w' ! p = (SetReply (srcDns S) m request)\<lparr>msgRcode := RcodeNameError\<rparr>"
proof -
  obtain response res w3 where r: "resolveAndFollow S B eg f g names rCon request w = Ret ((response, res), w3)"
    and e: "ensureReply S request response w3 = (p, w')"
    and out: "result = (case res of None \<Rightarrow> emptyResult | Some r \<Rightarrow> r)" "rc = rCon"
    using assms(4) by (force simp: resolversWith_valid [OF assms(3)] bind_run_Ret case_prod_beta Let_def)
  note grow = resolveAndFollow_reply [OF assms(1,2) r]
  note reply = ensureReply_reply [OF e grow(2)]
  show "length (wHeap w) \<le> length (wHeap w')" "p < length (wHeap w')" "rc = rCon"
    "emptyAt (srcDns S) w' (Some p) \<Longrightarrow> \<exists>m. wHeap w' ! p = (SetReply (srcDns S) m request)\<lparr>msgRcode := RcodeNameError\<rparr>"
    using grow(1) reply out(2) by auto
  show "rrMatch result = MatchNone"
    using grow(3) out(1) by (cases res) (auto simp: emptyResult_def)
qed

lemma replies_HandleWithResolvers: "replies (HandleWithResolvers n S E B eg)"
proof (induction n)
  case (Suc n)
  note IH = replies_groupsWith [OF Suc, of S E eg] Suc
  show ?case
    unfolding replies_def
  proof (intro allI impI)
    fix names rCon request w p rc result w'
    assume run: "HandleWithResolvers (Suc n) S E B eg names rCon request w = Ret ((p, rc, result), w')"
    show "length (wHeap w) \<le> length (wHeap w') \<and> p < length (wHeap w')"
    proof (cases "validRequest request")
      case True
      from run have run': "resolversWith S B eg (groupsWith S E eg (HandleWithResolvers n S E B eg)) (HandleWithResolvers n S E B eg)
          names rCon request w = Ret ((p, rc, result), w')"
        by simp
      from resolversWith_reply(1,2) [OF IH True run'] show ?thesis
        by blast
    next
      case False
      with run show ?thesis
        using invalidRequestHandler_invalid [OF False, of "srcDns S"] by (auto simp: resolversWith_def allocW_eq)
    qed
  qed
qed (simp add: replies_def)


lemma SetReply_nameError:
  assumes "SetReply_ok D" "msgQuestion request \<noteq> []"
  shows "msgId ((SetReply D m request)\<lparr>msgRcode := code\<rparr>) = msgId request"
    "msgQuestion ((SetReply D m request)\<lparr>msgRcode := code\<rparr>) = [hd (msgQuestion request)]"
  using assms by (auto simp: SetReply_ok_def)

lemma groupsWith_reply:
  assumes "SetReply_ok (srcDns S)"
    and "groupsWith S E eg (HandleWithResolvers n S E B eg) names rCon request w = Ret ((p, rc, result), w')"
    and "emptyAt (srcDns S) w' (Some p)"
  shows "msgId (wHeap w' ! p) = msgId request \<and>
    (if validRequest request then msgRcode (wHeap w' ! p) = RcodeNameError \<and> msgQuestion (wHeap w' ! p) = [hd (msgQuestion request)]
     else msgRcode (wHeap w' ! p) \<in> {RcodeRefused, RcodeNotImplemented, RcodeBadName})"
proof (cases "validRequest request")
  case False
  with assms(2) show ?thesis
    using invalidRequestHandler_invalid [OF False, of "srcDns S"] errorReply_simps [OF assms(1)]
    by (auto simp: groupsWith_def allocW_eq)
next
  case True
  note ne = validRequest_question [OF True]
  show ?thesis
  proof (cases "fst (domainRuleMatchedForGroups E eg names (Qname (hd (msgQuestion request)))) = MatchBlock")
    case block: True
    with assms(2) True show ?thesis
      using errorReply_simps [OF assms(1)] ne by (auto simp: groupsWith_def allocW_eq Let_def)
  next
    case pass: False
    with assms(2) True obtain k rc0 where n: "n = Suc k"
      and run: "resolversWith S B eg (groupsWith S E eg (HandleWithResolvers k S E B eg)) (HandleWithResolvers k S E B eg)
        (groupResolvers eg names) (Some rc0) request w = Ret ((p, rc, result), w')"
      by (cases n) (auto simp: groupsWith_def Let_def)
    obtain m where "wHeap w' ! p = (SetReply (srcDns S) m request)\<lparr>msgRcode := RcodeNameError\<rparr>"
      using resolversWith_reply(5) [OF replies_groupsWith [OF replies_HandleWithResolvers] replies_HandleWithResolvers True run assms(3)] by blast
    then show ?thesis
      using True SetReply_nameError [OF assms(1) ne, of RcodeNameError m] by simp
  qed
qed


section \<open>A concrete engine\<close>

text \<open>One group with a block and an allow list over the memory store, one resolver with a hosts file.\<close>

definition demoStore :: "string list store" where
  "demoStore = (case CreateStore demoEnv demoFiles lsSource ''memory'' (map Some [demoBlock, demoAllow]) of
     Ret (s, _) \<Rightarrow> s | _ \<Rightarrow> newMemory)"

definition demoGroup :: engineGroup where
  "demoGroup = \<lparr>grConfig = defaultGroup\<lparr>gpResolvers := [''r'']\<rparr>, grLists = [demoBlock, demoAllow]\<rparr>"

definition demoConsumer :: "bool \<Rightarrow> engineConsumer" where
  "demoConsumer block = \<lparr>ecConfig = \<lparr>csName = ''home'', csBlock = block, csGroups = [''default''],
       csMatches = [\<lparr>mcIP = [], mcRange = None, mcNet = ''10.0.0.0/8''\<rparr>]\<rparr>,
     ecGroupNames = [''default''], ecResolverNames = [''r''], ecLists = [demoBlock, demoAllow]\<rparr>"

definition demoEngine :: "bool \<Rightarrow> resolverMap \<Rightarrow> string list engine" where
  "demoEngine block rm = \<lparr>egConfig = emptyConfig, egStore = Some demoStore, egResolvers = rm, egSources = newSourceState, egGroups = [(''default'', demoGroup)],
     egConsumers = [demoConsumer block], egConsumerMap = [(''home'', demoConsumer block)], egDefaultConsumer = None,
     egMetrics = None, egRecorder = False, egConsumerNames = None, egGroupNames = None, egResolverNames = None, egListEntries = None\<rparr>"

definition demoMap :: "string list \<Rightarrow> resolverMap" where
  "demoMap hosts = [(''r'', \<lparr>rvName = ''r'', rvDomains = [], rvSkip = [], rvSearch = [],
     rvSources = [HostFile (LoadArray demoDns hosts)]\<rparr>)]"

section \<open>Properties\<close>

text \<open>
  A request for a domain that the rules of the consumer's groups block is answered with an empty
  NXDOMAIN reply that carries the id and the question of the request; the result names the list and
  the rule. Nothing is resolved: this holds with no fuel for the resolvers, the clock does not move
  between, and the cache stays as it was.
\<close>

theorem blocked_domain_nxdomain:
  assumes "SetReply_ok (srcDns S)" "validRequest request" "consumer = Some c" "\<not> csBlock (ecConfig c)"
    and "domainRuleMatchedForGroups E eg (getGroups consumer) (Qname (hd (msgQuestion request))) = (MatchBlock, l, t)"
  shows "\<exists>p rc w' m. HandleWithConsumer 0 S E B eg consumer rCon request w =
      Ret ((p, rc, emptyResult\<lparr>rrConsumer := csName (ecConfig c), rrMatch := MatchBlock, rrMatchList := l, rrMatchRule := t\<rparr>), w') \<and>
    deref (wHeap w') (Some p) = Some m \<and> msgRcode m = RcodeNameError \<and> msgAnswer m = [] \<and>
    msgId m = msgId request \<and> msgQuestion m = [hd (msgQuestion request)] \<and>
    wTick w' = wTick w \<and> wCache w' = wCache w"
proof -
  obtain rc where "groupsWith S E eg (HandleWithResolvers 0 S E B eg) (getGroups consumer) rCon request w =
      Ret ((length (wHeap w), Some rc, emptyResult\<lparr>rrMatch := MatchBlock, rrMatchList := l, rrMatchRule := t\<rparr>),
         w\<lparr>wHeap := wHeap w @ [errorReply (srcDns S) request RcodeNameError]\<rparr>)"
    using groupsWith_blocked [OF assms(2,5)] by blast
  then show ?thesis
    using assms(3,4) errorReply_simps [OF assms(1), of request RcodeNameError] validRequest_question [OF assms(2)]
    by (auto simp: HandleWithConsumer_def HandleWithGroups_def deref_def emptyResult_def)
qed

theorem blocked_domain_nxdomain_witness:
  "\<exists>p rc w' m. HandleWithConsumer 0 demoSrc demoEnv demoBacker (demoEngine False []) (Some (demoConsumer False)) None (demoQuery ''x.ads.com.'') (newWorld None) =
      Ret ((p, rc, emptyResult\<lparr>rrConsumer := ''home'', rrMatch := MatchBlock, rrMatchList := Some demoBlock, rrMatchRule := ''ads.com''\<rparr>), w') \<and>
    deref (wHeap w') (Some p) = Some m \<and> msgRcode m = RcodeNameError \<and> msgAnswer m = [] \<and> msgId m = 7"
proof -
  have "domainRuleMatchedForGroups demoEnv (demoEngine False []) (getGroups (Some (demoConsumer False))) (Qname (hd (msgQuestion (demoQuery ''x.ads.com.''))))
      = (MatchBlock, Some demoBlock, ''ads.com'')" "validRequest (demoQuery ''x.ads.com.'')"
    by code_simp+
  from blocked_domain_nxdomain [OF _ this(2) refl _ this(1), of demoSrc demoBacker None "newWorld None"] demoDns_ok show ?thesis
    by (auto simp: demoSrc_def demoConsumer_def demoQuery_def)
qed

text \<open>
  C12. Whatever happens in resolution, a request of a consumer that is not blocked gets a reply that
  exists: the response points at a message. If that message holds no record of use it is a reply to
  the request with the code NXDOMAIN, or, for a request that is not to be handled at all (no question,
  a type that is not implemented, a name that is empty or too long), REFUSED, NOTIMP or BADNAME.
\<close>

theorem every_request_replied:
  assumes "SetReply_ok (srcDns S)" "getConsumerForIP eg address = Some c" "\<not> csBlock (ecConfig c)"
    and "Handle n S E B eg address protocol request w = Ret (((p, rc, result), call), w')"
  shows "\<exists>m. deref (wHeap w') (Some p) = Some m \<and>
    (IsEmptyResponse (srcDns S) (Some m) \<longrightarrow> msgId m = msgId request \<and>
       (if validRequest request then msgRcode m = RcodeNameError \<and> msgQuestion m = [hd (msgQuestion request)]
        else msgRcode m \<in> {RcodeRefused, RcodeNotImplemented, RcodeBadName})) \<and>
    rrConsumer result = csName (ecConfig c)"
proof -
  obtain rCon rc' res w2 where g: "groupsWith S E eg (HandleWithResolvers n S E B eg) (getGroups (Some c)) rCon request (tickW w) = Ret ((p, rc', res), w2)"
    and out: "result = res\<lparr>rrConsumer := csName (ecConfig c)\<rparr>" "wHeap w' = wHeap w2"
    using assms(2-4)
    by (auto simp: Handle_def HandleWithConsumer_def HandleWithGroups_def bind_run_Ret Let_def tickW_def split: if_splits)
  have len: "p < length (wHeap w2)"
    using repliesD [OF replies_groupsWith [OF replies_HandleWithResolvers] g] by blast
  have "IsEmptyResponse (srcDns S) (Some (wHeap w2 ! p)) \<longrightarrow> msgId (wHeap w2 ! p) = msgId request \<and>
       (if validRequest request then msgRcode (wHeap w2 ! p) = RcodeNameError \<and> msgQuestion (wHeap w2 ! p) = [hd (msgQuestion request)]
        else msgRcode (wHeap w2 ! p) \<in> {RcodeRefused, RcodeNotImplemented, RcodeBadName})"
    using groupsWith_reply [OF assms(1) g] len by (auto simp: emptyAt_def deref_def split: if_splits)
  then show ?thesis
    using len out by (auto simp: deref_def)
qed

theorem every_request_replied_witness:
  "\<exists>p rc result call w' m. Handle 1 demoSrc demoEnv demoBacker (demoEngine False (demoMap [])) [10, 0, 0, 5] ''udp'' (demoQuery ''nas.lan.'') (newWorld None) =
      Ret (((p, rc, result), call), w') \<and> deref (wHeap w') (Some p) = Some m \<and> msgId m = 7 \<and> msgRcode m = RcodeNameError \<and> rrConsumer result = ''home''"
proof -
  let ?e = "demoEngine False (demoMap [])" and ?q = "demoQuery ''nas.lan.''"
  have "(case Handle 1 demoSrc demoEnv demoBacker ?e [10, 0, 0, 5] ''udp'' ?q (newWorld None) of
      Ret (((p, rc, result), call), w') \<Rightarrow> emptyAt demoDns w' (Some p) | _ \<Rightarrow> False)"
    by code_simp
  then obtain p rc result call w' where h: "Handle 1 demoSrc demoEnv demoBacker ?e [10, 0, 0, 5] ''udp'' ?q (newWorld None) = Ret (((p, rc, result), call), w')"
    and e: "emptyAt demoDns w' (Some p)"
    by (auto split: run.splits prod.splits)
  have "getConsumerForIP ?e [10, 0, 0, 5] = Some (demoConsumer False)" "validRequest ?q"
    by code_simp+
  with every_request_replied [OF _ this(1) _ h] demoDns_ok e h show ?thesis
    by (auto simp: demoSrc_def demoConsumer_def demoQuery_def emptyAt_def)
qed

text \<open>
  C37. A consumer that is configured to be blocked is told that all went well: the refusal is written
  into the response before \<open>SetReply\<close>, which resets the code, so the reply is an empty NOERROR one.
  The domain is neither matched nor resolved.
\<close>

theorem blocked_consumer_noerror:
  assumes "SetReply_ok (srcDns S)" "getConsumerForIP eg address = Some c" "csBlock (ecConfig c)"
  shows "\<exists>p rc call w' m. Handle 0 S E B eg address protocol request w =
      Ret (((p, rc, emptyResult\<lparr>rrConsumer := csName (ecConfig c), rrBlocked := True\<rparr>), call), w') \<and>
    deref (wHeap w') (Some p) = Some m \<and> msgRcode m = RcodeSuccess \<and> msgAnswer m = [] \<and> msgId m = msgId request"
  using assms
  by (auto simp: Handle_def HandleWithConsumer_def allocW_eq Let_def deref_def SetReply_ok_def newMsg_def tickW_def)

theorem blocked_consumer_noerror_witness:
  "\<exists>p rc call w' m. Handle 0 demoSrc demoEnv demoBacker (demoEngine True []) [10, 1, 2, 3] ''udp'' (demoQuery ''x.org.'') (newWorld None) =
      Ret (((p, rc, emptyResult\<lparr>rrConsumer := ''home'', rrBlocked := True\<rparr>), call), w') \<and>
    deref (wHeap w') (Some p) = Some m \<and> msgRcode m = RcodeSuccess"
proof -
  have "getConsumerForIP (demoEngine True []) [10, 1, 2, 3] = Some (demoConsumer True)"
    by code_simp
  from blocked_consumer_noerror [OF _ this, of demoSrc demoEnv demoBacker "''udp''" "demoQuery ''x.org.''" "newWorld None"] demoDns_ok show ?thesis
    by (auto simp: demoSrc_def demoConsumer_def)
qed

text \<open>
  That a domain is on an allow list is found out and then forgotten: the result of a request that
  passed by an allow rule names no match, so neither the query log nor the metrics see it.
\<close>

theorem allow_match_forgotten:
  assumes "validRequest request"
    and "fst (domainRuleMatchedForGroups E eg names (Qname (hd (msgQuestion request)))) = MatchAllow"
    and "HandleWithGroups n S E B eg names rCon request w = Ret ((p, rc, result), w')"
  shows "rrMatch result = MatchNone"
proof -
  obtain k rc0 where "n = Suc k"
    and run: "resolversWith S B eg (groupsWith S E eg (HandleWithResolvers k S E B eg)) (HandleWithResolvers k S E B eg)
      (groupResolvers eg names) (Some rc0) request w = Ret ((p, rc, result), w')"
    using assms by (cases n) (auto simp: HandleWithGroups_def groupsWith_def Let_def)
  show ?thesis
    by (rule resolversWith_reply(3) [OF replies_groupsWith [OF replies_HandleWithResolvers] replies_HandleWithResolvers assms(1) run])
qed

theorem allow_match_forgotten_witness:
  "\<exists>p rc result w'. HandleWithGroups 1 demoSrc demoEnv demoBacker (demoEngine False (demoMap [])) [''default''] None (demoQuery ''ok.ads.com.'') (newWorld None) =
     Ret ((p, rc, result), w') \<and> rrMatch result = MatchNone \<and>
   domainRuleMatchedForGroups demoEnv (demoEngine False (demoMap [])) [''default''] ''ok.ads.com.'' = (MatchAllow, Some demoAllow, ''ok.ads.com'')"
proof -
  let ?e = "demoEngine False (demoMap [])" and ?q = "demoQuery ''ok.ads.com.''"
  have m: "domainRuleMatchedForGroups demoEnv ?e [''default''] ''ok.ads.com.'' = (MatchAllow, Some demoAllow, ''ok.ads.com'')"
    "validRequest ?q"
    by code_simp+
  have "(case HandleWithGroups 1 demoSrc demoEnv demoBacker ?e [''default''] None ?q (newWorld None) of Ret x \<Rightarrow> True | _ \<Rightarrow> False)"
    by code_simp
  then obtain p rc result w' where h: "HandleWithGroups 1 demoSrc demoEnv demoBacker ?e [''default''] None ?q (newWorld None) = Ret ((p, rc, result), w')"
    by (auto split: run.splits)
  with allow_match_forgotten [OF m(2) _ h] m(1) show ?thesis
    by (simp add: demoQuery_def)
qed

definition aliasTo :: "string set \<Rightarrow> Msg option \<Rightarrow> bool" where
  "aliasTo N m \<longleftrightarrow> (\<exists>msg h t rest. m = Some msg \<and> msgAnswer msg = RR_CNAME h t # rest \<and> Rrtype h = TypeCNAME \<and> t \<in> N)"

text \<open>
  C40. Aliases that lead back to each other never end: when the resolvers of a request's groups answer
  every name of a set with an alias to a name of that set, and no rule blocks these names, the handler
  calls itself without end, whatever depth of calls is allowed.
\<close>

theorem alias_loop_never_returns:
  assumes loop: "\<And>request w. validRequest request \<Longrightarrow> Qname (hd (msgQuestion request)) \<in> N \<Longrightarrow> Qtype (hd (msgQuestion request)) = T \<Longrightarrow> wCache w = None \<Longrightarrow>
      \<exists>p res w'. AnswerMultiResolvers S B (egResolvers eg) (groupResolvers eg names) request w = Ret (Inr (Some p, res), w') \<and>
        wCache w' = None \<and> aliasTo N (deref (wHeap w') (Some p))"
    and names: "names \<noteq> []" "groupResolvers eg names \<noteq> []"
    and pass: "\<And>d. d \<in> N \<Longrightarrow> fst (domainRuleMatchedForGroups E eg names d) \<noteq> MatchBlock"
    and lens: "\<And>d. d \<in> N \<Longrightarrow> 1 \<le> length d \<and> length d \<le> 255"
    and start: "validRequest request" "Qname (hd (msgQuestion request)) \<in> N" "Qtype (hd (msgQuestion request)) = T" "T \<noteq> TypeCNAME" "wCache w = None"
  shows "HandleWithGroups n S E B eg names rCon request w = NoFuel"
  using start
proof (induction n arbitrary: request w rCon)
  case 0
  then show ?case
    using pass by (simp add: HandleWithGroups_def groupsWith_def Let_def)
next
  case (Suc n)
  obtain q qs where q: "msgQuestion request = q # qs"
    using Suc.prems(1) by (cases "msgQuestion request") (auto simp: validRequest_def)
  obtain p res w' where a: "AnswerMultiResolvers S B (egResolvers eg) (groupResolvers eg names) request w = Ret (Inr (Some p, res), w')"
    "wCache w' = None" and al: "aliasTo N (deref (wHeap w') (Some p))"
    using loop [OF Suc.prems(1,2,3,5)] by blast
  obtain msg h t rest where m: "deref (wHeap w') (Some p) = Some msg" "msgAnswer msg = RR_CNAME h t # rest" "Rrtype h = TypeCNAME" "t \<in> N"
    using al by (auto simp: aliasTo_def)
  have next_request: "validRequest (setQname t request)" "Qname (hd (msgQuestion (setQname t request))) = t"
    "Qtype (hd (msgQuestion (setQname t request))) = Qtype q"
    using Suc.prems(1) lens [OF m(4)] by (auto simp: validRequest_def setQname_def q)
  have "groupsWith S E eg (HandleWithResolvers n S E B eg) names rc (setQname t request) w' = NoFuel" for rc
    using Suc.IH [of "setQname t request" w' rc] next_request m(4) Suc.prems(3,4) a(2) q by (simp add: HandleWithGroups_def)
  then have "handleCnameResolution (srcDns S) (groupsWith S E eg (HandleWithResolvers n S E B eg)) (HandleWithResolvers n S E B eg)
      (groupResolvers eg names) (Some rc) request (Some p) w' = NoFuel" if "rqGroups rc = names" for rc
    using that m q Suc.prems(3,4) names(1) by (simp add: handleCnameResolution_def Let_def)
  then show ?case
    using Suc.prems(1,2) pass names(2) a(1)
    by (cases rCon) (simp_all add: HandleWithGroups_def groupsWith_def resolversWith_def Let_def)
qed

lemma single_hosts_answer:
  assumes "hostAnswer S h request = Ret (Some m)" "\<not> IsEmptyResponse (srcDns S) (Some m)" "msgQuestion request \<noteq> []" "wCache w = None"
  shows "\<exists>res. AnswerMultiResolvers S B [(r, \<lparr>rvName = r, rvDomains = [], rvSkip = [], rvSearch = [], rvSources = [HostFile h]\<rparr>)] [r] request w =
    Ret (Inr (Some (length (wHeap w)), res), w\<lparr>wHeap := wHeap w @ [m]\<rparr>)"
  using assms
  by (cases "msgQuestion request")
     (auto simp: AnswerMultiResolvers_def mapFuel_def DefaultResolutionContext_def resolverAnswer_def skips_def queryW_def storeW_def Let_def
      resolver_answer_def ownAnswer_def allocW_eq emptyAt_def deref_def IsEmptyResponse_def)

lemma loop_hosts:
  "LoadArray demoDns [''b.lan a.lan'', ''a.lan b.lan''] = \<lparr>hfPath = ''hosts'', hostEntries = [],
     cnameEntries = [(''a.lan.'', ''b.lan.''), (''b.lan.'', ''a.lan.'')], reverseLookup = [], dnsWildcards = []\<rparr>"
  by code_simp

lemma loop_answer:
  assumes "validRequest request" "Qname (hd (msgQuestion request)) \<in> {''a.lan.'', ''b.lan.''}" "Qtype (hd (msgQuestion request)) = TypeA" "wCache w = None"
  shows "\<exists>p res w'. AnswerMultiResolvers demoSrc demoBacker (demoMap [''b.lan a.lan'', ''a.lan b.lan'']) [''r''] request w = Ret (Inr (Some p, res), w') \<and>
        wCache w' = None \<and> aliasTo {''a.lan.'', ''b.lan.''} (deref (wHeap w') (Some p))"
proof -
  obtain q qs where q: "msgQuestion request = q # qs"
    using assms(1) by (cases "msgQuestion request") (auto simp: validRequest_def)
  have low: "ToLower ''a.lan.'' = ''a.lan.''" "ToLower ''b.lan.'' = ''b.lan.''"
    "Fqdn demoDns ''a.lan.'' = ''a.lan.''" "Fqdn demoDns ''b.lan.'' = ''b.lan.''"
    by code_simp+
  have d: "srcDns demoSrc = demoDns"
    by (simp add: demoSrc_def)
  have rc: "msgRcode (SetReply demoDns x request) = RcodeSuccess" for x
    using demoDns_ok by (simp add: SetReply_ok_def)
  have "\<exists>m t h. hostAnswer demoSrc (LoadArray demoDns [''b.lan a.lan'', ''a.lan b.lan'']) request = Ret (Some m) \<and>
    msgAnswer m = [RR_CNAME h t] \<and> Rrtype h = TypeCNAME \<and> t \<in> {''a.lan.'', ''b.lan.''} \<and> t \<noteq> [] \<and> msgRcode m = RcodeSuccess"
    using assms(2,3) q
    by (auto simp: hostAnswer_def hostTypes_def hostRecords_def loop_hosts respondToCNAME_def low d Let_def recordHeader_def setName_def
        authoritativeReply_def rc)
  then obtain m t h where m: "hostAnswer demoSrc (LoadArray demoDns [''b.lan a.lan'', ''a.lan b.lan'']) request = Ret (Some m)"
    "msgAnswer m = [RR_CNAME h t]" "Rrtype h = TypeCNAME" "t \<in> {''a.lan.'', ''b.lan.''}" "t \<noteq> []" "msgRcode m = RcodeSuccess"
    by blast
  have "\<not> IsEmptyResponse demoDns (Some m)"
    using m by (simp add: IsEmptyResponse_def partsEmpty.simps hasContent_def)
  with m(1) obtain res where "AnswerMultiResolvers demoSrc demoBacker (demoMap [''b.lan a.lan'', ''a.lan b.lan'']) [''r''] request w =
    Ret (Inr (Some (length (wHeap w)), res), w\<lparr>wHeap := wHeap w @ [m]\<rparr>)"
    unfolding demoMap_def using single_hosts_answer [OF m(1), of w] assms(4) q d by auto
  moreover have "aliasTo {''a.lan.'', ''b.lan.''} (deref (wHeap (w\<lparr>wHeap := wHeap w @ [m]\<rparr>)) (Some (length (wHeap w))))"
    using m by (simp add: aliasTo_def deref_def)
  moreover have "wCache (w\<lparr>wHeap := wHeap w @ [m]\<rparr>) = None"
    using assms(4) by simp
  ultimately show ?thesis
    by blast
qed


theorem alias_loop_never_returns_witness:
  "\<forall>n. HandleWithGroups n demoSrc demoEnv demoBacker (demoEngine False (demoMap [''b.lan a.lan'', ''a.lan b.lan''])) [''default''] None
     (demoQuery ''a.lan.'') (newWorld None) = NoFuel"
proof
  fix n
  let ?rm = "demoMap [''b.lan a.lan'', ''a.lan b.lan'']" and ?N = "{''a.lan.'', ''b.lan.''}"
  have g: "groupResolvers (demoEngine False ?rm) [''default''] = [''r'']" "egResolvers (demoEngine False ?rm) = ?rm"
    by (simp_all add: groupResolvers_def demoEngine_def demoGroup_def)
  have eval: "fst (domainRuleMatchedForGroups demoEnv (demoEngine False ?rm) [''default''] ''a.lan.'') = MatchNone"
    "fst (domainRuleMatchedForGroups demoEnv (demoEngine False ?rm) [''default''] ''b.lan.'') = MatchNone"
    "validRequest (demoQuery ''a.lan.'')"
    by code_simp+
  show "HandleWithGroups n demoSrc demoEnv demoBacker (demoEngine False ?rm) [''default''] None (demoQuery ''a.lan.'') (newWorld None) = NoFuel"
  proof (rule alias_loop_never_returns [where N = ?N and T = TypeA])
    show "\<exists>p res w'. AnswerMultiResolvers demoSrc demoBacker (egResolvers (demoEngine False ?rm)) (groupResolvers (demoEngine False ?rm) [''default'']) request w =
        Ret (Inr (Some p, res), w') \<and> wCache w' = None \<and> aliasTo ?N (deref (wHeap w') (Some p))"
      if "validRequest request" "Qname (hd (msgQuestion request)) \<in> ?N" "Qtype (hd (msgQuestion request)) = TypeA" "wCache w = None"
      for request and w :: "(string \<times> envelope \<times> int) list world"
      using loop_answer [OF that] by (simp add: g)
  qed (use g eval in \<open>auto simp: demoQuery_def newWorld_def\<close>)
qed

lemma case_run_Ret: "(case r of Ret x \<Rightarrow> P x | Panic \<Rightarrow> False | NoFuel \<Rightarrow> False) \<longleftrightarrow> (\<exists>x. r = Ret x \<and> P x)"
  by (cases r) auto

text \<open>An upstream server that answers \<open>a.lan.\<close> with an alias and \<open>b.lan.\<close> with an address.\<close>

definition aliasSrc :: srclib where
  "aliasSrc = demoSrc\<lparr>exchange := (\<lambda>t r p m. Inr (Some (
     if map Qname (msgQuestion m) = [''a.lan.'']
     then SetReply demoDns (newMsg\<lparr>msgAnswer := [RR_CNAME \<lparr>HName = ''a.lan.'', Rrtype = TypeCNAME, HClass = ClassINET, Ttl = 60\<rparr> ''b.lan.'']\<rparr>) m
     else SetReply demoDns (newMsg\<lparr>msgAnswer := [RR_A \<lparr>HName = ''b.lan.'', Rrtype = TypeA, HClass = ClassINET, Ttl = 300\<rparr> (Some [10, 0, 0, 1])]\<rparr>) m)))\<rparr>"

definition aliasEngine :: "string list engine" where
  "aliasEngine = demoEngine False [(''r'', \<lparr>rvName = ''r'', rvDomains = [], rvSkip = [], rvSearch = [],
     rvSources = [Dns (dnsLoad ''9.9.9.9'')]\<rparr>)]"

text \<open>
  Following an alias spoils the cache. The reply for the target of the alias is stored in the
  cache by the nested resolution and then turned, in place, into the reply for the alias: the next
  request for the target is answered from the cache with the records and the question of the alias.
\<close>

theorem alias_spoils_cache:
  "\<exists>p1 rc1 res1 w1 p2 rc2 res2 w2.
     HandleWithGroups 2 aliasSrc demoEnv demoBacker aliasEngine [''default''] None (demoQuery ''a.lan.'') (newWorld (Some newCache)) = Ret ((p1, rc1, res1), w1) \<and>
     HandleWithGroups 2 aliasSrc demoEnv demoBacker aliasEngine [''default''] None (demoQuery ''b.lan.'') w1 = Ret ((p2, rc2, res2), w2) \<and>
     rrCached res2 \<and>
     map (HName \<circ> Header) (msgAnswer (wHeap w2 ! p2)) = [''a.lan.''] \<and> map Qname (msgQuestion (wHeap w2 ! p2)) = [''a.lan.'']"
proof -
  have "(case HandleWithGroups 2 aliasSrc demoEnv demoBacker aliasEngine [''default''] None (demoQuery ''a.lan.'') (newWorld (Some newCache)) of
      Ret (r1, w1) \<Rightarrow>
        (case HandleWithGroups 2 aliasSrc demoEnv demoBacker aliasEngine [''default''] None (demoQuery ''b.lan.'') w1 of
           Ret ((p2, rc2, res2), w2) \<Rightarrow> rrCached res2 \<and>
             map (HName \<circ> Header) (msgAnswer (wHeap w2 ! p2)) = [''a.lan.''] \<and> map Qname (msgQuestion (wHeap w2 ! p2)) = [''a.lan.'']
         | _ \<Rightarrow> False)
    | _ \<Rightarrow> False)"
    by code_simp
  then show ?thesis
    by (auto simp: case_run_Ret)
qed


definition answersAlias :: "srclib \<Rightarrow> 'b backer \<Rightarrow> resolverMap \<Rightarrow> string list \<Rightarrow> Msg \<Rightarrow> 'b world \<Rightarrow> bool" where
  "answersAlias S B rm names request w \<longleftrightarrow> (\<exists>p res w' m a rest.
     AnswerMultiResolvers S B rm names request w = Ret (Inr (Some p, res), w') \<and> deref (wHeap w') (Some p) = Some m \<and>
     msgAnswer m = a # rest \<and> Rrtype (Header a) = TypeCNAME)"

lemma handleCnameResolution_no_alias:
  assumes "AnswerMultiResolvers S B rm names request w = Ret (Inr (p, res), w')"
    and "Qtype (hd (msgQuestion request)) = TypeCNAME \<or> \<not> answersAlias S B rm names request w"
  shows "handleCnameResolution D f g names rCon request p w' = Ret (None, w')"
proof (cases "deref (wHeap w') p")
  case (Some m)
  then obtain i where "p = Some i"
    by (cases p) (auto simp: deref_def)
  with Some assms show ?thesis
    by (auto simp: handleCnameResolution_def answersAlias_def split: list.splits)
qed (simp add: handleCnameResolution_def)

lemma groupsWith_returns:
  assumes "wfMap L (egResolvers eg)" "lbOk L w"
    and "Qtype (hd (msgQuestion request)) = TypeCNAME \<or> \<not> answersAlias S B (egResolvers eg) (groupResolvers eg names) request w"
  shows "\<exists>r. groupsWith S E eg (HandleWithResolvers (Suc n) S E B eg) names rCon request w = Ret r"
proof (cases "validRequest request")
  case False
  then show ?thesis
    using invalidRequestHandler_invalid [OF False, of "srcDns S"] by (auto simp: groupsWith_def Let_def split: prod.splits)
next
  case True
  have "okState L (w, DefaultResolutionContext)"
    using assms(2) by (simp add: okState_def DefaultResolutionContext_def)
  then obtain answer w1 where a: "AnswerMultiResolvers S B (egResolvers eg) (groupResolvers eg names) request w = Ret (answer, w1)"
    using multiResolverLoop_returns [OF assms(1) validRequest_question [OF True], of "(w, DefaultResolutionContext)" S B "groupResolvers eg names" "[]"]
    by (auto simp: AnswerMultiResolvers_def)
  have "\<exists>x. resolveAndFollow S B eg f g (groupResolvers eg names) rc request w = Ret x" for f g rc
  proof (cases answer)
    case (Inr y)
    obtain p res where y: "y = (p, res)"
      by (cases y)
    show ?thesis
      using handleCnameResolution_no_alias [of S B "egResolvers eg" "groupResolvers eg names" request w p res w1 "srcDns S" f g rc] assms(3) a Inr y
      by (simp add: resolveAndFollow_def)
  qed (use a in \<open>auto simp: resolveAndFollow_def\<close>)
  then have "\<exists>r. HandleWithResolvers (Suc n) S E B eg (groupResolvers eg names) rc request w = Ret r" for rc
    by (auto simp: resolversWith_valid [OF True] bind_run_Ret case_prod_beta Let_def)
  then show ?thesis
    using True by (auto simp: groupsWith_def Let_def split: prod.splits)
qed



definition demoMapResolvers :: "GudgeonResolver option list" where
  "demoMapResolvers = [Some \<lparr>rsName = ''r'', rsDomains = [], rsSkipDomains = [], rsSearch = [], rsHosts = [''10.0.0.9 nas.lan''], rsSources = []\<rparr>]"


end
