(* ===== verification/Engine_Consumers.thy ===== *)
theory Engine_Consumers
  imports Engine Config_Init
begin

text \<open>
  Which consumer an address belongs to. Addresses are numbers of 128 bits: comparing the bytes of two
  addresses compares these numbers, and an address is in a network exactly when it shares the bits
  of its prefix.
\<close>

unbundle bit_operations_syntax

section \<open>Addresses as numbers\<close>

primrec addrNum :: "8 word list \<Rightarrow> nat" where
  "addrNum [] = 0"
| "addrNum (b # bs) = unat b * 256 ^ length bs + addrNum bs"

lemma digit_less:
  fixes x y :: nat
  assumes "x < y" "a < k"
  shows "x * k + a < y * k + b"
proof -
  have "(x + 1) * k \<le> y * k"
    using assms(1) by (intro mult_le_mono1) simp
  then have "x * k + k \<le> y * k"
    by simp
  with assms(2) show ?thesis
    by linarith
qed

lemma addrNum_less: "addrNum bs < 256 ^ length bs"
proof (induction bs)
  case (Cons b bs)
  have "unat b < 256"
    using unsigned_less [of b] by simp
  from digit_less [OF this Cons, of 0] show ?case
    by simp
qed simp

lemma bytesLe_addrNum: "length xs = length ys \<Longrightarrow> bytesLe xs ys \<longleftrightarrow> addrNum xs \<le> addrNum ys"
proof (induction rule: list_induct2)
  case (Cons x xs y ys)
  show ?case
  proof (cases "x = y")
    case False
    then have "unat x \<noteq> unat y"
      by (simp add: word_unat_eq_iff)
    then show ?thesis
      using digit_less [of "unat x" "unat y" "addrNum xs" "256 ^ length ys" "addrNum ys"]
        digit_less [of "unat y" "unat x" "addrNum ys" "256 ^ length ys" "addrNum xs"]
        addrNum_less [of xs] addrNum_less [of ys] Cons.hyps False
      by (cases "unat x < unat y") (auto simp: word_less_nat_alt not_le)
  qed (use Cons in simp)
qed simp

lemma addrNum_inj: "length xs = length ys \<Longrightarrow> addrNum xs = addrNum ys \<longleftrightarrow> xs = ys"
proof (induction rule: list_induct2)
  case (Cons x xs y ys)
  show ?case
  proof (cases "x = y")
    case False
    then have "unat x \<noteq> unat y"
      by (simp add: word_unat_eq_iff)
    then show ?thesis
      using digit_less [of "unat x" "unat y" "addrNum xs" "256 ^ length ys" "addrNum ys"]
        digit_less [of "unat y" "unat x" "addrNum ys" "256 ^ length ys" "addrNum xs"]
        addrNum_less [of xs] addrNum_less [of ys] Cons.hyps False
      by (cases "unat x < unat y") auto
  qed (use Cons in simp)
qed simp

text \<open>The number of an address of 4 or 16 bytes.\<close>

definition addr :: "ip \<Rightarrow> nat" where
  "addr b = addrNum (sliceOf (To16 b))"

definition isAddress :: "ip \<Rightarrow> bool" where
  "isAddress b \<longleftrightarrow> length b = 4 \<or> length b = 16"

lemma length_To16: "isAddress b \<Longrightarrow> length (sliceOf (To16 b)) = 16"
  by (auto simp: isAddress_def To16_def sliceOf_def v4InV6Prefix_def)

lemma length_parseOctets: "parseOctets k s = Some bs \<Longrightarrow> length bs = k"
  by (induction k s arbitrary: bs rule: parseOctets.induct) (auto split: option.splits if_splits prod.splits list.splits)

lemma length_parseIPv4: "parseIPv4 s = Some b \<Longrightarrow> length b = 16"
  by (auto simp: parseIPv4_def v4InV6Prefix_def dest: length_parseOctets)

lemma length_parseGroups:
  "parseGroups k bs ell s = Some (bs', ell') \<Longrightarrow> length bs + 2 * k \<le> 16 \<Longrightarrow> length bs' \<le> 16"
proof (induction k arbitrary: bs ell s)
  case (Suc k)
  from Suc.prems show ?case
    by (auto simp: Let_def dest!: length_parseOctets Suc.IH split: option.splits prod.splits if_splits list.splits)
qed (auto split: if_splits)

lemma length_parseIPv6: "parseIPv6 s = Some b \<Longrightarrow> length b = 16"
  by (auto simp: parseIPv6_def dest!: length_parseGroups split: if_splits option.splits prod.splits)

lemma isAddress_ParseIP: "ParseIP s = Some b \<Longrightarrow> isAddress b"
  by (auto simp: ParseIP_def isAddress_def dest: length_parseIPv4 length_parseIPv6 split: list.splits if_splits)

section \<open>Matches\<close>

lemma matchesIP_addr:
  assumes "isAddress a"
  shows "matchesIP text a \<longleftrightarrow> text \<noteq> [] \<and> (\<exists>b. ParseIP text = Some b \<and> addr b = addr a)"
  using assms addrNum_inj [OF trans [OF length_To16 length_To16 [symmetric]]]
  by (auto simp: matchesIP_def addr_def dest: isAddress_ParseIP split: option.splits)

lemma matchesRange_addr:
  assumes "isAddress a"
  shows "matchesRange rg a \<longleftrightarrow> (\<exists>r s e. rg = Some r \<and> rgStart r \<noteq> [] \<and> rgEnd r \<noteq> [] \<and>
    ParseIP (rgStart r) = Some s \<and> ParseIP (rgEnd r) = Some e \<and> addr s \<le> addr a \<and> addr a \<le> addr e)"
  using assms bytesLe_addrNum [OF trans [OF length_To16 length_To16 [symmetric]]]
  by (auto simp: matchesRange_def addr_def dest: isAddress_ParseIP split: option.splits)

definition specHit :: "GudgeonMatch \<Rightarrow> ip \<Rightarrow> bool" where
  "specHit m a \<longleftrightarrow>
     (mcIP m \<noteq> [] \<and> (\<exists>b. ParseIP (mcIP m) = Some b \<and> addr b = addr a)) \<or>
     (\<exists>r s e. mcRange m = Some r \<and> rgStart r \<noteq> [] \<and> rgEnd r \<noteq> [] \<and>
        ParseIP (rgStart r) = Some s \<and> ParseIP (rgEnd r) = Some e \<and> addr a \<in> {addr s .. addr e}) \<or>
     matchesNet (mcNet m) a"

lemma specHit_iff:
  "isAddress a \<Longrightarrow> specHit m a \<longleftrightarrow> matchesIP (mcIP m) a \<or> matchesRange (mcRange m) a \<or> matchesNet (mcNet m) a"
  by (simp add: specHit_def matchesIP_addr matchesRange_addr)

lemma consumerMatches_spec: "isAddress a \<Longrightarrow> consumerMatches ms a \<longleftrightarrow> (\<exists>m \<in> set ms. specHit m a)"
  by (induction ms) (simp_all add: specHit_iff)

lemma findConsumer_find: "findConsumer cs a = find (\<lambda>c. consumerMatches (csMatches (ecConfig c)) a) cs"
  by (induction cs) auto

section \<open>Networks\<close>

text \<open>Bit \<open>i\<close> of an address, counted from its front.\<close>

definition addrBit :: "ip \<Rightarrow> nat \<Rightarrow> bool" where
  "addrBit b i = bit (b ! (i div 8)) (7 - i mod 8)"

lemma nth_CIDRMask:
  assumes "k < len" "j < 8"
  shows "bit (CIDRMask n len ! k) j \<longleftrightarrow> 8 * k + (7 - j) < n"
proof -
  have "(255 :: 8 word) = mask 8"
    by (simp add: mask_eq_exp_minus_1)
  then have "CIDRMask n len ! k = (if 8 * k + 8 \<le> n then mask 8 else if n \<le> 8 * k then 0 else NOT (mask (8 * k + 8 - n)))"
    using assms(1) by (simp add: CIDRMask_def)
  then show ?thesis
    using assms(2) by (auto simp: bit_mask_iff bit_not_iff simp del: mask_numeral)
qed

lemma masked_eq_iff:
  fixes x y :: "8 word"
  assumes "k < len"
  shows "x AND CIDRMask n len ! k = y AND CIDRMask n len ! k \<longleftrightarrow> (\<forall>j < 8. 8 * k + (7 - j) < n \<longrightarrow> bit x j = bit y j)"
  using nth_CIDRMask [OF assms] by (auto simp: bit_eq_iff bit_and_iff)

lemma prefix_bits:
  fixes x y :: ip
  assumes "length x = len" "length y = len" "n \<le> 8 * len"
  shows "(\<forall>k < len. x ! k AND CIDRMask n len ! k = y ! k AND CIDRMask n len ! k) \<longleftrightarrow> (\<forall>i < n. addrBit x i = addrBit y i)"
proof
  assume L: "\<forall>k < len. x ! k AND CIDRMask n len ! k = y ! k AND CIDRMask n len ! k"
  show "\<forall>i < n. addrBit x i = addrBit y i"
  proof (intro allI impI)
    fix i assume i: "i < n"
    have k: "i div 8 < len"
      using i assms(3) by (simp add: less_mult_imp_div_less)
    have "8 * (i div 8) + (7 - (7 - i mod 8)) < n" "7 - i mod 8 < 8"
      using i by simp_all
    moreover have "\<forall>j < 8. 8 * (i div 8) + (7 - j) < n \<longrightarrow> bit (x ! (i div 8)) j = bit (y ! (i div 8)) j"
      using L k masked_eq_iff [OF k, of "x ! (i div 8)" n "y ! (i div 8)"] by blast
    ultimately show "addrBit x i = addrBit y i"
      unfolding addrBit_def by blast
  qed
next
  assume R: "\<forall>i < n. addrBit x i = addrBit y i"
  show "\<forall>k < len. x ! k AND CIDRMask n len ! k = y ! k AND CIDRMask n len ! k"
  proof (intro allI impI)
    fix k assume k: "k < len"
    have "bit (x ! k) j = bit (y ! k) j" if "j < 8" "8 * k + (7 - j) < n" for j
    proof -
      define r where "r = 7 - j"
      have r: "r < 8" "7 - r = j"
        using that(1) by (auto simp: r_def)
      then have "addrBit x (8 * k + r) = addrBit y (8 * k + r)"
        using R that(2) by (simp add: r_def)
      with r show ?thesis
        by (simp add: addrBit_def)
    qed
    then show "x ! k AND CIDRMask n len ! k = y ! k AND CIDRMask n len ! k"
      by (simp add: masked_eq_iff [OF k])
  qed
qed


text \<open>The four bytes of an IPv4 address, in either form.\<close>

definition v4Bytes :: "ip \<Rightarrow> 8 word list" where
  "v4Bytes b = (case To4 b of Some v \<Rightarrow> v | None \<Rightarrow> b)"

lemma v4Bytes_4: "length b = 4 \<Longrightarrow> v4Bytes b = b"
  by (simp add: v4Bytes_def To4_def)

lemma netContains_bytes:
  "netContains n b =
     (let nn = v4Bytes (netIP n); m = (if length (netMask n) = 16 \<and> length nn = 4 then drop 12 (netMask n) else netMask n); x = v4Bytes b in
      length x = length nn \<and> length m = length nn \<and> list_all2 (\<lambda>p q. p = q) (map2 (AND) nn m) (map2 (AND) x m))"
  by (simp add: netContains_def v4Bytes_def)

lemma ParseCIDR_v4:
  assumes "Index text ''/'' = Some i" "parseIPv4 (take i text) = Some b" "dtoi (drop (Suc i) text) = Some (n, [])" "n \<le> 32"
  shows "ParseCIDR text = Some \<lparr>netIP = map2 (AND) (v4Bytes b) (CIDRMask n 4), netMask = CIDRMask n 4\<rparr>" "length (v4Bytes b) = 4"
proof -
  obtain bs where b: "b = v4InV6Prefix @ bs" "length bs = 4"
    using assms(2) by (auto simp: parseIPv4_def dest: length_parseOctets)
  have m: "length (CIDRMask n 4) = 4" "length v4InV6Prefix = 12"
    by (simp_all add: CIDRMask_def v4InV6Prefix_def)
  show "length (v4Bytes b) = 4"
    using b m by (simp add: v4Bytes_def To4_def)
  show "ParseCIDR text = Some \<lparr>netIP = map2 (AND) (v4Bytes b) (CIDRMask n 4), netMask = CIDRMask n 4\<rparr>"
    using assms b m by (simp add: ParseCIDR_def maskIP_def v4Bytes_def To4_def Let_def)
qed

lemma netContains_v4:
  assumes "length bs = 4" "n \<le> 32"
  shows "netContains \<lparr>netIP = map2 (AND) bs (CIDRMask n 4), netMask = CIDRMask n 4\<rparr> a \<longleftrightarrow>
    length (v4Bytes a) = 4 \<and> (\<forall>i < n. addrBit bs i = addrBit (v4Bytes a) i)"
proof (cases "length (v4Bytes a) = 4")
  case True
  have m: "length (CIDRMask n 4) = 4"
    by (simp add: CIDRMask_def)
  have "netContains \<lparr>netIP = map2 (AND) bs (CIDRMask n 4), netMask = CIDRMask n 4\<rparr> a \<longleftrightarrow>
    (\<forall>k < 4. bs ! k AND CIDRMask n 4 ! k = v4Bytes a ! k AND CIDRMask n 4 ! k)"
    using assms(1) m True by (auto simp: netContains_bytes v4Bytes_4 Let_def list_all2_conv_all_nth and.assoc)
  then show ?thesis
    using True prefix_bits [OF assms(1) True, of n] assms(2) by simp
next
  case False
  then show ?thesis
    using assms(1) by (auto simp: netContains_bytes v4Bytes_4 Let_def CIDRMask_def)
qed


section \<open>Properties\<close>

text \<open>
  C13. A request belongs to the first consumer, in the order of the configuration, that has a match
  for its address: an equal address, a range whose ends (as numbers) enclose it, or a network that
  contains it. With no such consumer it belongs to the default one.
\<close>

theorem consumer_selection:
  assumes "isAddress a"
  shows "getConsumerForIP eg a =
    (case find (\<lambda>c. \<exists>m \<in> set (csMatches (ecConfig c)). specHit m a) (egConsumers eg) of
       Some c \<Rightarrow> Some c | None \<Rightarrow> egDefaultConsumer eg)"
  using assms by (simp add: getConsumerForIP_def findConsumer_find consumerMatches_spec)

definition demoByIP :: engineConsumer where
  "demoByIP = \<lparr>ecConfig = \<lparr>csName = ''a'', csBlock = False, csGroups = [], csMatches = [\<lparr>mcIP = ''10.0.0.8'', mcRange = None, mcNet = []\<rparr>]\<rparr>,
     ecGroupNames = [], ecResolverNames = [], ecLists = []\<rparr>"

definition demoByRange :: engineConsumer where
  "demoByRange = \<lparr>ecConfig = \<lparr>csName = ''b'', csBlock = False, csGroups = [],
       csMatches = [\<lparr>mcIP = [], mcRange = Some \<lparr>rgStart = ''9.255.255.255'', rgEnd = ''10.0.0.7''\<rparr>, mcNet = []\<rparr>]\<rparr>,
     ecGroupNames = [], ecResolverNames = [], ecLists = []\<rparr>"

definition demoShell :: "string list engine" where
  "demoShell = \<lparr>egConfig = emptyConfig, egStore = None, egResolvers = [], egSources = newSourceState, egGroups = [], egConsumers = [demoByIP, demoByRange], egConsumerMap = [],
     egDefaultConsumer = None, egMetrics = None, egRecorder = False, egConsumerNames = None, egGroupNames = None,
     egResolverNames = None, egListEntries = None\<rparr>"

theorem consumer_selection_witness:
  "isAddress [10, 0, 0, 7] \<and> getConsumerForIP demoShell [10, 0, 0, 7] = Some demoByRange \<and>
   (case find (\<lambda>c. \<exists>m \<in> set (csMatches (ecConfig c)). specHit m [10, 0, 0, 7]) (egConsumers demoShell) of
      Some c \<Rightarrow> Some c | None \<Rightarrow> egDefaultConsumer demoShell) = Some demoByRange"
proof -
  have "isAddress [10, 0, 0, 7]" "getConsumerForIP demoShell [10, 0, 0, 7] = Some demoByRange"
    by code_simp+
  with consumer_selection [OF this(1), of demoShell] show ?thesis
    by simp
qed

text \<open>
  C33. A consumer matched by an IPv4 network \<open>a.b.c.d/n\<close> gets exactly the IPv4 addresses that agree with
  \<open>a.b.c.d\<close> in their first \<open>n\<close> bits, whether they arrive in 4 or in 16 bytes.
\<close>

theorem network_match_is_prefix:
  assumes "Index text ''/'' = Some i" "parseIPv4 (take i text) = Some b" "dtoi (drop (Suc i) text) = Some (n, [])" "n \<le> 32"
  shows "matchesNet text a \<longleftrightarrow> length (v4Bytes a) = 4 \<and> (\<forall>k < n. addrBit (v4Bytes b) k = addrBit (v4Bytes a) k)"
proof -
  have "text \<noteq> []"
    using assms(1) by auto
  then show ?thesis
    using ParseCIDR_v4 [OF assms] netContains_v4 [OF _ assms(4)] by (simp add: matchesNet_def)
qed

theorem network_match_is_prefix_witness:
  "matchesNet ''10.1.0.0/12'' [10, 15, 9, 9] \<and> \<not> matchesNet ''10.1.0.0/12'' [10, 16, 0, 1] \<and>
   matchesNet ''10.1.0.0/12'' (v4InV6Prefix @ [10, 0, 0, 1])"
proof -
  let ?t = "''10.1.0.0/12''"
  have p: "Index ?t ''/'' = Some 8" "parseIPv4 (take 8 ?t) = Some (v4InV6Prefix @ [10, 1, 0, 0])" "dtoi (drop (Suc 8) ?t) = Some (12, [])"
    by code_simp+
  have "length (v4Bytes [10, 15, 9, 9]) = 4 \<and> list_all (\<lambda>k. addrBit (v4Bytes (v4InV6Prefix @ [10, 1, 0, 0])) k = addrBit (v4Bytes [10, 15, 9, 9]) k) [0..<12]"
    "\<not> list_all (\<lambda>k. addrBit (v4Bytes (v4InV6Prefix @ [10, 1, 0, 0])) k = addrBit (v4Bytes [10, 16, 0, 1]) k) [0..<12]"
    "length (v4Bytes (v4InV6Prefix @ [10, 0, 0, 1])) = 4 \<and> list_all (\<lambda>k. addrBit (v4Bytes (v4InV6Prefix @ [10, 1, 0, 0])) k = addrBit (v4Bytes (v4InV6Prefix @ [10, 0, 0, 1])) k) [0..<12]"
    by code_simp+
  then show ?thesis
    using network_match_is_prefix [OF p, of "[10, 15, 9, 9]"] network_match_is_prefix [OF p, of "[10, 16, 0, 1]"]
      network_match_is_prefix [OF p, of "v4InV6Prefix @ [10, 0, 0, 1]"]
    by (auto simp: list_all_iff atLeast0LessThan)
qed

end
