(* ===== verification/Config_Facts.thy ===== *)
theory Config_Facts
  imports Config_Init
begin

text \<open>
  What the pass over the configuration (\<open>verifyAndInit\<close>, theory \<open>Config_Init\<close>) promises to the code behind it:
  the loops over the named parts are lower-casing maps whose lookup finds the first part of a name, the
  default parts exist, and the settings are set and in range. \<open>stdParse_ok\<close> states what is relied on of
  \<open>time.ParseDuration\<close>: the values of the four default texts.
\<close>

section \<open>The loops\<close>

definition lowerGroup :: "GudgeonGroup \<Rightarrow> GudgeonGroup" where
  "lowerGroup g = g\<lparr>gpName := ToLower (gpName g)\<rparr>"

definition lowerConsumer :: "GudgeonConsumer \<Rightarrow> GudgeonConsumer" where
  "lowerConsumer c = c\<lparr>csName := ToLower (csName c)\<rparr>"

definition lowerSource :: "GudgeonSource \<Rightarrow> GudgeonSource" where
  "lowerSource s = s\<lparr>srName := ToLower (srName s)\<rparr>"

definition somes :: "'a option list \<Rightarrow> 'a list" where
  "somes xs = map the (filter (\<lambda>x. x \<noteq> None) xs)"

lemma somes_simps [simp]: "somes [] = []" "somes (None # xs) = somes xs" "somes (Some x # xs) = x # somes xs" "somes (xs @ ys) = somes xs @ somes ys"
  by (simp_all add: somes_def)

lemma set_somes [simp]: "x \<in> set (somes xs) \<longleftrightarrow> Some x \<in> set xs"
  by (induction xs) (auto simp: somes_def)

lemma Nil_ToLower [simp]: "[] = ToLower s \<longleftrightarrow> s = []"
  by (metis ToLower_Nil_iff)

lemma lowerGroup_id: "gpName g = [] \<Longrightarrow> lowerGroup g = g"
  by (simp add: lowerGroup_def)

lemma lowerConsumer_id: "csName g = [] \<Longrightarrow> lowerConsumer g = g"
  by (simp add: lowerConsumer_def)

lemma groupsLoop_list: "fst (groupsLoop gs m) = map (map_option lowerGroup) gs"
proof (induction gs arbitrary: m)
  case (Cons a gs)
  then show ?case
    by (cases a) (auto simp: lowerGroup_id case_prod_beta Let_def lowerGroup_def)
qed simp

lemma consumersLoop_list: "fst (consumersLoop cs m) = map (map_option lowerConsumer) cs"
proof (induction cs arbitrary: m)
  case (Cons a cs)
  then show ?case
    by (cases a) (auto simp: lowerConsumer_id case_prod_beta Let_def lowerConsumer_def)
qed simp

lemma sourcesLoop_list: "fst (sourcesLoop ss m) = map (map_option lowerSource) ss"
proof (induction ss arbitrary: m)
  case (Cons a ss)
  then show ?case
    by (cases a) (auto simp: case_prod_beta Let_def lowerSource_def)
qed simp

text \<open>The maps keep the first part of each name.\<close>

lemma groupsLoop_map:
  "k \<noteq> [] \<Longrightarrow> snd (snd (groupsLoop gs m)) k = orElse (m k) (find (\<lambda>g. gpName g = k) (somes (map (map_option lowerGroup) gs)))"
proof (induction gs arbitrary: m)
  case (Cons a gs)
  then show ?case
    by (cases a) (auto simp: case_prod_beta Let_def lowerGroup_def orElse_def split: option.splits)
qed (simp add: orElse_def split: option.splits)

lemma consumersLoop_map:
  "k \<noteq> [] \<Longrightarrow> snd (snd (consumersLoop gs m)) k = orElse (m k) (find (\<lambda>g. csName g = k) (somes (map (map_option lowerConsumer) gs)))"
proof (induction gs arbitrary: m)
  case (Cons a gs)
  then show ?case
    by (cases a) (auto simp: case_prod_beta Let_def lowerConsumer_def orElse_def split: option.splits)
qed (simp add: orElse_def split: option.splits)

lemma sourcesLoop_map:
  "snd (snd (sourcesLoop gs m)) k = orElse (m k) (find (\<lambda>g. srName g = k) (somes (map (map_option lowerSource) gs)))"
proof (induction gs arbitrary: m)
  case (Cons a gs)
  then show ?case
    by (cases a) (auto simp: case_prod_beta Let_def lowerSource_def orElse_def split: option.splits)
qed (simp add: orElse_def split: option.splits)

lemma rsName_condition [simp]: "rsName (conditionResolver r) = rsName r"
  by (simp add: conditionResolver_def)

lemma resolversLoop_map:
  "snd (snd (resolversLoop S rs m)) k = Some r \<Longrightarrow>
     m k = Some r \<or> Some r \<in> set (fst (resolversLoop S rs m)) \<and> rsName r = k \<and> k \<noteq> [] \<and> ToLower k = k"
proof (induction rs arbitrary: m)
  case (Cons a rs)
  show ?case
  proof (cases a)
    case None
    then show ?thesis
      using Cons.IH [of m] Cons.prems by (simp add: case_prod_beta)
  next
    case (Some q)
    let ?q = "conditionResolver (q\<lparr>rsName := ToLower (rsName q)\<rparr>)"
    consider "rsName q = []" | "rsName q \<noteq> []" "m (ToLower (rsName q)) \<noteq> None" | "rsName q \<noteq> []" "m (ToLower (rsName q)) = None"
      by blast
    then show ?thesis
    proof cases
      case 1
      then show ?thesis
        using Cons.IH [of m] Cons.prems Some by (simp add: case_prod_beta) blast
    next
      case 2
      then show ?thesis
        using Cons.IH [of m] Cons.prems Some by (simp add: case_prod_beta Let_def) blast
    next
      case 3
      define m1 where "m1 = m(ToLower (rsName q) \<mapsto> ?q)"
      have run: "fst (resolversLoop S (a # rs) m) = Some ?q # fst (resolversLoop S rs m1)"
        "snd (snd (resolversLoop S rs m1)) k = Some r"
        using 3 Cons.prems Some by (simp_all add: m1_def case_prod_beta Let_def del: fun_upd_apply)
      have "m1 k = Some r \<Longrightarrow> m k = Some r \<or> k = ToLower (rsName q) \<and> r = ?q"
        by (simp add: m1_def split: if_splits)
      with Cons.IH [OF run(2)] show ?thesis
        unfolding run(1) using 3 ToLower_Nil_iff [of "rsName q"] by (auto simp del: ToLower_Nil_iff)
    qed
  qed
qed simp

lemma listsLoop_map:
  "snd (snd (listsLoop ls m)) k = Some l \<Longrightarrow>
     m k = Some l \<or> Some l \<in> set (fst (listsLoop ls m)) \<and> CanonicalName l = k"
proof (induction ls arbitrary: m)
  case (Cons a ls)
  then show ?case
    by (cases a) (force simp: case_prod_beta Let_def split: if_splits)+
qed simp

lemma listsLoop_None [simp]: "None \<in> set (fst (listsLoop ls m)) \<longleftrightarrow> None \<in> set ls"
proof (induction ls arbitrary: m)
  case (Cons a ls)
  then show ?case
    by (cases a) (auto simp: case_prod_beta Let_def)
qed simp

section \<open>Durations\<close>

definition stdParse_ok :: "hostenv \<Rightarrow> bool" where
  "stdParse_ok H \<longleftrightarrow> stdParseDuration H ''1s'' = Inr second \<and> stdParseDuration H ''15s'' = Inr (15 * second) \<and>
     stdParseDuration H ''1h'' = Inr hour \<and> stdParseDuration H ''168h'' = Inr (168 * hour)"

lemma ParseDuration_defaults:
  "ParseDuration H ''1s'' = stdParseDuration H ''1s''" "ParseDuration H ''15s'' = stdParseDuration H ''15s''"
  "ParseDuration H ''1h'' = stdParseDuration H ''1h''" "ParseDuration H ''7d'' = stdParseDuration H ''168h''"
proof -
  have "fold durationToken regexpTokens (0, ''1s'') = (0, ''1s'')" "fold durationToken regexpTokens (0, ''15s'') = (0, ''15s'')"
    "fold durationToken regexpTokens (0, ''1h'') = (1, [])" "fold durationToken regexpTokens (0, ''7d'') = (168, [])"
    "Itoa 1 @ ''h'' = ''1h''" "Itoa 168 @ ''h'' = ''168h''"
    by code_simp+
  then show "ParseDuration H ''1s'' = stdParseDuration H ''1s''" "ParseDuration H ''15s'' = stdParseDuration H ''15s''"
    "ParseDuration H ''1h'' = stdParseDuration H ''1h''" "ParseDuration H ''7d'' = stdParseDuration H ''168h''"
    by (simp_all add: ParseDuration_def)
qed

lemma verifyDatabase_flush:
  assumes "stdParse_ok H"
  shows "\<exists>d. ParseDuration H (dbFlush (fst (verifyDatabase H db))) = Inr d \<and> 500 * millisecond \<le> d"
  using assms
  by (auto simp: verifyDatabase_def Let_def ParseDuration_defaults stdParse_ok_def split: sum.splits)

lemma verifyMetrics_ok:
  assumes "stdParse_ok H"
  shows "\<exists>d. ParseDuration H (mtInterval (fst (verifyMetrics H mt))) = Inr d \<and> second \<le> d"
    and "\<exists>d. ParseDuration H (mtDuration (fst (verifyMetrics H mt))) = Inr d"
    and "mtEnabled (fst (verifyMetrics H mt)) \<noteq> None" "mtPersist (fst (verifyMetrics H mt)) \<noteq> None" "mtDetailed (fst (verifyMetrics H mt)) \<noteq> None"
  using assms
  by (auto simp: verifyMetrics_def Let_def ParseDuration_defaults stdParse_ok_def orElse_def split: sum.splits option.splits)

lemma verifyQueryLog_ok:
  assumes "stdParse_ok H"
  shows "\<exists>d. ParseDuration H (qlDuration (fst (verifyQueryLog H ql))) = Inr d \<and> hour \<le> d"
    and "qlEnabled (fst (verifyQueryLog H ql)) \<noteq> None" "qlPersist (fst (verifyQueryLog H ql)) \<noteq> None"
    and "qlStdout (fst (verifyQueryLog H ql)) \<noteq> None" "qlReverseLookup (fst (verifyQueryLog H ql)) \<noteq> None"
    and "qlMdnsLookup (fst (verifyQueryLog H ql)) \<noteq> None" "qlNetbiosLookup (fst (verifyQueryLog H ql)) \<noteq> None"
  using assms
  by (auto simp: verifyQueryLog_def Let_def ParseDuration_defaults stdParse_ok_def orElse_def split: sum.splits option.splits)

section \<open>The pass as a whole\<close>

definition firstNamed :: "('a \<Rightarrow> string) \<Rightarrow> 'a option list \<Rightarrow> string \<Rightarrow> 'a option" where
  "firstNamed name xs k = (if k = [] then None else find (\<lambda>x. name x = k) (somes xs))"

definition ensureDefault :: "('a \<Rightarrow> string) \<Rightarrow> 'a \<Rightarrow> 'a option list \<Rightarrow> 'a option list" where
  "ensureDefault name d xs = (if firstNamed name xs defaultString = None then xs @ [Some d] else xs)"

lemma find_append: "find P (xs @ ys) = orElse (find P xs) (find P ys)"
  by (induction xs) (auto simp: orElse_def)

lemma firstNamed_ensureDefault:
  "name d = defaultString \<Longrightarrow> firstNamed name (ensureDefault name d xs) =
     (if firstNamed name xs defaultString = None then (firstNamed name xs)(defaultString \<mapsto> d) else firstNamed name xs)"
  by (auto simp: ensureDefault_def firstNamed_def find_append orElse_def fun_eq_iff split: option.splits)

lemma groupsLoop_Nil: "snd (snd (groupsLoop gs m)) [] = m []"
proof (induction gs arbitrary: m)
  case (Cons a gs)
  then show ?case
    by (cases a) (auto simp: case_prod_beta Let_def)
qed simp

lemma consumersLoop_Nil: "snd (snd (consumersLoop gs m)) [] = m []"
proof (induction gs arbitrary: m)
  case (Cons a gs)
  then show ?case
    by (cases a) (auto simp: case_prod_beta Let_def)
qed simp

lemma verifyAndInitGroups_eq:
  assumes "cfGroupMap c = Map.empty"
  shows "fst (verifyAndInitGroups c) =
    (let gs = ensureDefault gpName defaultGroup (map (map_option lowerGroup) (cfGroups c)) in
     c\<lparr>cfGroups := gs, cfGroupMap := firstNamed gpName gs\<rparr>)"
proof -
  define xs where "xs = map (map_option lowerGroup) (cfGroups c)"
  have m: "snd (snd (groupsLoop (cfGroups c) Map.empty)) = firstNamed gpName xs"
    by (auto simp: fun_eq_iff firstNamed_def groupsLoop_Nil groupsLoop_map orElse_def xs_def)
  have step: "fst (verifyAndInitGroups c) = (if firstNamed gpName xs defaultString = None
      then c\<lparr>cfGroups := xs @ [Some defaultGroup], cfGroupMap := (firstNamed gpName xs)(defaultString \<mapsto> defaultGroup)\<rparr>
      else c\<lparr>cfGroups := xs, cfGroupMap := firstNamed gpName xs\<rparr>)"
    unfolding verifyAndInitGroups_def assms case_prod_beta groupsLoop_list m xs_def [symmetric] Let_def by simp
  show ?thesis
    using firstNamed_ensureDefault [of gpName defaultGroup xs]
    unfolding xs_def [symmetric] Let_def step by (simp add: ensureDefault_def defaultGroup_def)
qed

lemma verifyAndInitConsumers_eq:
  assumes "cfConsumerMap c = Map.empty"
  shows "fst (verifyAndInitConsumers c) =
    (let cs = ensureDefault csName defaultConsumer (map (map_option lowerConsumer) (cfConsumers c)) in
     c\<lparr>cfConsumers := cs, cfConsumerMap := firstNamed csName cs\<rparr>)"
proof -
  define xs where "xs = map (map_option lowerConsumer) (cfConsumers c)"
  have m: "snd (snd (consumersLoop (cfConsumers c) Map.empty)) = firstNamed csName xs"
    by (auto simp: fun_eq_iff firstNamed_def consumersLoop_Nil consumersLoop_map orElse_def xs_def)
  have step: "fst (verifyAndInitConsumers c) = (if firstNamed csName xs defaultString = None
      then c\<lparr>cfConsumers := xs @ [Some defaultConsumer], cfConsumerMap := (firstNamed csName xs)(defaultString \<mapsto> defaultConsumer)\<rparr>
      else c\<lparr>cfConsumers := xs, cfConsumerMap := firstNamed csName xs\<rparr>)"
    unfolding verifyAndInitConsumers_def assms case_prod_beta consumersLoop_list m xs_def [symmetric] Let_def by simp
  show ?thesis
    using firstNamed_ensureDefault [of csName defaultConsumer xs]
    unfolding xs_def [symmetric] Let_def step by (simp add: ensureDefault_def defaultConsumer_def)
qed

text \<open>What each step leaves alone.\<close>

lemma verifyAndInitLists_keeps [simp]:
  "cfStorage (fst (verifyAndInitLists c)) = cfStorage c" "cfDatabase (fst (verifyAndInitLists c)) = cfDatabase c"
  "cfMetrics (fst (verifyAndInitLists c)) = cfMetrics c" "cfQueryLog (fst (verifyAndInitLists c)) = cfQueryLog c"
  "cfNetwork (fst (verifyAndInitLists c)) = cfNetwork c" "cfWeb (fst (verifyAndInitLists c)) = cfWeb c"
  "cfSystemd (fst (verifyAndInitLists c)) = cfSystemd c" "cfGroups (fst (verifyAndInitLists c)) = cfGroups c"
  "cfGroupMap (fst (verifyAndInitLists c)) = cfGroupMap c" "cfConsumers (fst (verifyAndInitLists c)) = cfConsumers c"
  "cfConsumerMap (fst (verifyAndInitLists c)) = cfConsumerMap c" "cfResolvers (fst (verifyAndInitLists c)) = cfResolvers c"
  "cfResolverMap (fst (verifyAndInitLists c)) = cfResolverMap c" "cfSources (fst (verifyAndInitLists c)) = cfSources c"
  "cfSourceMap (fst (verifyAndInitLists c)) = cfSourceMap c" "cfHome (fst (verifyAndInitLists c)) = cfHome c"
  by (simp_all add: verifyAndInitLists_def case_prod_beta)

lemma verifyAndInitResolvers_keeps [simp]:
  "cfStorage (fst (verifyAndInitResolvers c)) = cfStorage c" "cfDatabase (fst (verifyAndInitResolvers c)) = cfDatabase c"
  "cfMetrics (fst (verifyAndInitResolvers c)) = cfMetrics c" "cfQueryLog (fst (verifyAndInitResolvers c)) = cfQueryLog c"
  "cfNetwork (fst (verifyAndInitResolvers c)) = cfNetwork c" "cfWeb (fst (verifyAndInitResolvers c)) = cfWeb c"
  "cfSystemd (fst (verifyAndInitResolvers c)) = cfSystemd c" "cfGroups (fst (verifyAndInitResolvers c)) = cfGroups c"
  "cfGroupMap (fst (verifyAndInitResolvers c)) = cfGroupMap c" "cfConsumers (fst (verifyAndInitResolvers c)) = cfConsumers c"
  "cfConsumerMap (fst (verifyAndInitResolvers c)) = cfConsumerMap c" "cfLists (fst (verifyAndInitResolvers c)) = cfLists c"
  "cfListMap (fst (verifyAndInitResolvers c)) = cfListMap c"
  by (simp_all add: verifyAndInitResolvers_def case_prod_beta Let_def)

lemma verifyAndInitSources_keeps [simp]:
  "cfStorage (fst (verifyAndInitSources c)) = cfStorage c" "cfDatabase (fst (verifyAndInitSources c)) = cfDatabase c"
  "cfMetrics (fst (verifyAndInitSources c)) = cfMetrics c" "cfQueryLog (fst (verifyAndInitSources c)) = cfQueryLog c"
  "cfNetwork (fst (verifyAndInitSources c)) = cfNetwork c" "cfWeb (fst (verifyAndInitSources c)) = cfWeb c"
  "cfSystemd (fst (verifyAndInitSources c)) = cfSystemd c" "cfGroups (fst (verifyAndInitSources c)) = cfGroups c"
  "cfGroupMap (fst (verifyAndInitSources c)) = cfGroupMap c" "cfConsumers (fst (verifyAndInitSources c)) = cfConsumers c"
  "cfConsumerMap (fst (verifyAndInitSources c)) = cfConsumerMap c" "cfResolverMap (fst (verifyAndInitSources c)) = cfResolverMap c"
  "cfLists (fst (verifyAndInitSources c)) = cfLists c" "cfListMap (fst (verifyAndInitSources c)) = cfListMap c"
  by (simp_all add: verifyAndInitSources_def case_prod_beta)

lemma verifyAndInitConsumers_keeps [simp]:
  "cfStorage (fst (verifyAndInitConsumers c)) = cfStorage c" "cfDatabase (fst (verifyAndInitConsumers c)) = cfDatabase c"
  "cfMetrics (fst (verifyAndInitConsumers c)) = cfMetrics c" "cfQueryLog (fst (verifyAndInitConsumers c)) = cfQueryLog c"
  "cfNetwork (fst (verifyAndInitConsumers c)) = cfNetwork c" "cfWeb (fst (verifyAndInitConsumers c)) = cfWeb c"
  "cfSystemd (fst (verifyAndInitConsumers c)) = cfSystemd c" "cfGroups (fst (verifyAndInitConsumers c)) = cfGroups c"
  "cfGroupMap (fst (verifyAndInitConsumers c)) = cfGroupMap c" "cfResolverMap (fst (verifyAndInitConsumers c)) = cfResolverMap c"
  "cfLists (fst (verifyAndInitConsumers c)) = cfLists c" "cfListMap (fst (verifyAndInitConsumers c)) = cfListMap c"
  by (simp_all add: verifyAndInitConsumers_def case_prod_beta Let_def)

lemma verifyAndInitGroups_keeps [simp]:
  "cfStorage (fst (verifyAndInitGroups c)) = cfStorage c" "cfDatabase (fst (verifyAndInitGroups c)) = cfDatabase c"
  "cfMetrics (fst (verifyAndInitGroups c)) = cfMetrics c" "cfQueryLog (fst (verifyAndInitGroups c)) = cfQueryLog c"
  "cfNetwork (fst (verifyAndInitGroups c)) = cfNetwork c" "cfWeb (fst (verifyAndInitGroups c)) = cfWeb c"
  "cfSystemd (fst (verifyAndInitGroups c)) = cfSystemd c" "cfConsumers (fst (verifyAndInitGroups c)) = cfConsumers c"
  "cfConsumerMap (fst (verifyAndInitGroups c)) = cfConsumerMap c" "cfResolverMap (fst (verifyAndInitGroups c)) = cfResolverMap c"
  "cfLists (fst (verifyAndInitGroups c)) = cfLists c" "cfListMap (fst (verifyAndInitGroups c)) = cfListMap c"
  by (simp_all add: verifyAndInitGroups_def case_prod_beta Let_def)

lemma initial_keeps [simp]:
  "cfGroups (fst (verifyParts H (fst (initHome H (initMaps c))))) = cfGroups c"
  "cfConsumers (fst (verifyParts H (fst (initHome H (initMaps c))))) = cfConsumers c"
  "cfLists (fst (verifyParts H (fst (initHome H (initMaps c))))) = cfLists c"
  "cfGroupMap (fst (verifyParts H (fst (initHome H (initMaps c))))) = Map.empty"
  "cfConsumerMap (fst (verifyParts H (fst (initHome H (initMaps c))))) = Map.empty"
  "cfResolverMap (fst (verifyParts H (fst (initHome H (initMaps c))))) = Map.empty"
  "cfListMap (fst (verifyParts H (fst (initHome H (initMaps c))))) = Map.empty"
  by (simp_all add: verifyParts_def initHome_def initMaps_def Let_def)

lemma verifyAndInit_fst:
  "fst (verifyAndInit H c) = fst (verifyAndInitLists (fst (verifyAndInitResolvers (fst (verifyAndInitSources
     (fst (verifyAndInitConsumers (fst (verifyAndInitGroups (fst (verifyParts H (fst (initHome H (initMaps c))))))))))))))"
  by (simp add: verifyAndInit_def case_prod_beta)

lemma verifyAndInit_groups:
  "cfGroups (fst (verifyAndInit H c)) = ensureDefault gpName defaultGroup (map (map_option lowerGroup) (cfGroups c))"
  "cfGroupMap (fst (verifyAndInit H c)) = firstNamed gpName (cfGroups (fst (verifyAndInit H c)))"
  by (simp_all add: verifyAndInit_fst verifyAndInitGroups_eq Let_def)

lemma verifyAndInit_consumers:
  "cfConsumers (fst (verifyAndInit H c)) = ensureDefault csName defaultConsumer (map (map_option lowerConsumer) (cfConsumers c))"
  "cfConsumerMap (fst (verifyAndInit H c)) = firstNamed csName (cfConsumers (fst (verifyAndInit H c)))"
  by (simp_all add: verifyAndInit_fst verifyAndInitConsumers_eq Let_def)

lemma verifyAndInitResolvers_map:
  assumes "cfResolverMap c = Map.empty" "cfResolverMap (fst (verifyAndInitResolvers c)) k = Some r"
  shows "Some r \<in> set (cfResolvers (fst (verifyAndInitResolvers c))) \<and> rsName r = k"
  using assms resolversLoop_map [of "cfSourceMap c" "cfResolvers c" Map.empty k r]
  by (auto simp: verifyAndInitResolvers_def case_prod_beta Let_def injectResolver_def systemOnlyResolver_def split: if_splits)

lemma verifyAndInitResolvers_defaults:
  "cfResolverMap (fst (verifyAndInitResolvers c)) defaultString \<noteq> None"
  "cfResolverMap (fst (verifyAndInitResolvers c)) systemString \<noteq> None"
  by (auto simp: verifyAndInitResolvers_def case_prod_beta Let_def injectResolver_def)

lemma verifyAndInit_resolvers:
  "cfResolverMap (fst (verifyAndInit H c)) k = Some r \<Longrightarrow> Some r \<in> set (cfResolvers (fst (verifyAndInit H c))) \<and> rsName r = k"
  "cfResolverMap (fst (verifyAndInit H c)) defaultString \<noteq> None" "cfResolverMap (fst (verifyAndInit H c)) systemString \<noteq> None"
  using verifyAndInitResolvers_map [of "fst (verifyAndInitSources (fst (verifyAndInitConsumers (fst (verifyAndInitGroups
      (fst (verifyParts H (fst (initHome H (initMaps c))))))))))" k r]
  by (simp_all add: verifyAndInit_fst verifyAndInitResolvers_defaults)

lemma Load_verified:
  assumes "Load H readFile unmarshal filename = Inr (conf, warnings)"
  obtains c where "conf = fst (verifyAndInit H c)"
  using assms by (auto simp: Load_def Let_def case_prod_beta split: sum.splits option.splits if_splits)

lemma verifyAndInit_settings:
  "cfStorage (fst (verifyAndInit H c)) = Some (verifyStorage (withDefault defaultStorage (cfStorage c)))"
  "cfDatabase (fst (verifyAndInit H c)) = Some (fst (verifyDatabase H (withDefault \<lparr>dbFlush = ''1s''\<rparr> (cfDatabase c))))"
  "cfMetrics (fst (verifyAndInit H c)) = Some (fst (verifyMetrics H (withDefault emptyMetrics (cfMetrics c))))"
  "cfQueryLog (fst (verifyAndInit H c)) = Some (fst (verifyQueryLog H (withDefault emptyQueryLog (cfQueryLog c))))"
  "cfNetwork (fst (verifyAndInit H c)) = Some (verifyNetwork (withDefault defaultNetwork (cfNetwork c)))"
  by (auto simp: verifyAndInit_fst verifyParts_def initHome_def initMaps_def Let_def)

lemma firstNamed_default: "name d = defaultString \<Longrightarrow> firstNamed name (ensureDefault name d xs) defaultString \<noteq> None"
  by (simp add: firstNamed_ensureDefault)

lemma Some_map_option: "Some y = map_option f x \<longleftrightarrow> (\<exists>z. x = Some z \<and> y = f z)"
  by (cases x) auto

lemma ToLower_default [simp]: "ToLower ''default'' = ''default''"
  by code_simp

lemma lower_names:
  "Some g \<in> set (ensureDefault gpName defaultGroup (map (map_option lowerGroup) gs)) \<Longrightarrow> ToLower (gpName g) = gpName g"
  "Some c \<in> set (ensureDefault csName defaultConsumer (map (map_option lowerConsumer) cs)) \<Longrightarrow> ToLower (csName c) = csName c"
  by (auto simp: ensureDefault_def lowerGroup_def lowerConsumer_def defaultGroup_def defaultConsumer_def Some_map_option
      split: if_splits)

section \<open>Properties\<close>

text \<open>
  C20. A loaded configuration can be asked for its parts by name: groups and consumers are found under
  their names, the first of each name, and resolvers under theirs; all group and consumer names are in
  lower case; and whatever the file says there are a default group, a default consumer, a default
  resolver and a system resolver.
\<close>

theorem loaded_names:
  assumes "Load H readFile unmarshal filename = Inr (conf, warnings)"
  shows "GetGroup conf k = (if k = [] then None else find (\<lambda>g. gpName g = k) (somes (cfGroups conf))) \<and>
    GetConsumer conf k = (if k = [] then None else find (\<lambda>c. csName c = k) (somes (cfConsumers conf))) \<and>
    (\<forall>r. GetResolver conf k = Some r \<longrightarrow> Some r \<in> set (cfResolvers conf) \<and> rsName r = k) \<and>
    (\<forall>g. Some g \<in> set (cfGroups conf) \<longrightarrow> ToLower (gpName g) = gpName g) \<and>
    (\<forall>c. Some c \<in> set (cfConsumers conf) \<longrightarrow> ToLower (csName c) = csName c) \<and>
    GetGroup conf ''default'' \<noteq> None \<and> GetConsumer conf ''default'' \<noteq> None \<and>
    GetResolver conf ''default'' \<noteq> None \<and> GetResolver conf ''system'' \<noteq> None"
proof -
  obtain c where conf: "conf = fst (verifyAndInit H c)"
    using assms by (rule Load_verified)
  have lower: "Some g \<in> set (cfGroups conf) \<Longrightarrow> ToLower (gpName g) = gpName g" "Some d \<in> set (cfConsumers conf) \<Longrightarrow> ToLower (csName d) = csName d" for g d
    unfolding conf verifyAndInit_groups(1) verifyAndInit_consumers(1) by (rule lower_names, assumption)+
  have "GetGroup conf ''default'' \<noteq> None" "GetConsumer conf ''default'' \<noteq> None"
    by (simp_all add: conf GetGroup_def GetConsumer_def verifyAndInit_groups verifyAndInit_consumers firstNamed_default
        defaultGroup_def defaultConsumer_def)
  then show ?thesis
    using lower verifyAndInit_resolvers [of H c]
    by (simp add: conf GetGroup_def GetConsumer_def GetResolver_def verifyAndInit_groups(2) verifyAndInit_consumers(2) firstNamed_def)
qed

definition demoHost :: hostenv where
  "demoHost = \<lparr>stdParseDuration = (\<lambda>s. if s = ''1s'' then Inr second else if s = ''15s'' then Inr (15 * second)
       else if s = ''1h'' then Inr hour else if s = ''168h'' then Inr (168 * hour) else Inl ''time: invalid duration''),
     userHome = None, pathJoin = (\<lambda>a b. a @ ''/'' @ b), absPath = Some, evalSymlinks = Some\<rparr>"

definition demoYaml :: GudgeonConfig where
  "demoYaml = emptyConfig\<lparr>cfGroups := [None, Some \<lparr>gpName = ''Kids'', gpInherit = [], gpResolvers = [], gpLists = [], gpTags = None\<rparr>],
     cfDatabase := Some \<lparr>dbFlush = ''soon''\<rparr>\<rparr>"

theorem loaded_names_witness:
  "(case Load demoHost (\<lambda>f. Inr []) (\<lambda>s. Inr (Some demoYaml)) ''g.yml'' of Inl e \<Rightarrow> False | Inr (conf, warnings) \<Rightarrow>
     map_option gpName (GetGroup conf ''kids'') = Some ''kids'' \<and> GetGroup conf ''Kids'' = None \<and> GetConsumer conf ''default'' \<noteq> None)"
proof -
  let ?l = "Load demoHost (\<lambda>f. Inr []) (\<lambda>s. Inr (Some demoYaml)) ''g.yml''"
  obtain conf ws where l: "?l = Inr (conf, ws)"
    by (auto simp: Load_def verifyAndInit_def case_prod_beta Let_def)
  have "(case ?l of Inl e \<Rightarrow> False | Inr (conf, warnings) \<Rightarrow>
      find (\<lambda>g. gpName g = ''kids'') (somes (cfGroups conf)) = Some (lowerGroup (the (cfGroups demoYaml ! 1))) \<and>
      find (\<lambda>g. gpName g = ''Kids'') (somes (cfGroups conf)) = None)"
    by code_simp
  moreover have "gpName (lowerGroup (the (cfGroups demoYaml ! 1))) = ''kids''"
    by code_simp
  ultimately show ?thesis
    using loaded_names [OF l, of "''kids''"] loaded_names [OF l, of "''Kids''"] by (simp add: l)
qed

text \<open>
  C21. The settings of a loaded configuration can be used as they are: storage, database, metrics,
  query log and network are there, the switches that the engine reads through pointers are set, the
  flush interval of the database is at least half a second, the metrics interval at least a second and
  the query log is kept for an hour or more.
\<close>

theorem loaded_settings:
  assumes "stdParse_ok H" "Load H readFile unmarshal filename = Inr (conf, warnings)"
  shows "\<exists>st db mt ql nw flush interval keep qkeep.
    cfStorage conf = Some st \<and> stCacheEnabled st \<noteq> None \<and>
    cfDatabase conf = Some db \<and> ParseDuration H (dbFlush db) = Inr flush \<and> 500 * millisecond \<le> flush \<and>
    cfMetrics conf = Some mt \<and> mtEnabled mt \<noteq> None \<and> mtPersist mt \<noteq> None \<and> mtDetailed mt \<noteq> None \<and>
    ParseDuration H (mtInterval mt) = Inr interval \<and> second \<le> interval \<and> ParseDuration H (mtDuration mt) = Inr keep \<and>
    cfQueryLog conf = Some ql \<and> qlEnabled ql \<noteq> None \<and> qlPersist ql \<noteq> None \<and> qlStdout ql \<noteq> None \<and>
    qlReverseLookup ql \<noteq> None \<and> qlMdnsLookup ql \<noteq> None \<and> qlNetbiosLookup ql \<noteq> None \<and>
    ParseDuration H (qlDuration ql) = Inr qkeep \<and> hour \<le> qkeep \<and>
    cfNetwork conf = Some nw \<and> (\<forall>i \<in> set (nwInterfaces nw). ifTCP i \<noteq> None \<and> ifUDP i \<noteq> None)"
proof -
  obtain c where conf: "conf = fst (verifyAndInit H c)"
    using assms(2) by (rule Load_verified)
  have "stCacheEnabled (verifyStorage s) \<noteq> None" for s
    by (auto simp: verifyStorage_def orElse_def split: option.splits)
  moreover have "i \<in> set (nwInterfaces (verifyNetwork n)) \<Longrightarrow> ifTCP i \<noteq> None \<and> ifUDP i \<noteq> None" for i n
    by (auto simp: verifyNetwork_def verifyInterface_def orElse_def Let_def split: option.splits)
  moreover obtain flush interval keep qkeep
    where "ParseDuration H (dbFlush (fst (verifyDatabase H (withDefault \<lparr>dbFlush = ''1s''\<rparr> (cfDatabase c))))) = Inr flush" "500 * millisecond \<le> flush"
      "ParseDuration H (mtInterval (fst (verifyMetrics H (withDefault emptyMetrics (cfMetrics c))))) = Inr interval" "second \<le> interval"
      "ParseDuration H (mtDuration (fst (verifyMetrics H (withDefault emptyMetrics (cfMetrics c))))) = Inr keep"
      "ParseDuration H (qlDuration (fst (verifyQueryLog H (withDefault emptyQueryLog (cfQueryLog c))))) = Inr qkeep" "hour \<le> qkeep"
    using verifyDatabase_flush [OF assms(1)] verifyMetrics_ok [OF assms(1)] verifyQueryLog_ok [OF assms(1)] by metis
  ultimately show ?thesis
    unfolding conf verifyAndInit_settings
    using verifyMetrics_ok(3-) [OF assms(1)] verifyQueryLog_ok(2-) [OF assms(1)] by simp
qed

theorem loaded_settings_witness:
  "(case Load demoHost (\<lambda>f. Inr []) (\<lambda>s. Inr (Some demoYaml)) ''g.yml'' of Inl e \<Rightarrow> False | Inr (conf, warnings) \<Rightarrow>
     (\<exists>db flush. cfDatabase conf = Some db \<and> ParseDuration demoHost (dbFlush db) = Inr flush \<and> 500 * millisecond \<le> flush))"
proof -
  let ?l = "Load demoHost (\<lambda>f. Inr []) (\<lambda>s. Inr (Some demoYaml)) ''g.yml''"
  obtain conf ws where l: "?l = Inr (conf, ws)"
    by (auto simp: Load_def verifyAndInit_def case_prod_beta Let_def)
  have "stdParse_ok demoHost"
    by (simp add: stdParse_ok_def demoHost_def)
  from loaded_settings [OF this l] show ?thesis
    by (simp add: l) blast
qed

end
