(* ===== verification/Engine_Init.thy ===== *)
theory Engine_Init
  imports Engine_Facts Engine_Consumers Config_Facts
begin

text \<open>
  \<^verbatim>\<open>src/engine/engine_init.go\<close> and \<^verbatim>\<open>src/engine/downloader.go\<close>: the engine built from a configuration.

  \<open>bootstrap\<close> makes the resolvers, the groups with their lists, the consumers with their groups, then
  downloads the lists that are missing, creates the rule store and counts its rules. A nil group,
  consumer or list of the configuration is dereferenced on the way. The transfer of a file is a
  parameter. Session folders and log output leave no trace in the model.
\<close>

section \<open>Groups and consumers\<close>

definition assignedLists :: "string list \<Rightarrow> string list \<Rightarrow> GudgeonList list \<Rightarrow> GudgeonList list" where
  "assignedLists listNames listTags ls =
     filter (\<lambda>l. StringIn (lsName l) listNames \<or> list_ex (\<lambda>tag. StringIn tag listTags) (SafeTags l)) ls"

definition newGroup :: "GudgeonList list \<Rightarrow> GudgeonGroup \<Rightarrow> engineGroup" where
  "newGroup ls g = \<lparr>grConfig = g, grLists = assignedLists (gpLists g) (GroupSafeTags g) ls\<rparr>"

definition groupMapOf :: "engineGroup list \<Rightarrow> (string \<times> engineGroup) list" where
  "groupMapOf gs = fold (\<lambda>g m. if gpName (grConfig g) \<noteq> [] then AList.update (gpName (grConfig g)) g m else m) gs []"

text \<open>Lists are added unless one of the same canonical name is there already.\<close>

fun addLists :: "GudgeonList list \<Rightarrow> GudgeonList list \<Rightarrow> GudgeonList list" where
  "addLists current [] = current"
| "addLists current (l # ls) =
     addLists (if list_ex (\<lambda>c. CanonicalName c = CanonicalName l) current then current else current @ [l]) ls"

fun linkGroups :: "engineGroup list \<Rightarrow> engineConsumer \<Rightarrow> engineConsumer" where
  "linkGroups [] c = c"
| "linkGroups (g # gs) c =
     linkGroups gs (if StringIn (gpName (grConfig g)) (csGroups (ecConfig c))
       then c\<lparr>ecGroupNames := ecGroupNames c @ [gpName (grConfig g)],
              ecResolverNames := (if length (gpResolvers (grConfig g)) > 0
                then ecResolverNames c @ gpResolvers (grConfig g) else ecResolverNames c),
              ecLists := addLists (ecLists c) (grLists g)\<rparr>
       else c)"

definition newConsumer :: "engineGroup list \<Rightarrow> GudgeonConsumer \<Rightarrow> engineConsumer" where
  "newConsumer gs k = linkGroups gs \<lparr>ecConfig = k, ecGroupNames = [], ecResolverNames = [], ecLists = []\<rparr>"

definition consumerMapOf :: "engineConsumer list \<Rightarrow> (string \<times> engineConsumer) list" where
  "consumerMapOf cs = fold (\<lambda>c m. if csName (ecConfig c) \<noteq> [] then AList.update (csName (ecConfig c)) c m else m) cs []"

definition defaultOf :: "engineConsumer list \<Rightarrow> engineConsumer option" where
  "defaultOf cs = fold (\<lambda>c d. if EqualFold (csName (ecConfig c)) ''default'' then Some c else d) cs None"

section \<open>downloader.go\<close>

text \<open>The address the HTTP client dials instead of the one it was given.\<close>

definition dialAddress :: "nat \<Rightarrow> srclib \<Rightarrow> 'f storelib \<Rightarrow> 'b backer \<Rightarrow> 'f engine \<Rightarrow> string \<Rightarrow> 'b world \<Rightarrow> (string \<times> 'b world) run" where
  "dialAddress n S E B eg address w =
     (let parts = Split (CHR '':'') address in
      if length parts > 1 \<and> ParseIP (parts ! 0) = None then
        bind_run (Resolve n S E B eg (parts ! 0) w) (\<lambda>(r, w').
          Ret (case r of Inr resolvedIP \<Rightarrow> if resolvedIP \<noteq> [] then resolvedIP @ '':'' @ parts ! 1 else address | Inl e \<Rightarrow> address, w'))
      else Ret (address, w))"

text \<open>\<open>fetch\<close> is the transfer by the HTTP client: the content of a URL or an error.\<close>

definition downloadFile :: "(string \<Rightarrow> string result) \<Rightarrow> string \<Rightarrow> string \<Rightarrow> fileSystem \<Rightarrow> fileSystem result" where
  "downloadFile fetch path url fs =
     (if url = [] then Inr fs
      else case fetch url of Inl e \<Rightarrow> Inl e | Inr content \<Rightarrow> Inr (fs(path \<mapsto> content)))"

definition Download :: "hostenv \<Rightarrow> GudgeonConfig \<Rightarrow> (string \<Rightarrow> string result) \<Rightarrow> GudgeonList \<Rightarrow> fileSystem \<Rightarrow> fileSystem result" where
  "Download H conf fetch l fs = downloadFile fetch (PathToList H conf (Some l)) (lsSource l) fs"

fun downloadLists :: "hostenv \<Rightarrow> GudgeonConfig \<Rightarrow> (string \<Rightarrow> string result) \<Rightarrow> GudgeonList list \<Rightarrow> fileSystem \<Rightarrow> fileSystem result" where
  "downloadLists H conf fetch [] fs = Inr fs"
| "downloadLists H conf fetch (l # ls) fs =
     (if \<not> IsRemote (Some l) then downloadLists H conf fetch ls fs
      else if fs (PathToList H conf (Some l)) \<noteq> None then downloadLists H conf fetch ls fs
      else case Download H conf fetch l fs of
             Inl e \<Rightarrow> Inl e
           | Inr fs' \<Rightarrow> downloadLists H conf fetch ls fs')"

section \<open>Rule counts\<close>

definition listMetric :: "GudgeonList \<Rightarrow> string" where
  "listMetric l = ''rules-list-'' @ ShortName l"

fun countLists :: "(GudgeonList \<times> nat) list \<Rightarrow> metrics \<Rightarrow> metrics" where
  "countLists [] m = m"
| "countLists ((l, k) # rest) m = countLists rest (metricInc (listMetric l) (wrap64 (int k)) (metricClear (listMetric l) m))"

definition countRules :: "GudgeonList list \<Rightarrow> nat list \<Rightarrow> metrics \<Rightarrow> metrics" where
  "countRules ls counts m =
     metricInc TotalRules (wrap64 (int (sum_list counts))) (countLists (zip ls counts) m)"

text \<open>
  The handler of \<open>store:list:changed\<close>: a value of the message that is missing or of another type is
  \<^const>\<open>None\<close>.
\<close>

record listChange =
  lcName :: "string option"
  lcShortName :: "string option"
  lcCount :: "int option"

definition listChanged :: "listChange \<Rightarrow> metrics option \<Rightarrow> metrics option" where
  "listChanged msg mo = (case mo of
       None \<Rightarrow> None
     | Some m0 \<Rightarrow>
         (let short = (case lcShortName msg of None \<Rightarrow> [] | Some s \<Rightarrow> s);
              count = (case lcCount msg of None \<Rightarrow> 0 | Some c \<Rightarrow> c);
              m = (if short \<noteq> [] then
                     (let (oldCount, m1) = metricGet (''rules-list-'' @ short) m0;
                          m2 = metricInc TotalRules count (metricInc TotalRules (- oldCount) m1)
                      in metricInc (''rules-list-'' @ short) count (metricClear (''rules-list-'' @ short) m2))
                   else m0)
          in Some (snd (metricGet TotalRules m))))"

section \<open>bootstrap\<close>

text \<open>
  Which of the database, the metrics, the query log and the recorder a configuration asks for;
  \<open>dbError\<close> is the error of opening the database, if that fails.
\<close>

record engineParts =
  ptDb :: bool
  ptMetrics :: bool
  ptQueryLog :: bool
  ptRecorder :: bool

definition bootstrapParts :: "GudgeonConfig \<Rightarrow> string option \<Rightarrow> engineParts result run" where
  "bootstrapParts conf dbError = (case (cfMetrics conf, cfQueryLog conf) of
       (Some mt, Some ql) \<Rightarrow>
         (case (mtEnabled mt, mtPersist mt, qlEnabled ql, qlPersist ql) of
            (Some me, Some mp, Some qe, Some qp) \<Rightarrow>
              Ret (if me \<or> qe then
                     (let db = (me \<and> mp) \<or> (qe \<and> qp) in
                      case (db, dbError) of
                        (True, Some e) \<Rightarrow> Inl e
                      | _ \<Rightarrow> Inr \<lparr>ptDb = db, ptMetrics = me, ptQueryLog = qe, ptRecorder = db \<and> (qe \<or> me)\<rparr>)
                   else Inr \<lparr>ptDb = False, ptMetrics = False, ptQueryLog = False, ptRecorder = False\<rparr>)
          | _ \<Rightarrow> Panic)
     | _ \<Rightarrow> Panic)"

definition buildEngine :: "GudgeonConfig \<Rightarrow> engineParts \<Rightarrow> resolverMap \<Rightarrow> 'f store \<Rightarrow> metrics option \<Rightarrow> 'f engine" where
  "buildEngine conf parts rm store m =
     (let ls = map the (cfLists conf);
          groups = map (newGroup ls \<circ> the) (cfGroups conf);
          consumers = map (newConsumer groups \<circ> the) (cfConsumers conf)
      in \<lparr>egConfig = conf, egStore = Some store, egResolvers = rm, egSources = newSourceState, egGroups = groupMapOf groups,
          egConsumers = consumers, egConsumerMap = consumerMapOf consumers, egDefaultConsumer = defaultOf consumers,
          egMetrics = m, egRecorder = ptRecorder parts,
          egConsumerNames = None, egGroupNames = None, egResolverNames = None, egListEntries = None\<rparr>)"

text \<open>
  \<open>bootstrap\<close>: \<open>depth\<close> bounds the nesting of sources, \<open>metrics\<close> are the ones \<open>NewMetrics\<close> made. The result is
  the engine, the files and the world of its resolvers.
\<close>

definition bootstrap :: "hostenv \<Rightarrow> nat \<Rightarrow> srclib \<Rightarrow> 'f storelib \<Rightarrow> (string \<Rightarrow> string result) \<Rightarrow> string option \<Rightarrow> metrics
    \<Rightarrow> GudgeonConfig \<Rightarrow> fileSystem \<Rightarrow> ('f engine \<times> fileSystem \<times> 'b world) result run" where
  "bootstrap H depth S E fetch dbError metrics conf fs =
     bind_run (bootstrapParts conf dbError) (\<lambda>po. case po of
         Inl e \<Rightarrow> Ret (Inl e)
       | Inr parts \<Rightarrow>
           bind_run (NewResolverMap depth S (cfSources conf) (cfResolvers conf)) (\<lambda>rm.
             if None \<in> set (cfGroups conf) \<or> None \<in> set (cfConsumers conf) \<or> None \<in> set (cfLists conf) then Panic
             else case downloadLists H conf fetch (map the (cfLists conf)) fs of
                 Inl e \<Rightarrow> Ret (Inl e)
               | Inr fs' \<Rightarrow>
                   (case cfStorage conf of
                      None \<Rightarrow> Panic
                    | Some storage \<Rightarrow>
                        bind_run (CreateStore E fs' (\<lambda>l. PathToList H conf (Some l)) (stRuleStorage storage) (cfLists conf)) (\<lambda>(store, counts).
                          let m = (if ptMetrics parts then Some (countRules (map the (cfLists conf)) counts (metrics\<lparr>meCacheSizeFunc := True\<rparr>)) else None)
                          in Ret (Inr (buildEngine conf parts rm store m, fs',
                               newWorld (if stCacheEnabled storage = Some True then Some newCache else None)))))))"

end
