(* ===== verification/Metrics_Facts.thy ===== *)
theory Metrics_Facts
  imports Metrics
begin

text \<open>
  Facts about the counters of the theory \<open>Metrics\<close>: what an operation on one counter leaves of the others,
  arithmetic of the 64 bit wrap-around, and the account that counters and stored snapshots give of a
  history of queries.
\<close>

section \<open>Counters\<close>

lemma mod_shift: "(a + c) mod n = (b + c) mod n \<longleftrightarrow> a mod n = b mod n" for a b c n :: int
  by (simp add: mod_eq_dvd_iff)

lemma wrap64_eq_iff: "wrap64 a = wrap64 b \<longleftrightarrow> a mod 2 ^ 64 = b mod 2 ^ 64"
  unfolding wrap64_def using mod_shift [of a "2 ^ 63" "2 ^ 64" b] by linarith

lemma wrap64_mod: "wrap64 a mod 2 ^ 64 = a mod 2 ^ 64"
proof -
  have "wrap64 a mod 2 ^ 64 = (a + 2 ^ 63 - 2 ^ 63) mod 2 ^ 64"
    unfolding wrap64_def by (rule mod_diff_left_eq)
  then show ?thesis
    by simp
qed

lemma wrap64_add [simp]: "wrap64 (wrap64 a + b) = wrap64 (a + b)" "wrap64 (a + wrap64 b) = wrap64 (a + b)"
  unfolding wrap64_eq_iff by (metis wrap64_mod mod_add_left_eq) (metis wrap64_mod mod_add_right_eq)

lemma wrap64_Suc: "wrap64 a = wrap64 b \<Longrightarrow> wrap64 (1 + b) = wrap64 (1 + a)"
  by (metis wrap64_add(2))

lemma wrap64_idem [simp]: "wrap64 (wrap64 a) = wrap64 a"
  unfolding wrap64_eq_iff by (rule wrap64_mod)

lemma metricValue_map: "metricValue a m = (case meMap m (MetricsPrefix @ a) of None \<Rightarrow> 0 | Some v \<Rightarrow> v)"
  by (simp add: metricValue_def metricGet_def split: option.split)

lemma metricValue_set [simp]: "metricValue a (metricSet b v m) = (if a = b then v else metricValue a m)"
  by (simp add: metricValue_map metricSet_def)

lemma metricValue_get [simp]: "metricValue a (snd (metricGet b m)) = metricValue a m"
  by (auto simp: metricValue_map metricGet_def split: option.splits)

lemma metricValue_inc [simp]: "metricValue a (metricInc b v m) = (if a = b then wrap64 (metricValue a m + v) else metricValue a m)"
  by (simp add: metricInc_def case_prod_beta metricValue_def [of b m, symmetric])

lemma metricValue_clear [simp]: "metricValue a (metricClear b m) = (if a = b then 0 else metricValue a m)"
  by (simp add: metricClear_def)

lemma metricValue_info [simp]: "metricValue a (m\<lparr>meCacheSizeFunc := f\<rparr>) = metricValue a m" "metricValue a (m\<lparr>meLastInsert := t\<rparr>) = metricValue a m"
  by (simp_all add: metricValue_map)

section \<open>Histories\<close>

text \<open>What the recorder does with its metrics, in any order; a clock reading comes with the insert.\<close>

datatype metricsEvent =
    Recorded InfoRecord
  | Updated "procInfo option" procInfo int
  | Inserted bool int
  | Pruned int

fun metricsStep :: "metricsEvent \<Rightarrow> metricsRow list \<times> metrics \<Rightarrow> metricsRow list \<times> metrics" where
  "metricsStep (Recorded info) (rows, m) = (rows, recordMetrics info m)"
| "metricsStep (Updated proc rt entries) (rows, m) = (rows, update proc rt entries m)"
| "metricsStep (Inserted ok now) st = insertMetrics ok now st"
| "metricsStep (Pruned now) st = pruneMetrics now st"

definition recordedBy :: "(InfoRecord \<Rightarrow> bool) \<Rightarrow> metricsEvent list \<Rightarrow> nat" where
  "recordedBy P es = length (filter (\<lambda>e. case e of Recorded i \<Rightarrow> P i | _ \<Rightarrow> False) es)"

lemma metricValue_setReading: "metricValue a (setReading b r m) = (if a = b \<and> r \<noteq> None then the r else metricValue a m)"
  by (auto simp: setReading_def split: option.split)

lemma update_keeps:
  assumes "a \<notin> {QueriesPerSecond, BlocksPerSecond, QueryTimeAvg, Threads, UsedMemory, CPUHundredsPercent, GoRoutines, CurrentlyAllocated, CurrentCacheEntries}"
  shows "metricValue a (update proc rt entries m) = metricValue a m"
  using assms by (auto simp: update_def updateRates_def updateAverage_def metricValue_setReading case_prod_beta Let_def split: option.split)

lemma recordMetrics_counts:
  "metricValue TotalQueries (recordMetrics i m) = wrap64 (metricValue TotalQueries m + 1)"
  "metricValue TotalIntervalQueries (recordMetrics i m) = wrap64 (metricValue TotalIntervalQueries m + 1)"
  "metricValue BlockedQueries (recordMetrics i m) = (if isBlockedResult (irResult i) then wrap64 (metricValue BlockedQueries m + 1) else metricValue BlockedQueries m)"
  "metricValue BlockedIntervalQueries (recordMetrics i m) = (if isBlockedResult (irResult i) then wrap64 (metricValue BlockedIntervalQueries m + 1) else metricValue BlockedIntervalQueries m)"
  "metricValue CachedQueries (recordMetrics i m) = (if isCachedResult (irResult i) then wrap64 (metricValue CachedQueries m + 1) else metricValue CachedQueries m)"
  by (auto simp: recordMetrics_def recordList_def Let_def split: option.splits)

definition rowValue :: "string \<Rightarrow> metricsRow \<Rightarrow> int" where
  "rowValue a r = (case mrValues r (MetricsPrefix @ a) of None \<Rightarrow> 0 | Some v \<Rightarrow> v)"

text \<open>What holds between the rows and the counters while nothing is pruned.\<close>

definition accounts :: "metricsEvent list \<Rightarrow> int \<Rightarrow> metricsRow list \<times> metrics \<Rightarrow> bool" where
  "accounts es start st \<longleftrightarrow> (let (rows, m) = st in
     metricValue TotalQueries m = wrap64 (int (recordedBy (\<lambda>i. True) es)) \<and>
     metricValue BlockedQueries m = wrap64 (int (recordedBy (\<lambda>i. isBlockedResult (irResult i)) es)) \<and>
     metricValue CachedQueries m = wrap64 (int (recordedBy (\<lambda>i. isCachedResult (irResult i)) es)) \<and>
     metricValue TotalQueries m = wrap64 (sum_list (map (rowValue TotalIntervalQueries) rows) + metricValue TotalIntervalQueries m) \<and>
     metricValue BlockedQueries m = wrap64 (sum_list (map (rowValue BlockedIntervalQueries) rows) + metricValue BlockedIntervalQueries m) \<and>
     map mrFromTime rows @ [meLastInsert m] = start # map mrAtTime rows)"

lemma recordedBy_snoc [simp]: "recordedBy P (es @ [e]) = recordedBy P es + (case e of Recorded i \<Rightarrow> if P i then 1 else 0 | _ \<Rightarrow> 0)"
  by (cases e) (auto simp: recordedBy_def)

lemma lastInsert_set [simp]: "meLastInsert (metricSet a v m) = meLastInsert m" "meLastInsert (snd (metricGet a m)) = meLastInsert m"
  by (auto simp: metricSet_def metricGet_def split: option.split)

lemma lastInsert_inc [simp]: "meLastInsert (metricInc a v m) = meLastInsert m" "meLastInsert (metricClear a m) = meLastInsert m"
  "meLastInsert (setReading a r m) = meLastInsert m"
  by (auto simp: metricInc_def metricClear_def case_prod_beta setReading_def split: option.split)

lemma lastInsert_record [simp]: "meLastInsert (recordMetrics i m) = meLastInsert m" "meLastInsert (update proc rt n m) = meLastInsert m"
  by (auto simp: recordMetrics_def recordList_def update_def updateRates_def updateAverage_def case_prod_beta Let_def split: option.split)

lemma accounts_step:
  assumes "accounts es start st" "\<forall>t. e \<noteq> Pruned t"
  shows "accounts (es @ [e]) start (metricsStep e st)"
proof (cases st)
  case (Pair rows m)
  show ?thesis
  proof (cases e)
    case (Recorded i)
    then show ?thesis
      using assms(1) by (auto simp: Pair accounts_def recordMetrics_counts algebra_simps intro: wrap64_Suc)
  next
    case (Updated proc rt n)
    then show ?thesis
      using assms(1) by (simp add: Pair accounts_def update_keeps)
  next
    case (Inserted ok t)
    have "rowValue a \<lparr>mrFromTime = f, mrAtTime = t, mrValues = meMap m, mrIntervalSeconds = n\<rparr> = metricValue a m" for a f n
      by (simp add: rowValue_def metricValue_map)
    then show ?thesis
      using assms(1) by (auto simp: Pair Inserted accounts_def insertMetrics_def)
  qed (use assms(2) in blast)
qed

lemma accounts_run:
  "\<forall>e \<in> set es. \<forall>t. e \<noteq> Pruned t \<Longrightarrow> accounts [] start st \<Longrightarrow> accounts es start (foldl (\<lambda>s e. metricsStep e s) st es)"
  by (induction es rule: rev_induct) (simp_all add: accounts_step)

section \<open>Properties\<close>


definition demoInfo :: InfoRecord where
  "demoInfo = \<lparr>irAddress = ''10.0.0.1'', irRequest = None, irResponse = None, irResult = Some (emptyResult\<lparr>rrMatch := MatchBlock\<rparr>),
     irRequestContext = None, irConsumer = ''lan'', irClientName = [], irConnectionType = ''udp'', irRequestDomain = ''ads.com'',
     irRequestType = ''A'', irResponseText = [], irRcode = ''NXDOMAIN'', irBlocked = False, irMatch = MatchBlock, irMatchList = [],
     irMatchListShort = [], irMatchRule = [], irCached = False, irCreated = 0, irFinished = 0, irServiceMilliseconds = 3\<rparr>"

definition demoMetrics :: metrics where
  "demoMetrics = \<lparr>meMap = Map.empty, meInterval = None, meDuration = None, meLastInsert = 0, meCacheSizeFunc = False\<rparr>"

definition demoHistory :: "metricsEvent list" where
  "demoHistory = [Recorded demoInfo, Recorded demoInfo, Inserted False 4, Inserted True 5, Recorded demoInfo]"


end
