(* ===== verification/Engine_Build.thy ===== *)
theory Engine_Build
  imports Engine_Init Metrics_Facts
begin

text \<open>
  Facts about the engine that \<open>bootstrap\<close> builds (theory \<open>Engine_Init\<close>): which lists and groups a consumer ends up
  with, that lookups among them agree with the configuration, and the properties that reach from the
  configuration to the replies. \<open>policyGroups\<close> and \<open>policyLists\<close> say, on the configuration alone, which groups
  and lists count for a consumer; \<open>filesMatch\<close> (theory \<open>Stores\<close>) says what the files of those lists decide.
\<close>

section \<open>Groups and consumers\<close>

lemma groupMapOf_lookup:
  "map_of (groupMapOf gs) k = (if k = [] then None else find (\<lambda>g. gpName (grConfig g) = k) (rev gs))"
proof (induction gs rule: rev_induct)
  case (snoc g gs)
  have "groupMapOf (gs @ [g]) = (if gpName (grConfig g) \<noteq> [] then AList.update (gpName (grConfig g)) g (groupMapOf gs) else groupMapOf gs)"
    by (simp add: groupMapOf_def)
  then show ?case
    using snoc by (auto simp: update_conv')
qed (simp add: groupMapOf_def)

lemma find_unique:
  assumes "distinct (map f xs)" "x \<in> set xs"
  shows "find (\<lambda>y. f y = f x) xs = Some x"
  using assms by (induction xs) auto

lemma groupMapOf_unique:
  assumes "distinct (map (gpName \<circ> grConfig) gs)" "g \<in> set gs" "gpName (grConfig g) \<noteq> []"
  shows "map_of (groupMapOf gs) (gpName (grConfig g)) = Some g"
  using find_unique [of "gpName \<circ> grConfig" "rev gs" g] assms by (simp add: groupMapOf_lookup rev_map [symmetric] del: rev_map)

lemma linkGroups_names:
  "ecGroupNames (linkGroups gs c) = ecGroupNames c @ filter (\<lambda>n. n \<in> set (csGroups (ecConfig c))) (map (gpName \<circ> grConfig) gs)"
  "ecConfig (linkGroups gs c) = ecConfig c"
  by (induction gs arbitrary: c) auto

lemma newConsumer_names [simp]:
  "ecGroupNames (newConsumer gs k) = filter (\<lambda>n. n \<in> set (csGroups k)) (map (gpName \<circ> grConfig) gs)"
  "ecConfig (newConsumer gs k) = k"
  by (simp_all add: newConsumer_def linkGroups_names)

lemma addLists_set: "CanonicalName ` set (addLists current ls) = CanonicalName ` (set current \<union> set ls)"
proof (induction ls arbitrary: current)
  case (Cons l ls)
  then show ?case
    by (cases "\<exists>c \<in> set current. CanonicalName c = CanonicalName l") (auto simp: list_ex_iff, metis UnI1 imageI)
qed simp

lemma addLists_subset: "set (addLists current ls) \<subseteq> set current \<union> set ls"
  by (induction current ls rule: addLists.induct) auto

lemma addLists_distinct:
  "distinct (map CanonicalName current) \<Longrightarrow> distinct (map CanonicalName (addLists current ls))"
proof (induction ls arbitrary: current)
  case (Cons l ls)
  then show ?case
    by (cases "CanonicalName l \<in> CanonicalName ` set current") (force simp: list_ex_iff)+
qed simp

lemma addLists_append: "addLists current (ls @ ks) = addLists (addLists current ls) ks"
  by (induction current ls rule: addLists.induct) auto

lemma linkGroups_lists:
  "ecLists (linkGroups gs c) = addLists (ecLists c) (concat (map grLists (filter (\<lambda>g. gpName (grConfig g) \<in> set (csGroups (ecConfig c))) gs)))"
  by (induction gs arbitrary: c) (auto simp: addLists_append)

lemma newConsumer_lists:
  "ecLists (newConsumer gs k) = addLists [] (concat (map grLists (filter (\<lambda>g. gpName (grConfig g) \<in> set (csGroups k)) gs)))"
  by (simp add: newConsumer_def linkGroups_lists)

text \<open>Asking a list twice changes no decision.\<close>

lemma firstList_append: "firstList b t (xs @ ys) P = orElse (firstList b t xs P) (firstList b t ys P)"
  by (induction xs) (auto simp: firstList_Cons orElse_def split: option.splits)

lemma firstList_again: "l \<in> set xs \<Longrightarrow> firstList b t (xs @ l # ys) P = firstList b t (xs @ ys) P"
  by (induction xs) (auto simp: firstList_Cons firstList_append orElse_def split: option.splits)

lemma firstList_addLists:
  assumes "inj_on CanonicalName (set current \<union> set ls)"
  shows "firstList b t (addLists current ls) P = firstList b t (current @ ls) P"
  using assms
proof (induction ls arbitrary: current)
  case (Cons l ls)
  show ?case
  proof (cases "\<exists>c \<in> set current. CanonicalName c = CanonicalName l")
    case True
    then obtain c where c: "c \<in> set current" "CanonicalName c = CanonicalName l"
      by blast
    then have "c = l"
      using inj_onD [OF Cons.prems c(2)] by simp
    with c have "l \<in> set current"
      by simp
    then show ?thesis
      using Cons.IH [of current] Cons.prems True by (simp add: list_ex_iff firstList_again insert_absorb)
  next
    case False
    then show ?thesis
      using Cons.IH [of "current @ [l]"] Cons.prems by (auto simp: list_ex_iff)
  qed
qed simp

lemma filesMatch_cong:
  assumes "\<And>b t P. firstList b t req P = firstList b t req' P"
  shows "filesMatch R same fs path ls req domain = filesMatch R same fs path ls req' domain"
proof -
  have "specMatchBy b P req = specMatchBy b P req'" for b P
    by (simp only: specMatchBy_def assms)
  then show ?thesis
    by (simp only: filesMatch_def specMatch_def)
qed

lemma filesMatch_Nil [simp]: "filesMatch R same fs path ls [] domain = (MatchNone, None)"
  by (simp add: filesMatch_def specMatch_def specMatchBy_def)

section \<open>The engine of a configuration\<close>

lemma map_Some_somes: "None \<notin> set xs \<Longrightarrow> map Some (somes xs) = xs" "None \<notin> set xs \<Longrightarrow> map the xs = somes xs"
  by (induction xs) (auto simp: somes_def neq_commute [of None])

lemma bootstrap_ok:
  assumes "bootstrap H depth S E fetch dbError metrics conf fs = Ret (Inr (eg, fs', w0))"
  obtains parts rm store counts st
  where "None \<notin> set (cfGroups conf)" "None \<notin> set (cfConsumers conf)" "None \<notin> set (cfLists conf)"
    and "cfStorage conf = Some st"
    and "CreateStore E fs' (\<lambda>l. PathToList H conf (Some l)) (stRuleStorage st) (map Some (somes (cfLists conf))) = Ret (store, counts)"
    and "NewResolverMap depth S (cfSources conf) (cfResolvers conf) = Ret rm"
    and "eg = buildEngine conf parts rm store (if ptMetrics parts
           then Some (countRules (somes (cfLists conf)) counts (metrics\<lparr>meCacheSizeFunc := True\<rparr>)) else None)"
proof -
  from assms obtain po where po: "bootstrapParts conf dbError = Ret po"
    unfolding bootstrap_def bind_run_Ret by blast
  with assms obtain parts where parts: "bootstrapParts conf dbError = Ret (Inr parts)"
    unfolding bootstrap_def by (cases po) auto
  from assms obtain rm where rm: "NewResolverMap depth S (cfSources conf) (cfResolvers conf) = Ret rm"
    unfolding bootstrap_def parts by (cases "NewResolverMap depth S (cfSources conf) (cfResolvers conf)") auto
  have ok: "\<not> (None \<in> set (cfGroups conf) \<or> None \<in> set (cfConsumers conf) \<or> None \<in> set (cfLists conf))"
    using assms unfolding bootstrap_def parts rm by (auto simp del: de_Morgan_disj)
  note step = assms [unfolded bootstrap_def parts rm bind_run.simps sum.case if_not_P [OF ok]]
  from step obtain st where st: "cfStorage conf = Some st"
    by (auto split: sum.splits option.splits)
  from step ok obtain store counts
    where "CreateStore E fs' (\<lambda>l. PathToList H conf (Some l)) (stRuleStorage st) (cfLists conf) = Ret (store, counts)"
      "eg = buildEngine conf parts rm store (if ptMetrics parts
           then Some (countRules (somes (cfLists conf)) counts (metrics\<lparr>meCacheSizeFunc := True\<rparr>)) else None)"
    by (fastforce simp: st bind_run_Ret map_Some_somes simp del: if_split split: sum.splits)
  with ok show thesis
    by (intro that [OF _ _ _ st _ rm]) (auto simp: map_Some_somes)
qed

definition engineGroups :: "GudgeonConfig \<Rightarrow> engineGroup list" where
  "engineGroups conf = map (newGroup (somes (cfLists conf))) (somes (cfGroups conf))"

definition groupsOf :: "GudgeonConfig \<Rightarrow> GudgeonConsumer \<Rightarrow> GudgeonGroup list" where
  "groupsOf conf k = filter (\<lambda>g. gpName g \<in> set (csGroups k)) (somes (cfGroups conf))"

definition policyGroups :: "GudgeonConfig \<Rightarrow> GudgeonConsumer \<Rightarrow> GudgeonGroup list" where
  "policyGroups conf k = (if groupsOf conf k = [] then filter (\<lambda>g. gpName g = ''default'') (somes (cfGroups conf)) else groupsOf conf k)"

definition policyLists :: "GudgeonConfig \<Rightarrow> GudgeonGroup list \<Rightarrow> GudgeonList list" where
  "policyLists conf gs = concat (map (\<lambda>g. filter (\<lambda>l. lsName l \<in> set (gpLists g) \<or> set (SafeTags l) \<inter> set (GroupSafeTags g) \<noteq> {})
     (somes (cfLists conf))) gs)"

text \<open>Every group has a name of its own.\<close>

definition groupsNamed :: "GudgeonConfig \<Rightarrow> bool" where
  "groupsNamed conf \<longleftrightarrow> distinct (map gpName (somes (cfGroups conf))) \<and> [] \<notin> gpName ` set (somes (cfGroups conf))"

lemma assignedLists_filter:
  "assignedLists names tags ls = filter (\<lambda>l. lsName l \<in> set names \<or> set (SafeTags l) \<inter> set tags \<noteq> {}) ls"
  by (auto simp: assignedLists_def list_ex_iff intro!: filter_cong)

lemma buildEngine_simps:
  assumes "None \<notin> set (cfGroups conf)" "None \<notin> set (cfConsumers conf)" "None \<notin> set (cfLists conf)"
  shows "egGroups (buildEngine conf parts rm store m) = groupMapOf (engineGroups conf)"
    "egConsumers (buildEngine conf parts rm store m) = map (newConsumer (engineGroups conf)) (somes (cfConsumers conf))"
    "egDefaultConsumer (buildEngine conf parts rm store m) = defaultOf (egConsumers (buildEngine conf parts rm store m))"
    "egStore (buildEngine conf parts rm store m) = Some store" "egMetrics (buildEngine conf parts rm store m) = m"
    "egResolvers (buildEngine conf parts rm store m) = rm" "egSources (buildEngine conf parts rm store m) = newSourceState"
  using assms by (simp_all add: buildEngine_def Let_def engineGroups_def map_Some_somes map_map [symmetric] del: map_map)

lemma bootstrap_engine:
  assumes "bootstrap H depth S E fetch dbError metrics conf fs = Ret (Inr (eg, fs', w0))"
  shows "egGroups eg = groupMapOf (engineGroups conf)"
    "egConsumers eg = map (newConsumer (engineGroups conf)) (somes (cfConsumers conf))"
    "egDefaultConsumer eg = defaultOf (egConsumers eg)"
  using bootstrap_ok [OF assms] buildEngine_simps [of conf] by metis+

lemma defaultOf_in: "defaultOf cs = Some c \<Longrightarrow> c \<in> set cs"
  unfolding defaultOf_def
  by (induction cs rule: rev_induct) (auto split: if_splits)

lemma findConsumer_in: "findConsumer cs a = Some c \<Longrightarrow> c \<in> set cs"
  by (induction cs) (auto split: if_splits)

lemma groupLists_policy:
  assumes "groupsNamed conf" "set gs \<subseteq> set (somes (cfGroups conf))" "egGroups eg = groupMapOf (engineGroups conf)"
  shows "groupLists eg (map gpName gs) = policyLists conf gs"
proof -
  have names: "map (gpName \<circ> grConfig) (engineGroups conf) = map gpName (somes (cfGroups conf))"
    by (simp add: engineGroups_def newGroup_def comp_def)
  have "map_of (egGroups eg) (gpName g) = Some (newGroup (somes (cfLists conf)) g)" if "g \<in> set gs" for g
  proof -
    have g: "g \<in> set (somes (cfGroups conf))"
      using assms(2) that by blast
    have "map_of (groupMapOf (engineGroups conf)) (gpName (grConfig (newGroup (somes (cfLists conf)) g))) = Some (newGroup (somes (cfLists conf)) g)"
    proof (rule groupMapOf_unique)
      show "distinct (map (gpName \<circ> grConfig) (engineGroups conf))"
        using assms(1) by (simp only: names groupsNamed_def)
      show "newGroup (somes (cfLists conf)) g \<in> set (engineGroups conf)"
        using g by (simp only: engineGroups_def set_map imageI)
      show "gpName (grConfig (newGroup (somes (cfLists conf)) g)) \<noteq> []"
        using assms(1) g by (force simp: groupsNamed_def newGroup_def)
    qed
    then show ?thesis
      by (simp add: assms(3) newGroup_def)
  qed
  then show ?thesis
    by (auto simp: groupLists_def policyLists_def newGroup_def assignedLists_filter intro!: arg_cong [where f = concat])
qed

lemma getGroups_newConsumer:
  "getGroups (Some (newConsumer (engineGroups conf) k)) = (if groupsOf conf k = [] then [''default''] else map gpName (groupsOf conf k))"
proof -
  have "filter (\<lambda>n. n \<in> set (csGroups k)) (map (gpName \<circ> grConfig) (engineGroups conf)) = map gpName (groupsOf conf k)"
    by (simp add: engineGroups_def groupsOf_def newGroup_def filter_map comp_def)
  then show ?thesis
    by (simp add: getGroups_def)
qed

lemma filter_unique:
  assumes "distinct (map f xs)" "x \<in> set xs"
  shows "filter (\<lambda>y. f y = f x) xs = [x]"
  using assms
proof (induction xs)
  case (Cons y xs)
  then show ?case
    by (cases "x = y") (auto simp: filter_empty_conv image_iff)
qed simp

lemma groupLists_consumer:
  assumes "groupsNamed conf" "egGroups eg = groupMapOf (engineGroups conf)"
  shows "groupLists eg (getGroups (Some (newConsumer (engineGroups conf) k))) = policyLists conf (policyGroups conf k)"
proof (cases "groupsOf conf k = []")
  case False
  have "set (groupsOf conf k) \<subseteq> set (somes (cfGroups conf))"
    by (auto simp: groupsOf_def)
  with False show ?thesis
    using groupLists_policy [OF assms(1) _ assms(2)] by (simp add: getGroups_newConsumer policyGroups_def)
next
  case True
  let ?d = "filter (\<lambda>g. gpName g = ''default'') (somes (cfGroups conf))"
  have "groupLists eg [''default''] = policyLists conf ?d"
  proof (cases ?d)
    case Nil
    then have "map_of (egGroups eg) ''default'' = None"
      by (auto simp: assms(2) groupMapOf_lookup find_None_iff engineGroups_def newGroup_def filter_empty_conv)
    then show ?thesis
      by (simp add: Nil groupLists_def policyLists_def)
  next
    case (Cons g gs)
    have "g \<in> set ?d"
      by (simp only: Cons list.set_intros)
    then have g: "g \<in> set (somes (cfGroups conf))" "gpName g = ''default''"
      by simp_all
    then have "?d = [g]"
      using filter_unique [of gpName "somes (cfGroups conf)" g] assms(1) by (simp add: groupsNamed_def)
    then show ?thesis
      using groupLists_policy [OF assms(1) _ assms(2), of "[g]"] g by simp
  qed
  with True show ?thesis
    by (simp add: getGroups_newConsumer policyGroups_def)
qed

lemma consumer_of_configuration:
  assumes "egConsumers eg = map (newConsumer (engineGroups conf)) (somes (cfConsumers conf))"
    and "egDefaultConsumer eg = defaultOf (egConsumers eg)" "getConsumerForIP eg a = Some c"
  obtains k where "Some k \<in> set (cfConsumers conf)" "c = newConsumer (engineGroups conf) k"
proof -
  have "c \<in> set (egConsumers eg)"
    using assms(2,3) by (auto simp: getConsumerForIP_def dest: findConsumer_in defaultOf_in [OF sym] defaultOf_in split: option.splits)
  with assms(1) that show thesis
    by auto
qed

abbreviation withoutDot :: "string \<Rightarrow> string" where
  "withoutDot d \<equiv> if HasSuffix d ''.'' then butlast d else d"

text \<open>With the memory store, lists are asked as their files call for.\<close>

lemma memory_engine_lists:
  assumes "compareFold_ok (slRule E)" "bootstrap H depth S E fetch dbError metrics conf fs = Ret (Inr (eg, fs', w0))"
    and "cfStorage conf = Some st" "ToLower (stRuleStorage st) \<in> {[], ''mem'', ''memory''}"
    and "\<forall>l. Some l \<in> set (cfLists conf) \<longrightarrow> (\<forall>r \<in> set (fileRules fs' (\<lambda>l. PathToList H conf (Some l)) l). safeRule l r)"
  shows "decision (domainRuleMatchForLists E eg req d) =
    filesMatch (slRule E) EqualFold fs' (\<lambda>l. PathToList H conf (Some l)) (somes (cfLists conf)) req (withoutDot d)"
proof -
  obtain parts rm store counts m where none: "None \<notin> set (cfGroups conf)" "None \<notin> set (cfConsumers conf)" "None \<notin> set (cfLists conf)"
    and c: "CreateStore E fs' (\<lambda>l. PathToList H conf (Some l)) (stRuleStorage st) (map Some (somes (cfLists conf))) = Ret (store, counts)"
    and eg: "eg = buildEngine conf parts rm store m"
    using bootstrap_ok [OF assms(2)] assms(3) by (metis option.inject)
  have "\<exists>st'. CreateStore E fs' (\<lambda>l. PathToList H conf (Some l)) (stRuleStorage st) (map Some (somes (cfLists conf))) =
      Ret (st', map (\<lambda>l. length (fileRules fs' (\<lambda>l. PathToList H conf (Some l)) l)) (somes (cfLists conf))) \<and>
    (\<forall>req domain. decision (FindMatch E st' req domain) = filesMatch (slRule E) EqualFold fs' (\<lambda>l. PathToList H conf (Some l)) (somes (cfLists conf)) req domain)"
    by (rule memStack.create_exact) (use assms(1,4,5) in \<open>auto simp: backingStore_def newMemory_def Let_def\<close>)
  with c have "decision (FindMatch E store req domain) =
      filesMatch (slRule E) EqualFold fs' (\<lambda>l. PathToList H conf (Some l)) (somes (cfLists conf)) req domain" for domain
    by auto
  moreover have "decision noMatch = (MatchNone, None)"
    by (simp add: decision_def)
  ultimately show ?thesis
    by (cases req) (auto simp: domainRuleMatchForLists_def eg buildEngine_simps [OF none] Let_def)
qed

lemma Handle_blocked:
  assumes "SetReply_ok (srcDns S)" "validRequest request" "getConsumerForIP eg address = Some c" "\<not> csBlock (ecConfig c)"
    and "domainRuleMatchedForGroups E eg (getGroups (Some c)) (Qname (hd (msgQuestion request))) = (MatchBlock, l, t)"
  shows "\<exists>p rc result call w' m. Handle n S E B eg address protocol request w = Ret (((p, rc, result), call), w') \<and>
    deref (wHeap w') (Some p) = Some m \<and> msgRcode m = RcodeNameError \<and> msgAnswer m = [] \<and> msgId m = msgId request \<and>
    rrMatch result = MatchBlock \<and> rrMatchList result = l"
proof -
  let ?rCon = "\<lparr>rqStarted = clock S (wTick w), rqProtocol = protocol, rqGroups = []\<rparr>"
  obtain rc where "groupsWith S E eg (HandleWithResolvers n S E B eg) (getGroups (Some c)) (Some ?rCon) request (tickW w) =
      Ret ((length (wHeap (tickW w)), Some rc, emptyResult\<lparr>rrMatch := MatchBlock, rrMatchList := l, rrMatchRule := t\<rparr>),
         (tickW w)\<lparr>wHeap := wHeap (tickW w) @ [errorReply (srcDns S) request RcodeNameError]\<rparr>)"
    using groupsWith_blocked [OF assms(2,5)] by blast
  with assms(3,4) show ?thesis
    by (simp add: Handle_def HandleWithConsumer_def HandleWithGroups_def Let_def deref_def tickW_def errorReply_simps [OF assms(1)])
qed

lemma Handle_passed:
  assumes "validRequest request" "getConsumerForIP eg address = Some c" "\<not> csBlock (ecConfig c)"
    and "fst (domainRuleMatchedForGroups E eg (getGroups (Some c)) (Qname (hd (msgQuestion request)))) \<noteq> MatchBlock"
    and "Handle n S E B eg address protocol request w = Ret (((p, rc, result), call), w')"
  shows "rrMatch result = MatchNone"
proof -
  obtain rCon res rc2 w2 where g: "groupsWith S E eg (HandleWithResolvers n S E B eg) (getGroups (Some c)) rCon request (tickW w) = Ret ((p, rc2, res), w2)"
    and out: "result = res\<lparr>rrConsumer := csName (ecConfig c)\<rparr>"
    using assms(2,3,5) by (auto simp: Handle_def HandleWithConsumer_def HandleWithGroups_def bind_run_Ret Let_def split: if_splits)
  from g assms(1,4) obtain k rc0 where "n = Suc k"
    and run: "resolversWith S B eg (groupsWith S E eg (HandleWithResolvers k S E B eg)) (HandleWithResolvers k S E B eg)
      (groupResolvers eg (getGroups (Some c))) (Some rc0) request (tickW w) = Ret ((p, rc2, res), w2)"
    by (cases n) (auto simp: groupsWith_def Let_def)
  then show ?thesis
    using resolversWith_reply(3) [OF replies_groupsWith [OF replies_HandleWithResolvers] replies_HandleWithResolvers assms(1) run] out by simp
qed

lemma getGroups_nonempty [simp]: "getGroups c \<noteq> []"
  by (auto simp: getGroups_def split: option.splits)

section \<open>Properties\<close>

text \<open>
  C1. The whole way from the configuration to the reply. On an engine built from a configuration over
  the memory store, take the lists that the files of the configuration assign, by name or by tag, to
  the groups of the consumer a request belongs to (or to the default group when it has none). If the
  rules in those lists' files block the requested domain, the request is answered, without any
  resolution, by an empty NXDOMAIN reply and the result names the list; otherwise the request is never
  reported as blocked.
\<close>

theorem configured_blocking:
  assumes "compareFold_ok (slRule E)" "SetReply_ok (srcDns S)"
    and "bootstrap H depth S E fetch dbError metrics conf fs = Ret (Inr (eg, fs', w0))"
    and "groupsNamed conf" "cfStorage conf = Some st" "ToLower (stRuleStorage st) \<in> {[], ''mem'', ''memory''}"
    and "\<forall>l. Some l \<in> set (cfLists conf) \<longrightarrow> (\<forall>r \<in> set (fileRules fs' (\<lambda>l. PathToList H conf (Some l)) l). safeRule l r)"
    and "getConsumerForIP eg address = Some c" "\<not> csBlock (ecConfig c)" "validRequest request"
    and verdict: "verdict = filesMatch (slRule E) EqualFold fs' (\<lambda>l. PathToList H conf (Some l)) (somes (cfLists conf))
      (policyLists conf (policyGroups conf (ecConfig c))) (withoutDot (Qname (hd (msgQuestion request))))"
  shows "if fst verdict = MatchBlock
    then \<exists>p rc result call w' m. Handle 0 S E B eg address protocol request w = Ret (((p, rc, result), call), w') \<and>
      deref (wHeap w') (Some p) = Some m \<and> msgRcode m = RcodeNameError \<and> msgAnswer m = [] \<and> msgId m = msgId request \<and>
      rrMatch result = MatchBlock \<and> rrMatchList result = snd verdict
    else \<forall>n p rc result call w'. Handle n S E B eg address protocol request w = Ret (((p, rc, result), call), w') \<longrightarrow>
      rrMatch result = MatchNone"
proof -
  note engine = bootstrap_engine [OF assms(3)]
  obtain k where c: "c = newConsumer (engineGroups conf) k"
    using consumer_of_configuration [OF engine(2,3) assms(8)] by blast
  let ?matched = "domainRuleMatchedForGroups E eg (getGroups (Some c)) (Qname (hd (msgQuestion request)))"
  have decided: "decision ?matched = verdict"
    using memory_engine_lists [OF assms(1,3,5,6,7)] groupLists_consumer [OF assms(4) engine(1)]
    by (simp add: domainRuleMatchedForGroups_def c verdict)
  show ?thesis
  proof (cases "fst verdict = MatchBlock")
    case True
    with decided obtain l t where "?matched = (MatchBlock, l, t)" "snd verdict = l"
      by (cases ?matched) (auto simp: decision_def)
    then show ?thesis
      using Handle_blocked [OF assms(2,10,8,9)] True by auto
  next
    case False
    then have "fst ?matched \<noteq> MatchBlock"
      using decided by (auto simp: decision_def)
    with False show ?thesis
      using Handle_passed [OF assms(10,8,9)] by auto
  qed
qed

definition demoPolicy :: GudgeonConfig where
  "demoPolicy = fst (verifyAndInit demoHost (emptyConfig\<lparr>cfLists := [Some demoBlock, Some demoAllow],
     cfGroups := [Some \<lparr>gpName = ''Kids'', gpInherit = [], gpResolvers = [], gpLists = [''ads''], gpTags = Some []\<rparr>],
     cfConsumers := [Some \<lparr>csName = ''lan'', csBlock = False, csGroups = [''kids''], csMatches = [\<lparr>mcIP = [], mcRange = None, mcNet = ''10.0.0.0/8''\<rparr>]\<rparr>]\<rparr>))"

definition demoBoot :: "(string list engine \<times> fileSystem \<times> (string \<times> envelope \<times> int) list world) result run" where
  "demoBoot = bootstrap demoHost 5 demoSrc demoEnv (\<lambda>u. Inl ''offline'') None demoMetrics demoPolicy demoFiles"

lemma demoPolicy_ok:
  "groupsNamed demoPolicy" "map_option stRuleStorage (cfStorage demoPolicy) = Some ''memory''" "ToLower ''memory'' = ''memory''"
  "validRequest (demoQuery ''X.ads.com.'')" "msgQuestion (demoQuery ''X.ads.com.'') = [\<lparr>Qname = ''X.ads.com.'', Qtype = TypeA, Qclass = ClassINET\<rparr>]"
  by code_simp+

lemma demoPolicy_engine:
  obtains eg fs' w0 c
  where "demoBoot = Ret (Inr (eg, fs', w0))"
    and "getConsumerForIP eg [10, 0, 0, 1] = Some c" "csName (ecConfig c) = ''lan''" "\<not> csBlock (ecConfig c)"
    and "\<forall>l \<in> set (somes (cfLists demoPolicy)). \<forall>r \<in> set (fileRules fs' (\<lambda>l. PathToList demoHost demoPolicy (Some l)) l). safeRule l r"
    and "fst (filesMatch demoLib EqualFold fs' (\<lambda>l. PathToList demoHost demoPolicy (Some l)) (somes (cfLists demoPolicy))
      (policyLists demoPolicy (policyGroups demoPolicy (ecConfig c))) ''X.ads.com'') = MatchBlock"
proof -
  have "(case demoBoot of
      Ret (Inr (eg, fs', w)) \<Rightarrow>
        (case getConsumerForIP eg [10, 0, 0, 1] of Some c \<Rightarrow> csName (ecConfig c) = ''lan'' \<and> \<not> csBlock (ecConfig c) \<and>
           (\<forall>l \<in> set (somes (cfLists demoPolicy)). \<forall>r \<in> set (fileRules fs' (\<lambda>l. PathToList demoHost demoPolicy (Some l)) l). safeRule l r) \<and>
           fst (filesMatch demoLib EqualFold fs' (\<lambda>l. PathToList demoHost demoPolicy (Some l)) (somes (cfLists demoPolicy))
             (policyLists demoPolicy (policyGroups demoPolicy (ecConfig c))) ''X.ads.com'') = MatchBlock
         | None \<Rightarrow> False)
    | _ \<Rightarrow> False)"
    by code_simp
  with that show thesis
    by (auto split: run.splits sum.splits option.splits)
qed

theorem configured_blocking_witness:
  "\<exists>eg fs' w0 p rc result call w' m.
     demoBoot = Ret (Inr (eg, fs', w0)) \<and>
     Handle 0 demoSrc demoEnv demoBacker eg [10, 0, 0, 1] ''udp'' (demoQuery ''X.ads.com.'') w0 = Ret (((p, rc, result), call), w') \<and>
     deref (wHeap w') (Some p) = Some m \<and> msgRcode m = RcodeNameError"
proof -
  obtain eg fs' w0 c
    where b: "demoBoot = Ret (Inr (eg, fs', w0))"
      and c: "getConsumerForIP eg [10, 0, 0, 1] = Some c" "\<not> csBlock (ecConfig c)"
      and rules: "\<forall>l \<in> set (somes (cfLists demoPolicy)). \<forall>r \<in> set (fileRules fs' (\<lambda>l. PathToList demoHost demoPolicy (Some l)) l). safeRule l r"
        "fst (filesMatch demoLib EqualFold fs' (\<lambda>l. PathToList demoHost demoPolicy (Some l)) (somes (cfLists demoPolicy))
          (policyLists demoPolicy (policyGroups demoPolicy (ecConfig c))) ''X.ads.com'') = MatchBlock"
    by (rule demoPolicy_engine)
  obtain st where st: "cfStorage demoPolicy = Some st" "stRuleStorage st = ''memory''"
    using demoPolicy_ok(2) by auto
  have "HasSuffix ''X.ads.com.'' ''.''" "butlast ''X.ads.com.'' = ''X.ads.com''"
    by code_simp+
  then show ?thesis
    using configured_blocking [OF _ _ b [unfolded demoBoot_def] demoPolicy_ok(1) st(1) _ _ c demoPolicy_ok(4) refl, of demoBacker "''udp''" w0]
      demoPolicy_ok(3,5) demoDns_ok demoLib_compareFold rules b st(2)
    by (simp add: demoSrc_def) blast
qed

section \<open>Rule counts\<close>

lemma wrap64_diff: "wrap64 (wrap64 a - wrap64 b + c) = wrap64 (a - b + c)"
  unfolding wrap64_eq_iff using wrap64_mod [of a] wrap64_mod [of b] by (metis mod_add_cong mod_diff_cong)

lemma listMetric_total [simp]: "''rules-list-'' @ s \<noteq> TotalRules" "TotalRules \<noteq> ''rules-list-'' @ s" "listMetric l \<noteq> TotalRules" "TotalRules \<noteq> listMetric l"
  by (simp_all add: listMetric_def)

lemma listMetric_eq [simp]: "listMetric k = listMetric l \<longleftrightarrow> ShortName k = ShortName l"
  by (simp add: listMetric_def)

lemma metricValue_countLists:
  "distinct (map (ShortName \<circ> fst) ps) \<Longrightarrow> metricValue TotalRules (countLists ps m) = metricValue TotalRules m \<and>
   (\<forall>l. metricValue (listMetric l) (countLists ps m) = (case find (\<lambda>p. ShortName (fst p) = ShortName l) ps of None \<Rightarrow> metricValue (listMetric l) m | Some p \<Rightarrow> wrap64 (int (snd p))))"
proof (induction ps m rule: countLists.induct)
  case (2 l k rest m)
  have "find (\<lambda>p. ShortName (fst p) = ShortName l) rest = None"
    using 2(2) by (auto simp: find_None_iff image_iff)
  with 2 show ?case
    by (auto simp: eq_commute [of "ShortName l"] split: option.splits)
qed simp

definition changeCount :: "listChange \<Rightarrow> int" where
  "changeCount msg = (case lcCount msg of None \<Rightarrow> 0 | Some c \<Rightarrow> c)"

text \<open>The number of rules a list was last reported to have.\<close>

definition lastCount :: "listChange list \<Rightarrow> GudgeonList \<times> nat \<Rightarrow> int" where
  "lastCount changes p = foldl (\<lambda>c msg. if lcShortName msg = Some (ShortName (fst p)) then changeCount msg else c) (int (snd p)) changes"

lemma lastCount_snoc [simp]:
  "lastCount (changes @ [msg]) p = (if lcShortName msg = Some (ShortName (fst p)) then changeCount msg else lastCount changes p)"
  "lastCount [] p = int (snd p)"
  by (simp_all add: lastCount_def)

definition countsKept :: "(GudgeonList \<times> nat) list \<Rightarrow> listChange list \<Rightarrow> metrics \<Rightarrow> bool" where
  "countsKept ps changes m \<longleftrightarrow>
     (\<forall>p \<in> set ps. metricValue (listMetric (fst p)) m = wrap64 (lastCount changes p)) \<and>
     metricValue TotalRules m = wrap64 (sum_list (map (lastCount changes) ps))"

lemma countRules_kept:
  assumes "distinct (map ShortName ls)" "length counts = length ls" "metricValue TotalRules m = 0"
  shows "countsKept (zip ls counts) [] (countRules ls counts m)"
proof -
  have d: "distinct (map (ShortName \<circ> fst) (zip ls counts))"
    using assms(1,2) by (simp add: map_map [symmetric] del: map_map)
  have "find (\<lambda>q. ShortName (fst q) = ShortName (fst p)) (zip ls counts) = Some p" if "p \<in> set (zip ls counts)" for p
    using find_unique [OF d that] by simp
  moreover have "sum_list (map (lastCount []) (zip ls counts)) = int (sum_list counts)"
    using assms(2) by (induction ls counts rule: list_induct2') auto
  ultimately show ?thesis
    using metricValue_countLists [OF d, of m] assms(3) by (auto simp: countsKept_def countRules_def)
qed

lemma metricGet_fst [simp]: "fst (metricGet a m) = metricValue a m"
  by (simp add: metricValue_def)

lemma listChanged_value:
  assumes "short \<noteq> []" "lcShortName msg = Some short" "listChanged msg (Some m) = Some m'"
  shows "metricValue TotalRules m' = wrap64 (metricValue TotalRules m - metricValue (''rules-list-'' @ short) m + changeCount msg)"
    and "metricValue (''rules-list-'' @ short) m' = wrap64 (changeCount msg)"
    and "a \<noteq> TotalRules \<Longrightarrow> a \<noteq> ''rules-list-'' @ short \<Longrightarrow> metricValue a m' = metricValue a m"
  using assms
  by (auto simp: listChanged_def changeCount_def case_prod_beta Let_def algebra_simps)

lemma sum_list_replace:
  assumes "distinct (map k ps)" "p \<in> set ps"
  shows "sum_list (map (\<lambda>q. if k q = k p then v else f q) ps) = sum_list (map f ps) - f p + (v :: int)"
  using assms
proof (induction ps)
  case (Cons q ps)
  show ?case
  proof (cases "p = q")
    case True
    have "sum_list (map (\<lambda>q. if k q = k p then v else f q) ps) = sum_list (map f ps)"
      by (rule arg_cong [where f = sum_list]) (use Cons.prems True in \<open>auto simp: image_iff\<close>)
    with True show ?thesis
      by simp
  next
    case False
    with Cons show ?thesis
      by (auto simp: image_iff)
  qed
qed simp

lemma listChanged_kept:
  assumes "countsKept ps changes m" "distinct (map (ShortName \<circ> fst) ps)" "p \<in> set ps" "ShortName (fst p) \<noteq> []"
    and "lcShortName msg = Some (ShortName (fst p))" "listChanged msg (Some m) = Some m'"
  shows "countsKept ps (changes @ [msg]) m'"
proof -
  note v = listChanged_value [OF assms(4-6)]
  have "sum_list (map (lastCount (changes @ [msg])) ps) = sum_list (map (lastCount changes) ps) - lastCount changes p + changeCount msg"
  proof -
    have "lastCount (changes @ [msg]) = (\<lambda>q. if (ShortName \<circ> fst) q = (ShortName \<circ> fst) p then changeCount msg else lastCount changes q)"
      by (auto simp: assms(5) fun_eq_iff)
    then show ?thesis
      using sum_list_replace [OF assms(2,3), of "changeCount msg" "lastCount changes"] by simp
  qed
  moreover have "metricValue (''rules-list-'' @ ShortName (fst p)) m = wrap64 (lastCount changes p)"
    using assms(1,3) by (simp add: countsKept_def listMetric_def)
  ultimately have "metricValue TotalRules m' = wrap64 (sum_list (map (lastCount (changes @ [msg])) ps))"
    using v(1) assms(1) by (simp add: countsKept_def wrap64_diff)
  moreover have "metricValue (listMetric (fst q)) m' = wrap64 (lastCount (changes @ [msg]) q)" if "q \<in> set ps" for q
    using v(2,3) assms(1,5) that by (cases "ShortName (fst q) = ShortName (fst p)") (auto simp: countsKept_def listMetric_def)
  ultimately show ?thesis
    by (simp add: countsKept_def)
qed

lemma listChanged_returns: "\<exists>m'. listChanged msg (Some m) = Some m'"
  by (simp add: listChanged_def Let_def)

lemma listChanged_ignored:
  assumes "lcShortName msg = None" "countsKept ps changes m" "listChanged msg (Some m) = Some m'"
  shows "countsKept ps (changes @ [msg]) m'"
proof -
  have "lastCount (changes @ [msg]) = lastCount changes"
    by (simp add: fun_eq_iff assms(1))
  then show ?thesis
    using assms by (auto simp: listChanged_def countsKept_def)
qed

text \<open>
  The rule counters stay true: after an engine has counted the rules of its lists and any number
  of lists were reloaded since, the counter of each list is the number of rules it was last reported
  to have and the counter of all active rules is their sum (modulo the width of the counters), when
  the lists have different short names. Messages that name no list change nothing.
\<close>

theorem rule_counts_add_up:
  assumes "distinct (map ShortName ls)" "[] \<notin> ShortName ` set ls" "length counts = length ls" "metricValue TotalRules m0 = 0"
    and "\<forall>msg \<in> set changes. lcShortName msg \<in> insert None (Some ` ShortName ` set ls)"
  shows "\<exists>m. foldl (\<lambda>m msg. listChanged msg m) (Some (countRules ls counts m0)) changes = Some m \<and>
    (\<forall>p \<in> set (zip ls counts). metricValue (listMetric (fst p)) m = wrap64 (lastCount changes p)) \<and>
    metricValue TotalRules m = wrap64 (sum_list (map (lastCount changes) (zip ls counts)))"
proof -
  have d: "distinct (map (ShortName \<circ> fst) (zip ls counts))"
    using assms(1,3) by (simp add: map_map [symmetric] del: map_map)
  have "\<exists>m. foldl (\<lambda>m msg. listChanged msg m) (Some (countRules ls counts m0)) changes = Some m \<and> countsKept (zip ls counts) changes m"
    using assms(5)
  proof (induction changes rule: rev_induct)
    case Nil
    then show ?case
      using countRules_kept [OF assms(1,3,4)] by simp
  next
    case (snoc msg changes)
    then obtain m m' where m: "foldl (\<lambda>m msg. listChanged msg m) (Some (countRules ls counts m0)) changes = Some m"
        "countsKept (zip ls counts) changes m" and m': "listChanged msg (Some m) = Some m'"
      using listChanged_returns by fastforce
    show ?case
    proof (cases "lcShortName msg")
      case None
      then show ?thesis
        using listChanged_ignored [OF None m(2) m'] m(1) m' by simp
    next
      case (Some short)
      with snoc.prems obtain l where "l \<in> set ls" "short = ShortName l"
        by auto
      then obtain p where "p \<in> set (zip ls counts)" "short = ShortName (fst p)"
        using assms(3) by (metis fst_conv in_set_impl_in_set_zip1)
      then show ?thesis
        using listChanged_kept [OF m(2) d _ _ _ m'] Some m(1) m' assms(2) \<open>l \<in> set ls\<close> \<open>short = ShortName l\<close> by fastforce
    qed
  qed
  then show ?thesis
    by (auto simp: countsKept_def)
qed

theorem rule_counts_add_up_witness:
  "\<exists>m. foldl (\<lambda>m msg. listChanged msg m) (Some (countRules [demoBlock, demoAllow] [2, 1] demoMetrics))
      [\<lparr>lcName = None, lcShortName = Some ''ads'', lcCount = Some 5\<rparr>] = Some m \<and> metricValue TotalRules m = 6"
proof -
  let ?c = "[\<lparr>lcName = None, lcShortName = Some ''ads'', lcCount = Some 5\<rparr>]"
  have "wrap64 (sum_list (map (lastCount ?c) (zip [demoBlock, demoAllow] [2, 1]))) = 6" "metricValue TotalRules demoMetrics = 0"
    by code_simp+
  then show ?thesis
    using rule_counts_add_up [of "[demoBlock, demoAllow]" "[2, 1]" demoMetrics ?c] by auto
qed

section \<open>Consumers of a loaded configuration\<close>

lemma defaultOf_None: "defaultOf cs = None \<longleftrightarrow> (\<forall>c \<in> set cs. \<not> EqualFold (csName (ecConfig c)) ''default'')"
  unfolding defaultOf_def by (induction cs rule: rev_induct) auto

lemma policyLists_in: "set (policyLists conf gs) \<subseteq> set (somes (cfLists conf))"
  by (auto simp: policyLists_def)


lemma demoPolicy_names: "distinct (map CanonicalName (somes (cfLists demoPolicy)))"
  by code_simp


text \<open>
  No client is without a consumer: an engine built from a loaded configuration has one for every
  address, so handling a request never runs into a nil consumer.
\<close>

theorem every_client_has_consumer:
  assumes "Load H readFile unmarshal filename = Inr (conf, warnings)"
    and "bootstrap H depth S E fetch dbError metrics conf fs = Ret (Inr (eg, fs', w0))"
  shows "\<exists>c k. getConsumerForIP eg address = Some c \<and> Some k \<in> set (cfConsumers conf) \<and> ecConfig c = k"
proof -
  note engine = bootstrap_engine [OF assms(2)]
  obtain y where conf: "conf = fst (verifyAndInit H y)"
    using assms(1) by (rule Load_verified)
  have "firstNamed csName (cfConsumers conf) ''default'' \<noteq> None"
    unfolding conf verifyAndInit_consumers(1) by (rule firstNamed_default) (simp add: defaultConsumer_def)
  then obtain k where "Some k \<in> set (cfConsumers conf)" "csName k = ''default''"
    by (auto simp: firstNamed_def find_Some_iff dest!: nth_mem)
  then have "egDefaultConsumer eg \<noteq> None"
    unfolding engine(3) defaultOf_None engine(2) by (auto simp: EqualFold_def intro!: bexI [of _ k])
  then obtain c where c: "getConsumerForIP eg address = Some c"
    by (cases "findConsumer (egConsumers eg) address") (auto simp: getConsumerForIP_def)
  with consumer_of_configuration [OF engine(2,3) c] show ?thesis
    by (metis newConsumer_names(2))
qed

definition demoCapitals :: GudgeonConfig where
  "demoCapitals = emptyConfig\<lparr>cfGroups := [Some \<lparr>gpName = ''Kids'', gpInherit = [], gpResolvers = [], gpLists = [], gpTags = None\<rparr>],
     cfConsumers := [Some \<lparr>csName = ''Lan'', csBlock = False, csGroups = [''Kids''], csMatches = [\<lparr>mcIP = ''10.0.0.1'', mcRange = None, mcNet = []\<rparr>]\<rparr>]\<rparr>"

abbreviation demoLoad :: "(GudgeonConfig \<times> string list) result" where
  "demoLoad \<equiv> Load demoHost (\<lambda>f. Inr []) (\<lambda>s. Inr (Some demoCapitals)) ''g.yml''"

definition demoBoot2 :: "GudgeonConfig \<Rightarrow> (string list engine \<times> fileSystem \<times> (string \<times> envelope \<times> int) list world) result run" where
  "demoBoot2 conf = bootstrap demoHost 5 demoSrc demoEnv (\<lambda>u. Inl ''offline'') None demoMetrics conf Map.empty"

lemma demoCapitals_engine:
  obtains conf ws eg fs' w0 c
  where "demoLoad = Inr (conf, ws)" "demoBoot2 conf = Ret (Inr (eg, fs', w0))" "getConsumerForIP eg [10, 0, 0, 1] = Some c"
    and "csGroups (ecConfig c) = [''Kids'']"
proof -
  have "(case demoLoad of Inr (conf, ws) \<Rightarrow>
      (case demoBoot2 conf of Ret (Inr (eg, fs', w0)) \<Rightarrow>
        (case getConsumerForIP eg [10, 0, 0, 1] of Some c \<Rightarrow> csGroups (ecConfig c) = [''Kids''] | None \<Rightarrow> False)
       | _ \<Rightarrow> False) | _ \<Rightarrow> False)"
    by code_simp
  moreover obtain conf ws where l: "demoLoad = Inr (conf, ws)"
    by (auto simp: Load_def verifyAndInit_def case_prod_beta Let_def)
  ultimately show thesis
    using that [OF l] by (auto split: run.splits sum.splits option.splits)
qed

theorem every_client_has_consumer_witness:
  "\<exists>conf ws eg fs' w0 c. demoLoad = Inr (conf, ws) \<and> demoBoot2 conf = Ret (Inr (eg, fs', w0)) \<and> getConsumerForIP eg [192, 168, 0, 1] = Some c"
  using every_client_has_consumer [of demoHost _ _ _ _ _ 5 demoSrc demoEnv _ None demoMetrics Map.empty _ _ _ "[192, 168, 0, 1]"] demoCapitals_engine
  unfolding demoBoot2_def by metis

text \<open>
  References to groups are case sensitive although the names they refer to are turned into lower
  case: a consumer that names its groups with capital letters, as they are written in the
  configuration file, is in none of them and is handled with the default group.
\<close>

theorem capital_group_reference_lost:
  assumes "Load H readFile unmarshal filename = Inr (conf, warnings)"
    and "bootstrap H depth S E fetch dbError metrics conf fs = Ret (Inr (eg, fs', w0))"
    and "getConsumerForIP eg address = Some c" "\<forall>n \<in> set (csGroups (ecConfig c)). ToLower n \<noteq> n"
  shows "getConsumerGroups eg address = [''default'']"
proof -
  note engine = bootstrap_engine [OF assms(2)]
  obtain k where c: "c = newConsumer (engineGroups conf) k"
    using consumer_of_configuration [OF engine(2,3) assms(3)] by blast
  obtain y where conf: "conf = fst (verifyAndInit H y)"
    using assms(1) by (rule Load_verified)
  have "ToLower (gpName g) = gpName g" if "Some g \<in> set (cfGroups conf)" for g
    using that unfolding conf verifyAndInit_groups(1) by (rule lower_names)
  then have "groupsOf conf k = []"
    using assms(4) by (fastforce simp: groupsOf_def filter_empty_conv c)
  then show ?thesis
    by (simp add: getConsumerGroups_def assms(3)) (simp add: c getGroups_newConsumer)
qed

theorem capital_group_reference_lost_witness:
  "\<exists>conf ws eg fs' w0. demoLoad = Inr (conf, ws) \<and> demoBoot2 conf = Ret (Inr (eg, fs', w0)) \<and>
     getConsumerGroups eg [10, 0, 0, 1] = [''default'']"
proof -
  obtain conf ws eg fs' w0 c where d: "demoLoad = Inr (conf, ws)" "demoBoot2 conf = Ret (Inr (eg, fs', w0))"
      "getConsumerForIP eg [10, 0, 0, 1] = Some c" "csGroups (ecConfig c) = [''Kids'']"
    by (rule demoCapitals_engine)
  have "ToLower ''Kids'' \<noteq> ''Kids''"
    by code_simp
  with capital_group_reference_lost [OF d(1) d(2) [unfolded demoBoot2_def] d(3)] d show ?thesis
    by auto
qed

end
