(* ===== verification/Events.thy ===== *)
theory Events
  imports Channel "HOL-Library.AList"
begin

text \<open>
  \<^verbatim>\<open>src/events/bus.go\<close> and \<^verbatim>\<open>src/events/file_watch_events.go\<close>: the event bus of the program and the service that
  watches files.

  Events go through a channel of ten places; one goroutine takes them out and calls the listeners of
  their topic. What a listener does is a parameter \<open>call\<close>: from its message and the state it yields the
  events it sends, in order, and the new state and subscriptions. A send waits for room, so the
  goroutine itself waits when its listener sends: a step of the model is one send or one dispatch.
  The order in which the listeners of a topic are called is a parameter, as it is the order of a Go map.
\<close>

section \<open>bus.go\<close>

datatype evalue = VString string | VInt int

type_synonym message = "(string \<times> evalue) list"

record event =
  evTopic :: string
  evMessage :: "message option"

record Handle =
  hdTopic :: string
  hdId :: "32 word"

type_synonym 'l topicMap = "(string \<times> (32 word \<times> 'l) list) list"

record 'l bus =
  bsTopics :: "'l topicMap"
  bsQueue :: "event list"

definition queueSize :: nat where
  "queueSize = 10"

text \<open>The global \<open>ebus\<close> is nil before \<open>Start\<close> and after \<open>Stop\<close>.\<close>

definition Start :: "'l bus option \<Rightarrow> 'l bus option" where
  "Start eb = (case eb of Some b \<Rightarrow> Some b | None \<Rightarrow> Some \<lparr>bsTopics = [], bsQueue = []\<rparr>)"

definition Send :: "event \<Rightarrow> 'l bus option \<Rightarrow> 'l bus option chan" where
  "Send e eb =
     (if evTopic e = [] then Done eb
      else case eb of
        None \<Rightarrow> Done None
      | Some b \<Rightarrow> if queueSize \<le> length (bsQueue b) then Block else Done (Some (b\<lparr>bsQueue := bsQueue b @ [e]\<rparr>)))"

definition listenersOf :: "'l topicMap \<Rightarrow> string \<Rightarrow> (32 word \<times> 'l) list" where
  "listenersOf ts topic = (case map_of ts topic of None \<Rightarrow> [] | Some ls \<Rightarrow> ls)"

text \<open>\<open>ident\<close> is the identifier that the uuid package makes.\<close>

definition Listen :: "string \<Rightarrow> 'l \<Rightarrow> 32 word \<Rightarrow> 'l bus option \<Rightarrow> Handle \<times> 'l bus option" where
  "Listen topic listener ident eb = (case eb of
       None \<Rightarrow> (\<lparr>hdTopic = [], hdId = 0\<rparr>, None)
     | Some b \<Rightarrow> (\<lparr>hdTopic = topic, hdId = ident\<rparr>,
         Some (b\<lparr>bsTopics := AList.update topic (AList.update ident listener (listenersOf (bsTopics b) topic)) (bsTopics b)\<rparr>)))"

definition unsubscribe :: "Handle option \<Rightarrow> 'l bus option \<Rightarrow> 'l bus option" where
  "unsubscribe handle eb = (case (handle, eb) of
       (Some h, Some b) \<Rightarrow>
         (case map_of (bsTopics b) (hdTopic h) of
            None \<Rightarrow> Some b
          | Some ls \<Rightarrow> Some (b\<lparr>bsTopics := AList.update (hdTopic h) (AList.delete (hdId h) ls) (bsTopics b)\<rparr>))
     | _ \<Rightarrow> eb)"

definition HandleClose :: "Handle \<Rightarrow> 'l bus option \<Rightarrow> 'l bus option" where
  "HandleClose h eb = (if eb = None \<or> hdTopic h = [] then eb else unsubscribe (Some h) eb)"

text \<open>
  One turn of \<open>service\<close> that takes an event: the listeners of its topic run one after the other; what they
  send is still to be put on the channel.
\<close>

type_synonym ('l, 's) call = "'l \<Rightarrow> message option \<Rightarrow> 'l topicMap \<times> 's \<Rightarrow> event list \<times> 'l topicMap \<times> 's"

fun runListeners :: "('l, 's) call \<Rightarrow> (32 word \<times> 'l) list \<Rightarrow> message option \<Rightarrow> 'l topicMap \<times> 's \<Rightarrow> event list \<times> 'l topicMap \<times> 's" where
  "runListeners call [] msg st = ([], st)"
| "runListeners call ((i, l) # ls) msg st =
     (let (out, st') = call l msg st; (outs, st'') = runListeners call ls msg st' in (out @ outs, st''))"

definition serviceTurn :: "((32 word \<times> 'l) list \<Rightarrow> (32 word \<times> 'l) list) \<Rightarrow> ('l, 's) call \<Rightarrow> event \<Rightarrow> 'l topicMap \<times> 's
    \<Rightarrow> event list \<times> 'l topicMap \<times> 's" where
  "serviceTurn order call e st =
     (if evTopic e \<noteq> [] then runListeners call (order (listenersOf (fst st) (evTopic e))) (evMessage e) st else ([], st))"

section \<open>The bus at work\<close>

text \<open>
  The running bus: the bus, what the service goroutine has still to send for the listeners it called,
  and the state the listeners work on. Labels tell what happened.
\<close>

datatype label = Sent event | Dispatched event

inductive busStep :: "((32 word \<times> 'l) list \<Rightarrow> (32 word \<times> 'l) list) \<Rightarrow> ('l, 's) call
    \<Rightarrow> 'l bus \<times> event list \<times> 's \<Rightarrow> label \<Rightarrow> 'l bus \<times> event list \<times> 's \<Rightarrow> bool" for order call where
  outside: "evTopic e \<noteq> [] \<Longrightarrow> Send e (Some b) = Done (Some b') \<Longrightarrow> busStep order call (b, pending, s) (Sent e) (b', pending, s)"
| emit: "evTopic e \<noteq> [] \<Longrightarrow> Send e (Some b) = Done (Some b') \<Longrightarrow> busStep order call (b, e # pending, s) (Sent e) (b', pending, s)"
| dispatch: "bsQueue b = e # rest \<Longrightarrow> serviceTurn order call e (bsTopics b, s) = (out, ts, s') \<Longrightarrow>
    busStep order call (b, [], s) (Dispatched e) (\<lparr>bsTopics = ts, bsQueue = rest\<rparr>, filter (\<lambda>e. evTopic e \<noteq> []) out, s')"

inductive busRun :: "((32 word \<times> 'l) list \<Rightarrow> (32 word \<times> 'l) list) \<Rightarrow> ('l, 's) call
    \<Rightarrow> 'l bus \<times> event list \<times> 's \<Rightarrow> label list \<Rightarrow> 'l bus \<times> event list \<times> 's \<Rightarrow> bool" for order call where
  none: "busRun order call st [] st"
| more: "busRun order call st ls st' \<Longrightarrow> busStep order call st' l st'' \<Longrightarrow> busRun order call st (ls @ [l]) st''"

definition sentEvents :: "label list \<Rightarrow> event list" where
  "sentEvents ls = List.map_filter (\<lambda>l. case l of Sent e \<Rightarrow> Some e | _ \<Rightarrow> None) ls"

definition dispatchedEvents :: "label list \<Rightarrow> event list" where
  "dispatchedEvents ls = List.map_filter (\<lambda>l. case l of Dispatched e \<Rightarrow> Some e | _ \<Rightarrow> None) ls"

lemma sentEvents_snoc [simp]:
  "sentEvents [] = []" "sentEvents (ls @ [Sent e]) = sentEvents ls @ [e]" "sentEvents (ls @ [Dispatched e]) = sentEvents ls"
  "dispatchedEvents [] = []" "dispatchedEvents (ls @ [Sent e]) = dispatchedEvents ls" "dispatchedEvents (ls @ [Dispatched e]) = dispatchedEvents ls @ [e]"
  by (simp_all add: sentEvents_def dispatchedEvents_def List.map_filter_def)

lemma Send_Done: "Send e (Some b) = Done (Some b') \<Longrightarrow> evTopic e \<noteq> [] \<Longrightarrow>
    bsQueue b' = bsQueue b @ [e] \<and> length (bsQueue b) < queueSize \<and> bsTopics b' = bsTopics b"
  by (auto simp: Send_def split: if_splits)

lemma busRun_queue:
  assumes "busRun order call st ls st'" "st = (\<lparr>bsTopics = ts, bsQueue = []\<rparr>, [], s)"
  shows "sentEvents ls = dispatchedEvents ls @ bsQueue (fst st') \<and> length (bsQueue (fst st')) \<le> queueSize"
  using assms
proof (induction rule: busRun.induct)
  case (more st ls st' l st'')
  then have "sentEvents ls = dispatchedEvents ls @ bsQueue (fst st') \<and> length (bsQueue (fst st')) \<le> queueSize"
    by blast
  with more(2) show ?case
    by (cases rule: busStep.cases) (auto dest: Send_Done)
qed simp

section \<open>Properties\<close>


definition demoEvent :: event where
  "demoEvent = \<lparr>evTopic = ''t'', evMessage = None\<rparr>"

text \<open>A listener that answers every event with \<open>n\<close> others.\<close>

definition demoCall :: "nat \<Rightarrow> (unit, unit) call" where
  "demoCall n l m st = (replicate n demoEvent, st)"

definition demoBusy :: "event list \<Rightarrow> unit bus" where
  "demoBusy q = \<lparr>bsTopics = [(''t'', [(1, ())])], bsQueue = q\<rparr>"

lemma demo_send: "length q < 10 \<Longrightarrow> busStep id (demoCall n) (demoBusy q, pending, ()) (Sent demoEvent) (demoBusy (q @ [demoEvent]), pending, ())"
  by (rule busStep.outside) (simp_all add: demoEvent_def demoBusy_def Send_def queueSize_def)

lemma demo_turn: "serviceTurn id (demoCall n) demoEvent (bsTopics (demoBusy q), ()) = (replicate n demoEvent, bsTopics (demoBusy q), ())"
  by (simp add: serviceTurn_def demoEvent_def demoBusy_def listenersOf_def demoCall_def)

lemma demo_dispatch: "busStep id (demoCall n) (demoBusy (demoEvent # q), [], ()) (Dispatched demoEvent) (demoBusy q, replicate n demoEvent, ())"
proof -
  have "busStep id (demoCall n) (demoBusy (demoEvent # q), [], ()) (Dispatched demoEvent)
      (\<lparr>bsTopics = bsTopics (demoBusy (demoEvent # q)), bsQueue = q\<rparr>, filter (\<lambda>e. evTopic e \<noteq> []) (replicate n demoEvent), ())"
    by (rule busStep.dispatch [OF _ demo_turn]) (simp add: demoBusy_def)
  then show ?thesis
    by (simp add: demoBusy_def demoEvent_def filter_replicate)
qed


text \<open>A service goroutine that has more to send than there is room for.\<close>

definition overcommitted :: "'l bus \<times> event list \<times> 's \<Rightarrow> bool" where
  "overcommitted st \<longleftrightarrow> (case st of (b, pending, s) \<Rightarrow> queueSize < length (bsQueue b) + length pending \<and> length (bsQueue b) \<le> queueSize)"

lemma overcommitted_step:
  "busStep order call st l st' \<Longrightarrow> overcommitted st \<Longrightarrow> overcommitted st' \<and> (\<forall>e. l \<noteq> Dispatched e)"
  by (induction rule: busStep.induct) (auto simp: overcommitted_def dest!: Send_Done)

lemma overcommitted_run:
  "busRun order call st ls st' \<Longrightarrow> overcommitted st \<Longrightarrow> overcommitted st' \<and> dispatchedEvents ls = []"
proof (induction rule: busRun.induct)
  case (more st ls st' l st'')
  then show ?case
    using overcommitted_step [OF more(2)] by (cases l) auto
qed simp

text \<open>
  A listener that sends more events than there is room for stops the bus for good: the goroutine that
  would make room is the one that waits. Whatever happens afterwards, no event is ever dispatched again.
\<close>

theorem sending_listener_stops_bus:
  assumes "bsQueue b = e # rest" "length (bsQueue b) \<le> 10"
    and "serviceTurn order call e (bsTopics b, s) = (out, ts, s1)"
    and "10 < length rest + length (filter (\<lambda>e. evTopic e \<noteq> []) out)"
    and "busStep order call (b, [], s) (Dispatched e) st" "busRun order call st ls st'"
  shows "dispatchedEvents ls = [] \<and> fst (snd st') \<noteq> []"
proof -
  have "st = (\<lparr>bsTopics = ts, bsQueue = rest\<rparr>, filter (\<lambda>e. evTopic e \<noteq> []) out, s1)"
    using assms(5,1,3) by (cases rule: busStep.cases) auto
  then have "overcommitted st"
    using assms(1,2,4) by (simp add: overcommitted_def queueSize_def)
  from overcommitted_run [OF assms(6) this] show ?thesis
    by (auto simp: overcommitted_def split: prod.splits)
qed

theorem sending_listener_stops_bus_witness:
  "\<exists>st ls st'. busStep id (demoCall 11) (demoBusy [demoEvent], [], ()) (Dispatched demoEvent) st \<and>
     busRun id (demoCall 11) st ls st' \<and> sentEvents ls = [demoEvent] \<and> dispatchedEvents ls = [] \<and> fst (snd st') \<noteq> []"
proof -
  let ?st = "(demoBusy [], replicate 11 demoEvent, ())"
  have d: "busStep id (demoCall 11) (demoBusy [demoEvent], [], ()) (Dispatched demoEvent) ?st"
    by (rule demo_dispatch)
  have run: "busRun id (demoCall 11) ?st ([] @ [Sent demoEvent]) (demoBusy [demoEvent], replicate 11 demoEvent, ())"
    using busRun.more [OF busRun.none demo_send [of "[]"]] by simp
  have q: "bsQueue (demoBusy [demoEvent]) = [demoEvent]" "length (filter (\<lambda>e. evTopic e \<noteq> []) (replicate 11 demoEvent)) = 11"
    by (simp_all add: demoBusy_def demoEvent_def)
  have "dispatchedEvents ([] @ [Sent demoEvent]) = [] \<and> fst (snd (demoBusy [demoEvent], replicate 11 demoEvent, ())) \<noteq> []"
    by (rule sending_listener_stops_bus [OF q(1) _ demo_turn _ d run]) (simp_all add: q)
  with d run show ?thesis
    by (intro exI [of _ ?st] exI [of _ "[Sent demoEvent]"] exI) (auto simp: sentEvents_def List.map_filter_def)
qed

lemma listenersOf_Listen:
  "Listen topic l i (Some b) = (h, Some b') \<Longrightarrow> map_of (listenersOf (bsTopics b') t) =
     (if t = topic then (map_of (listenersOf (bsTopics b) t))(i \<mapsto> l) else map_of (listenersOf (bsTopics b) t))"
  by (auto simp: Listen_def listenersOf_def update_conv')

lemma listenersOf_Close:
  "hdTopic h \<noteq> [] \<Longrightarrow> HandleClose h (Some b) = Some b' \<Longrightarrow> map_of (listenersOf (bsTopics b') t) =
     (if t = hdTopic h then (map_of (listenersOf (bsTopics b) t))(hdId h := None) else map_of (listenersOf (bsTopics b) t))"
  by (auto simp: HandleClose_def unsubscribe_def listenersOf_def update_conv' delete_conv' split: option.splits)

text \<open>
  Subscriptions are exact: listening adds one listener, under a new identifier, to the topic and to no
  other, and closing the handle takes that listener away again and no other.
\<close>

theorem listen_close_roundtrip:
  assumes "topic \<noteq> []" "map_of (listenersOf (bsTopics b) topic) i = None"
    and "Listen topic l i (Some b) = (h, eb)" "HandleClose h eb = eb'"
  shows "\<exists>b1 b2. eb = Some b1 \<and> eb' = Some b2 \<and>
    (\<forall>t. map_of (listenersOf (bsTopics b1) t) =
       (if t = topic then (map_of (listenersOf (bsTopics b) t))(i \<mapsto> l) else map_of (listenersOf (bsTopics b) t))) \<and>
    (\<forall>t. map_of (listenersOf (bsTopics b2) t) = map_of (listenersOf (bsTopics b) t))"
proof -
  obtain b1 where b1: "eb = Some b1" "hdTopic h = topic" "hdId h = i"
    using assms(3) by (auto simp: Listen_def)
  obtain b2 where b2: "eb' = Some b2"
    using assms(1,4) b1 by (auto simp: HandleClose_def unsubscribe_def split: option.splits)
  show ?thesis
    using listenersOf_Listen [OF assms(3) [unfolded b1(1)]] listenersOf_Close [of h b1 b2] assms b1 b2
    by (auto simp: fun_upd_idem)
qed

definition demoBus :: "nat bus" where
  "demoBus = \<lparr>bsTopics = [(''t'', [(3, 0)])], bsQueue = []\<rparr>"

theorem listen_close_roundtrip_witness:
  "\<exists>h b1 b2. Listen ''t'' 1 7 (Some demoBus) = (h, Some b1) \<and> HandleClose h (Some b1) = Some b2 \<and>
     map_of (listenersOf (bsTopics b1) ''t'') = [3 \<mapsto> 0, 7 \<mapsto> 1] \<and> map_of (listenersOf (bsTopics b2) ''t'') = [3 \<mapsto> 0]"
proof -
  have demo: "map_of (listenersOf (bsTopics demoBus) ''t'') = [3 \<mapsto> 0]"
    by (simp add: demoBus_def listenersOf_def)
  obtain h eb where l: "Listen ''t'' 1 7 (Some demoBus) = (h, eb)"
    by fastforce
  from listen_close_roundtrip [OF _ _ l refl] demo obtain b1 b2
    where "eb = Some b1" "HandleClose h eb = Some b2" "map_of (listenersOf (bsTopics b1) ''t'') = [3 \<mapsto> 0, 7 \<mapsto> 1]"
      "map_of (listenersOf (bsTopics b2) ''t'') = [3 \<mapsto> 0]"
    by auto
  with l show ?thesis
    by blast
qed

section \<open>file_watch_events.go\<close>

text \<open>
  The hashes last seen, nil once the service is closed, and the paths the operating system watches. The
  hash of a file's content (SHA-256 in hexadecimal) is a parameter. \<^const>\<open>None\<close> is a panic: an
  assignment to the nil map.
\<close>

record watch =
  wtHashes :: "(string \<times> string) list option"
  wtWatched :: "string list"

definition pathHash :: "(string \<Rightarrow> string) \<Rightarrow> (string \<rightharpoonup> string) \<Rightarrow> string \<Rightarrow> string" where
  "pathHash hash fs path = (case fs path of None \<Rightarrow> [] | Some content \<Rightarrow> hash content)"

definition setHash :: "string \<Rightarrow> string \<Rightarrow> watch \<Rightarrow> watch option" where
  "setHash path h w = (case wtHashes w of None \<Rightarrow> None | Some hs \<Rightarrow> Some (w\<lparr>wtHashes := Some (AList.update path h hs)\<rparr>))"

text \<open>The loop over the watcher's events; a missing file swallows the event.\<close>

definition fileEvent :: "(string \<Rightarrow> string) \<Rightarrow> (string \<rightharpoonup> string) \<Rightarrow> string \<Rightarrow> watch \<Rightarrow> (event list \<times> watch) option" where
  "fileEvent hash fs name w =
     (if fs name = None then Some ([], w)
      else let newHash = pathHash hash fs name;
               old = (case wtHashes w of None \<Rightarrow> None | Some hs \<Rightarrow> map_of hs name)
           in if newHash \<noteq> [] \<and> old \<noteq> Some newHash
              then map_option (\<lambda>w'. ([\<lparr>evTopic = ''file:'' @ name, evMessage = Some [(''name'', VString name)]\<rparr>], w')) (setHash name newHash w)
              else Some ([], w))"

definition pathOf :: "message \<Rightarrow> string option" where
  "pathOf m = (case map_of m ''path'' of Some (VString p) \<Rightarrow> Some p | _ \<Rightarrow> None)"

text \<open>The four listeners of the service; \<open>addOk\<close> tells whether the watcher accepts the path.\<close>

definition watchStart :: "(string \<Rightarrow> string) \<Rightarrow> (string \<rightharpoonup> string) \<Rightarrow> bool \<Rightarrow> message \<Rightarrow> watch \<Rightarrow> watch option" where
  "watchStart hash fs addOk m w = (case pathOf m of
       None \<Rightarrow> Some w
     | Some path \<Rightarrow>
         (case setHash path [] w of
            None \<Rightarrow> None
          | Some w1 \<Rightarrow>
              map_option (\<lambda>w2. if addOk then w2\<lparr>wtWatched := path # wtWatched w2\<rparr> else w2)
                (setHash path (pathHash hash fs path) (w1\<lparr>wtWatched := filter (\<lambda>p. p \<noteq> path) (wtWatched w1)\<rparr>))))"

definition watchEnd :: "message \<Rightarrow> watch \<Rightarrow> watch option" where
  "watchEnd m w = (case pathOf m of
       None \<Rightarrow> Some w
     | Some path \<Rightarrow> map_option (\<lambda>w1. w1\<lparr>wtWatched := filter (\<lambda>p. p \<noteq> path) (wtWatched w1)\<rparr>) (setHash path [] w))"

definition watchClear :: "watch \<Rightarrow> watch" where
  "watchClear w = (case wtHashes w of
       None \<Rightarrow> w
     | Some hs \<Rightarrow> w\<lparr>wtHashes := Some (map (\<lambda>(k, v). (k, [])) hs), wtWatched := filter (\<lambda>p. p \<notin> fst ` set hs) (wtWatched w)\<rparr>)"

definition watchClose :: "watch \<Rightarrow> watch" where
  "watchClose w = \<lparr>wtHashes = None, wtWatched = []\<rparr>"

text \<open>A file is written again and again, with an event for each write.\<close>

fun fileWrites :: "(string \<Rightarrow> string) \<Rightarrow> (string \<rightharpoonup> string) \<Rightarrow> string \<Rightarrow> string list \<Rightarrow> watch \<Rightarrow> (event list \<times> watch) option" where
  "fileWrites hash fs name [] w = Some ([], w)"
| "fileWrites hash fs name (c # cs) w = (case fileEvent hash (fs(name \<mapsto> c)) name w of
       None \<Rightarrow> None
     | Some (out, w') \<Rightarrow> map_option (\<lambda>(outs, w''). (out @ outs, w'')) (fileWrites hash (fs(name \<mapsto> c)) name cs w'))"

lemma fileWrites_changes:
  assumes "\<And>c. hash c \<noteq> []" "wtHashes w = Some hs" "map_of hs name = Some h"
  shows "\<exists>out w'. fileWrites hash fs name cs w = Some (out, w') \<and>
    Suc (length out) = length (remdups_adj (h # map hash cs)) \<and> (\<forall>e \<in> set out. evTopic e = ''file:'' @ name)"
  using assms(2,3)
proof (induction cs arbitrary: fs w hs h)
  case (Cons c cs)
  show ?case
  proof (cases "h = hash c")
    case True
    then have "fileEvent hash (fs(name \<mapsto> c)) name w = Some ([], w)"
      using Cons.prems by (simp add: fileEvent_def pathHash_def)
    then show ?thesis
      using Cons.IH [OF Cons.prems, of "fs(name \<mapsto> c)"] True by (auto simp del: fun_upd_apply)
  next
    case False
    let ?w = "w\<lparr>wtHashes := Some (AList.update name (hash c) hs)\<rparr>"
    have "fileEvent hash (fs(name \<mapsto> c)) name w = Some ([\<lparr>evTopic = ''file:'' @ name, evMessage = Some [(''name'', VString name)]\<rparr>], ?w)"
      using Cons.prems False assms(1) by (simp add: fileEvent_def pathHash_def setHash_def)
    moreover obtain out w' where "fileWrites hash (fs(name \<mapsto> c)) name cs ?w = Some (out, w')"
        "Suc (length out) = length (remdups_adj (hash c # map hash cs))" "\<forall>e \<in> set out. evTopic e = ''file:'' @ name"
      using Cons.IH [of ?w "AList.update name (hash c) hs" "hash c" "fs(name \<mapsto> c)"] by (auto simp: update_conv' simp del: fun_upd_apply)
        (auto simp: update_conv')
    ultimately show ?thesis
      using False by (auto simp del: fun_upd_apply)
  qed
qed simp

text \<open>
  A watched file is announced once for every change of its content: from the moment its watch starts,
  the number of events sent for it is the number of times that the content, seen through its hash,
  differs from the content before, however often it is written.
\<close>

theorem file_changes_announced:
  assumes "\<And>c. hash c \<noteq> []" "fs name = Some c0" "wtHashes w = Some hs" "pathOf m = Some name"
  shows "\<exists>w1 out w2. watchStart hash fs addOk m w = Some w1 \<and> fileWrites hash fs name cs w1 = Some (out, w2) \<and>
    Suc (length out) = length (remdups_adj (map hash (c0 # cs))) \<and> (\<forall>e \<in> set out. evTopic e = ''file:'' @ name)"
proof -
  obtain w1 hs1 where w1: "watchStart hash fs addOk m w = Some w1" "wtHashes w1 = Some hs1" "map_of hs1 name = Some (hash c0)"
    using assms(2-4) by (auto simp: watchStart_def setHash_def pathHash_def update_conv' split: if_splits)
  from fileWrites_changes [OF assms(1) w1(2,3)] w1(1) show ?thesis
    by simp
qed

theorem file_changes_announced_witness:
  "\<exists>w1 out w2. watchStart (\<lambda>c. ''h'' @ c) [''f'' \<mapsto> ''a''] True [(''path'', VString ''f'')] \<lparr>wtHashes = Some [], wtWatched = []\<rparr> = Some w1 \<and>
     fileWrites (\<lambda>c. ''h'' @ c) [''f'' \<mapsto> ''a''] ''f'' [''a'', ''b'', ''b'', ''a''] w1 = Some (out, w2) \<and> length out = 2"
proof -
  have "length (remdups_adj (map (\<lambda>c. ''h'' @ c) (''a'' # [''a'', ''b'', ''b'', ''a'']))) = 3"
    by code_simp
  then show ?thesis
    using file_changes_announced [of "\<lambda>c. ''h'' @ c" "[''f'' \<mapsto> ''a'']" "''f''" "''a''" "\<lparr>wtHashes = Some [], wtWatched = []\<rparr>" "[]" "[(''path'', VString ''f'')]" True "[''a'', ''b'', ''b'', ''a'']"]
    by (auto simp: pathOf_def)
qed

end
