(* ===== verification/Reload.thy ===== *)
theory Reload
  imports Engine_Build Events
begin

text \<open>
  \<^verbatim>\<open>src/engine/reloading_engine.go\<close>: the engine that is replaced when the configuration file changes.

  The lock makes a swap and the calls of other goroutines exclude each other, so calls see the engine
  before or after a swap. The recorder that \<open>Shutdown\<close> ends first is in the theories \<open>Recorder\<close> and \<open>Lifecycle\<close>; here
  the old engine is closed with its sources, by \<open>engineClose\<close>. Events that the
  sources of the new engine send are a parameter.
\<close>

record 'f reloadingEngine =
  reConfPath :: string
  reCurrent :: "'f engine option"

definition NewReloadingEngine :: "string \<Rightarrow> ('f engine \<times> fileSystem \<times> 'b world) result run \<Rightarrow> ('f reloadingEngine \<times> fileSystem \<times> 'b world) result run" where
  "NewReloadingEngine confPath built = bind_run built (\<lambda>r. case r of
       Inl e \<Rightarrow> Ret (Inl e)
     | Inr (eg, fs, w) \<Rightarrow> Ret (Inr (\<lparr>reConfPath = confPath, reCurrent = Some eg\<rparr>, fs, w)))"

text \<open>
  \<open>swap\<close>: the old engine is shut down before the new one is built; when that fails the old one stays,
  shut down. \<open>build\<close> is \<open>NewEngine\<close> on the new configuration. Files that a failed build downloaded are not
  tracked.
\<close>

definition swap :: "'b backer \<Rightarrow> (fileSystem \<Rightarrow> ('f engine \<times> fileSystem \<times> 'b world) result run) \<Rightarrow> 'f reloadingEngine \<times> fileSystem \<times> 'b world
    \<Rightarrow> ('f reloadingEngine \<times> fileSystem \<times> 'b world) run" where
  "swap B build st = (case st of (re, fs, w) \<Rightarrow>
     bind_run (case reCurrent re of
         None \<Rightarrow> Ret (None, w)
       | Some eg \<Rightarrow> bind_run (engineClose B eg w) (\<lambda>(eg', w'). Ret (Some eg', w'))) (\<lambda>(old, w1).
     bind_run (build fs) (\<lambda>r. case r of
         Inl e \<Rightarrow> Ret (re\<lparr>reCurrent := old\<rparr>, fs, w1)
       | Inr (eg, fs', w2) \<Rightarrow> Ret (re\<lparr>reCurrent := Some eg\<rparr>, fs', w2))))"

text \<open>The listener on the configuration file: a configuration that cannot be loaded changes nothing.\<close>

definition configChanged :: "'b backer \<Rightarrow> (GudgeonConfig \<Rightarrow> fileSystem \<Rightarrow> ('f engine \<times> fileSystem \<times> 'b world) result run)
    \<Rightarrow> (GudgeonConfig \<times> string list) result \<Rightarrow> 'f reloadingEngine \<times> fileSystem \<times> 'b world \<Rightarrow> ('f reloadingEngine \<times> fileSystem \<times> 'b world) run" where
  "configChanged B build loaded st = (case loaded of
       Inl err \<Rightarrow> Ret st
     | Inr (conf, warnings) \<Rightarrow> swap B (build conf) st)"

text \<open>The events the listener sends: the watches of the sources and lists come from building the engine.\<close>

definition watchStartEvent :: "string \<Rightarrow> event" where
  "watchStartEvent path = \<lparr>evTopic = ''file:watch:start'', evMessage = Some [(''path'', VString path)]\<rparr>"

definition storeEvents :: "hostenv \<Rightarrow> GudgeonConfig \<Rightarrow> event list" where
  "storeEvents H conf = map (\<lambda>l. watchStartEvent (PathToList H conf l)) (cfLists conf)"

definition reloadEvents :: "hostenv \<Rightarrow> string \<Rightarrow> (GudgeonConfig \<times> string list) result \<Rightarrow> event list \<Rightarrow> bool \<Rightarrow> event list" where
  "reloadEvents H confPath loaded sourceEvents built =
     \<lparr>evTopic = ''file:watch:clear'', evMessage = None\<rparr> #
     (case loaded of
        Inl err \<Rightarrow> []
      | Inr (conf, warnings) \<Rightarrow> sourceEvents @ (if built then storeEvents H conf else [])) @
     [watchStartEvent confPath]"

text \<open>The calls passed on to the current engine; without one the answer is empty.\<close>

definition onCurrent :: "'a \<Rightarrow> ('f engine \<Rightarrow> 'a) \<Rightarrow> 'f reloadingEngine \<Rightarrow> 'a" where
  "onCurrent none f re = (case reCurrent re of None \<Rightarrow> none | Some eg \<Rightarrow> f eg)"

definition reloadingIsDomainRuleMatched :: "'f storelib \<Rightarrow> 'f reloadingEngine \<Rightarrow> ip \<Rightarrow> string \<Rightarrow> matchResult" where
  "reloadingIsDomainRuleMatched E re address domain = onCurrent noMatch (\<lambda>eg. IsDomainRuleMatched E eg address domain) re"

definition reloadingResolve :: "nat \<Rightarrow> srclib \<Rightarrow> 'f storelib \<Rightarrow> 'b backer \<Rightarrow> 'f reloadingEngine \<Rightarrow> string \<Rightarrow> 'b world \<Rightarrow> (string result \<times> 'b world) run" where
  "reloadingResolve n S E B re domain w =
     onCurrent (Ret (Inl ''No engine currently available'', w)) (\<lambda>eg. Resolve n S E B eg domain w) re"

definition reloadingReverse :: "nat \<Rightarrow> srclib \<Rightarrow> 'f storelib \<Rightarrow> 'b backer \<Rightarrow> 'f reloadingEngine \<Rightarrow> string \<Rightarrow> 'b world \<Rightarrow> (string \<times> 'b world) run" where
  "reloadingReverse n S E B re address w = onCurrent (Ret ([], w)) (\<lambda>eg. Reverse n S E B eg address w) re"

definition reloadingHandle :: "nat \<Rightarrow> srclib \<Rightarrow> 'f storelib \<Rightarrow> 'b backer \<Rightarrow> 'f reloadingEngine \<Rightarrow> ip \<Rightarrow> string \<Rightarrow> Msg \<Rightarrow> 'b world
    \<Rightarrow> (((ptr \<times> requestContext option \<times> resolutionResult) \<times> recorderCall option) option \<times> 'b world) run" where
  "reloadingHandle n S E B re address protocol request w =
     onCurrent (Ret (None, w)) (\<lambda>eg. bind_run (Handle n S E B eg address protocol request w) (\<lambda>(r, w'). Ret (Some r, w'))) re"

definition reloadingHandleWithConsumerName :: "nat \<Rightarrow> srclib \<Rightarrow> 'f storelib \<Rightarrow> 'b backer \<Rightarrow> 'f reloadingEngine \<Rightarrow> string
    \<Rightarrow> requestContext option \<Rightarrow> Msg \<Rightarrow> 'b world \<Rightarrow> ((ptr \<times> requestContext option \<times> resolutionResult) option \<times> 'b world) run" where
  "reloadingHandleWithConsumerName n S E B re name rCon request w =
     onCurrent (Ret (None, w)) (\<lambda>eg. bind_run (HandleWithConsumerName n S E B eg name rCon request w) (\<lambda>(r, w'). Ret (Some r, w'))) re"

definition reloadingHandleWithConsumer :: "nat \<Rightarrow> srclib \<Rightarrow> 'f storelib \<Rightarrow> 'b backer \<Rightarrow> 'f reloadingEngine \<Rightarrow> engineConsumer option
    \<Rightarrow> requestContext option \<Rightarrow> Msg \<Rightarrow> 'b world \<Rightarrow> ((ptr \<times> requestContext option \<times> resolutionResult) option \<times> 'b world) run" where
  "reloadingHandleWithConsumer n S E B re consumer rCon request w =
     onCurrent (Ret (None, w)) (\<lambda>eg. bind_run (HandleWithConsumer n S E B eg consumer rCon request w) (\<lambda>(r, w'). Ret (Some r, w'))) re"

definition reloadingHandleWithGroups :: "nat \<Rightarrow> srclib \<Rightarrow> 'f storelib \<Rightarrow> 'b backer \<Rightarrow> 'f reloadingEngine \<Rightarrow> string list
    \<Rightarrow> requestContext option \<Rightarrow> Msg \<Rightarrow> 'b world \<Rightarrow> ((ptr \<times> requestContext option \<times> resolutionResult) option \<times> 'b world) run" where
  "reloadingHandleWithGroups n S E B re groups rCon request w =
     onCurrent (Ret (None, w)) (\<lambda>eg. bind_run (HandleWithGroups n S E B eg groups rCon request w) (\<lambda>(r, w'). Ret (Some r, w'))) re"

definition reloadingHandleWithResolvers :: "nat \<Rightarrow> srclib \<Rightarrow> 'f storelib \<Rightarrow> 'b backer \<Rightarrow> 'f reloadingEngine \<Rightarrow> string list
    \<Rightarrow> requestContext option \<Rightarrow> Msg \<Rightarrow> 'b world \<Rightarrow> ((ptr \<times> requestContext option \<times> resolutionResult) option \<times> 'b world) run" where
  "reloadingHandleWithResolvers n S E B re resolvers rCon request w =
     onCurrent (Ret (None, w)) (\<lambda>eg. bind_run (HandleWithResolvers n S E B eg resolvers rCon request w) (\<lambda>(r, w'). Ret (Some r, w'))) re"

definition reloadingCacheSize :: "'b backer \<Rightarrow> 'f reloadingEngine \<Rightarrow> 'b world \<Rightarrow> int" where
  "reloadingCacheSize B re w = onCurrent 0 (\<lambda>eg. CacheSize B w) re"

definition reloadingMetrics :: "'f reloadingEngine \<Rightarrow> metrics option" where
  "reloadingMetrics re = onCurrent None egMetrics re"

text \<open>The names for the web interface, which the engine keeps once they are asked for; nil without an engine.\<close>

definition keepNames :: "'f reloadingEngine \<Rightarrow> 'a \<times> 'f engine \<Rightarrow> 'a option \<times> 'f reloadingEngine" where
  "keepNames re r = (Some (fst r), re\<lparr>reCurrent := Some (snd r)\<rparr>)"

definition reloadingConsumers :: "srclib \<Rightarrow> 'f reloadingEngine \<Rightarrow> string list option \<times> 'f reloadingEngine" where
  "reloadingConsumers S re = onCurrent (None, re) (\<lambda>eg. keepNames re (Consumers S eg)) re"

definition reloadingGroups :: "srclib \<Rightarrow> 'f reloadingEngine \<Rightarrow> string list option \<times> 'f reloadingEngine" where
  "reloadingGroups S re = onCurrent (None, re) (\<lambda>eg. keepNames re (Groups S eg)) re"

definition reloadingResolvers :: "'f reloadingEngine \<Rightarrow> (string list option \<times> 'f reloadingEngine) run" where
  "reloadingResolvers re = onCurrent (Ret (None, re)) (\<lambda>eg. bind_run (Resolvers eg) (\<lambda>r. Ret (keepNames re r))) re"

definition reloadingLists :: "'f reloadingEngine \<Rightarrow> ((string \<times> string) list option \<times> 'f reloadingEngine) run" where
  "reloadingLists re = onCurrent (Ret (None, re)) (\<lambda>eg. bind_run (Lists eg) (\<lambda>r. Ret (keepNames re r))) re"

definition reloadingClose :: "'b backer \<Rightarrow> 'f reloadingEngine \<times> 'b world \<Rightarrow> ('f reloadingEngine \<times> 'b world) run" where
  "reloadingClose B st = (case st of (re, w) \<Rightarrow>
     onCurrent (Ret (re, w)) (\<lambda>eg. bind_run (engineClose B eg w) (\<lambda>(eg', w'). Ret (re\<lparr>reCurrent := Some eg'\<rparr>, w'))) re)"

section \<open>Closing changes no decision\<close>

definition stacked :: "'f store \<Rightarrow> bool" where
  "stacked s \<longleftrightarrow> (\<exists>hs c d. s = ReloadingStore hs (Some (ComplexStore c d)))"

lemma stacked_Close: "stacked s \<Longrightarrow> Close s = s"
  by (auto simp: stacked_def)

lemma stacked_Load: "Stores.Load E s l r = Ret s' \<Longrightarrow> stacked s \<Longrightarrow> stacked s'"
  by (auto simp: stacked_def bind_run_Ret split: option.splits if_splits)

lemma stacked_loadLines: "loadLines E s l rs n = Ret (s', m) \<Longrightarrow> stacked s \<Longrightarrow> stacked s'"
  by (induction rs arbitrary: s n) (auto simp: Let_def bind_run_Ret dest: stacked_Load split: if_splits)

lemma stacked_loadLists: "loadLists E fs path s ls = Ret (s', ns) \<Longrightarrow> stacked s \<Longrightarrow> stacked s'"
  by (induction ls arbitrary: s ns) (auto simp: bind_run_Ret loadList_def dest: stacked_loadLines split: option.splits)

lemma stacked_CreateStore:
  assumes "CreateStore E fs path storage ls = Ret (s, counts)"
  shows "stacked s"
proof -
  let ?s0 = "Init E (ReloadingStore [0..<length ls] (Some (newComplex (Some (backingStore storage))))) (map the ls)"
  obtain s1 where s1: "loadLists E fs path ?s0 (map the ls) = Ret (s1, counts)" "s = Finalize E s1 (map the ls)"
    using assms by (auto simp: CreateStore_def Let_def bind_run_Ret split: if_splits)
  have "stacked ?s0"
    by (simp add: stacked_def newComplex_def)
  from stacked_loadLists [OF s1(1) this] show ?thesis
    by (auto simp: stacked_def s1(2))
qed

section \<open>Properties\<close>

text \<open>Closing the engine: it comes back exactly when no pool and no router is held twice, and only once.\<close>

lemma engineClose_first:
  assumes "bootstrap H depth S E fetch dbError metrics conf fs = Ret (Inr (eg, fs', w))"
  obtains store where "egStore eg = Some store" "stacked store" "egSources eg = newSourceState"
    and "NewResolverMap depth S (cfSources conf) (cfResolvers conf) = Ret (egResolvers eg)"
proof -
  obtain parts rm store counts st where b: "None \<notin> set (cfGroups conf)" "None \<notin> set (cfConsumers conf)" "None \<notin> set (cfLists conf)"
    "cfStorage conf = Some st"
    "CreateStore E fs' (\<lambda>l. PathToList H conf (Some l)) (stRuleStorage st) (map Some (somes (cfLists conf))) = Ret (store, counts)"
    "NewResolverMap depth S (cfSources conf) (cfResolvers conf) = Ret rm"
    "eg = buildEngine conf parts rm store (if ptMetrics parts
       then Some (countRules (somes (cfLists conf)) counts (metrics\<lparr>meCacheSizeFunc := True\<rparr>)) else None)"
    by (rule bootstrap_ok [OF assms])
  show ?thesis
    by (rule that [of store]) (simp_all add: b(6,7) buildEngine_simps [OF b(1-3)] stacked_CreateStore [OF b(5)])
qed

lemma swap_Ret:
  assumes "reCurrent re = Some eg" "swap B build (re, fs, w) = Ret (re', fs', w')"
  shows "distinct (mapHolds (egResolvers eg)) \<and> (\<forall>h \<in> set (mapHolds (egResolvers eg)). isOpen (egSources eg) h)"
proof -
  obtain eg' w1 where "engineClose B eg w = Ret (eg', w1)"
    using assms by (auto simp: swap_def bind_run_Ret)
  then show ?thesis
    using resolverMapClose_returns by (auto simp: engineClose_Ret)
qed

lemma swap_failed:
  assumes "reCurrent re = Some eg" "egStore eg = Some store" "resolverMapClose (egResolvers eg) (egSources eg) = Done ss" "build fs = Ret (Inl err)"
  shows "swap B build (re, fs, w) =
    Ret (re\<lparr>reCurrent := Some (eg\<lparr>egStore := Some (Close store), egMetrics := None, egSources := ss\<rparr>)\<rparr>, fs, clearW B w)"
  using assms by (simp add: swap_def engineClose_def)

lemma configChanged_failed:
  assumes "bootstrap H depth S E fetch dbError metrics conf fs = Ret (Inr (eg, fs', w))"
    and "distinct (mapHolds (egResolvers eg))" "build conf' fs' = Ret (Inl err)"
  obtains store ss where "egStore eg = Some store" "stacked store" "resolverMapClose (egResolvers eg) (egSources eg) = Done ss"
    and "configChanged B build (Inr (conf', warnings)) (\<lparr>reConfPath = path, reCurrent = Some eg\<rparr>, fs', w) =
      Ret (\<lparr>reConfPath = path, reCurrent = Some (eg\<lparr>egStore := Some store, egMetrics := None, egSources := ss\<rparr>)\<rparr>, fs', clearW B w)"
proof -
  obtain store where store: "egStore eg = Some store" "stacked store" "egSources eg = newSourceState"
    by (rule engineClose_first [OF assms(1)])
  obtain ss where ss: "resolverMapClose (egResolvers eg) (egSources eg) = Done ss"
    using resolverMapClose_returns [of "egResolvers eg" "egSources eg"] assms(2) store(3) by auto
  show ?thesis
    by (rule that [OF store(1,2) ss])
      (simp add: configChanged_def swap_failed [where store = store and eg = eg] store(1) ss assms(3) stacked_Close [OF store(2)])
qed


text \<open>
  C30. An upstream server that two resolvers of the configuration name stops every reload: the two share
  one source, closing the old engine closes its pool of connections twice, and the second time the
  channel is closed already. The swap ends in a panic (or waits for a load balancer that is closed twice
  before), with the lock held; it never gets to the new engine.
\<close>

theorem shared_upstream_stops_reload:
  assumes "bootstrap H depth S E fetch dbError metrics conf fs = Ret (Inr (eg, fs', w))"
    and "distinct (map (map_option rsName) (cfResolvers conf))" "isUpstream S spec"
    and "Some c1 \<in> set (cfResolvers conf)" "Some c2 \<in> set (cfResolvers conf)" "rsName c1 \<noteq> rsName c2" "rsName c1 \<noteq> []" "rsName c2 \<noteq> []"
    and "spec \<in> set (rsSources c1)" "spec \<in> set (rsSources c2)"
  shows "\<not> (\<exists>st. configChanged B build (Inr (conf', warnings)) (\<lparr>reConfPath = path, reCurrent = Some eg\<rparr>, fs'', w') = Ret st)"
proof -
  have "NewResolverMap depth S (cfSources conf) (cfResolvers conf) = Ret (egResolvers eg)"
    by (rule engineClose_first [OF assms(1)])
  from shared_upstream_held_twice [OF this assms(3,2,4-10)] show ?thesis
    using swap_Ret [of "\<lparr>reConfPath = path, reCurrent = Some eg\<rparr>" eg B "build conf'" fs'' w'] by (auto simp: configChanged_def)
qed

text \<open>
  C38. A reload that fails is the last one: the engine that stays has been closed, and the next
  configuration that can be loaded, whatever it says, makes the swap close it again. If any of its
  resolvers has an upstream server or a load balancer, the swap never comes back.
\<close>

theorem reload_after_failed_reload:
  assumes "bootstrap H depth S E fetch dbError metrics conf fs = Ret (Inr (eg, fs', w))"
    and "distinct (mapHolds (egResolvers eg))" "mapHolds (egResolvers eg) \<noteq> []" "build conf1 fs' = Ret (Inl err)"
  shows "\<exists>re w1. configChanged B build (Inr (conf1, warnings)) (\<lparr>reConfPath = path, reCurrent = Some eg\<rparr>, fs', w) = Ret (re, fs', w1) \<and>
    (\<forall>build2 conf2 warnings2 fs2 w2. \<not> (\<exists>st. configChanged B build2 (Inr (conf2, warnings2)) (re, fs2, w2) = Ret st))"
proof -
  obtain store ss where "egStore eg = Some store" "stacked store" and ss: "resolverMapClose (egResolvers eg) (egSources eg) = Done ss"
    and changed: "configChanged B build (Inr (conf1, warnings)) (\<lparr>reConfPath = path, reCurrent = Some eg\<rparr>, fs', w) =
      Ret (\<lparr>reConfPath = path, reCurrent = Some (eg\<lparr>egStore := Some store, egMetrics := None, egSources := ss\<rparr>)\<rparr>, fs', clearW B w)"
    by (rule configChanged_failed [where build = build and conf' = conf1, OF assms(1,2,4)])
  obtain h where h: "h \<in> set (mapHolds (egResolvers eg))"
    using assms(3) by (cases "mapHolds (egResolvers eg)") auto
  have "\<not> (\<exists>st. swap B build2 (\<lparr>reConfPath = path, reCurrent = Some (eg\<lparr>egStore := Some store, egMetrics := None, egSources := ss\<rparr>)\<rparr>, fs2, w2) = Ret st)" for build2 fs2 w2
    using swap_Ret [of "\<lparr>reConfPath = path, reCurrent = Some (eg\<lparr>egStore := Some store, egMetrics := None, egSources := ss\<rparr>)\<rparr>"]
      resolverMapClose_closed [OF ss h] h by fastforce
  then show ?thesis
    using changed by (simp add: configChanged_def)
qed

text \<open>
  C37. Reloading a configuration with nine lists or more stops the event bus: the listener on the
  configuration file runs in the goroutine that empties the bus and sends one event to clear the
  watches, one for every list and one for the file itself, more than the ten the bus holds. No event is
  dispatched afterwards, so no list, source or configuration is reloaded again. (With ten lists the wait
  is inside \<open>swap\<close>, which holds the lock that every request takes.)
\<close>

theorem large_reload_stops_bus:
  assumes "bsQueue b = e # rest" "length (bsQueue b) \<le> 10" "evTopic e \<noteq> []"
    and "order (listenersOf (bsTopics b) (evTopic e)) = [(i, l)]"
    and "call l (evMessage e) (bsTopics b, s) = (reloadEvents H confPath (Inr (conf, warnings)) sourceEvents True, ts, s1)"
    and "9 \<le> length (cfLists conf)"
    and "busStep order call (b, [], s) (Dispatched e) st" "busRun order call st ls st'"
  shows "dispatchedEvents ls = []"
proof -
  have "length (filter (\<lambda>e. evTopic e \<noteq> []) (reloadEvents H confPath (Inr (conf, warnings)) sourceEvents True)) \<ge> 2 + length (cfLists conf)"
    by (simp add: reloadEvents_def watchStartEvent_def storeEvents_def comp_def)
  then have "queueSize < length rest + length (filter (\<lambda>e. evTopic e \<noteq> []) (reloadEvents H confPath (Inr (conf, warnings)) sourceEvents True))"
    using assms(6) by (simp add: queueSize_def)
  moreover have "st = (\<lparr>bsTopics = ts, bsQueue = rest\<rparr>, filter (\<lambda>e. evTopic e \<noteq> []) (reloadEvents H confPath (Inr (conf, warnings)) sourceEvents True), s1)"
    using assms(7) by (cases rule: busStep.cases) (use assms(1,3-5) in \<open>auto simp: serviceTurn_def\<close>)
  ultimately have "overcommitted st"
    using assms(1,2) by (simp add: overcommitted_def queueSize_def)
  from overcommitted_run [OF assms(8) this] show ?thesis
    by simp
qed

lemma demoBoot_holds:
  assumes "demoBoot = Ret (Inr (eg, fs', w))"
  shows "mapHolds (egResolvers eg) = []"
proof -
  have "(case demoBoot of Ret (Inr (eg, fs', w)) \<Rightarrow> mapHolds (egResolvers eg) = [] | _ \<Rightarrow> False)"
    by code_simp
  then show ?thesis
    by (simp add: assms)
qed


definition demoForward :: "string \<Rightarrow> GudgeonResolver" where
  "demoForward name = \<lparr>rsName = name, rsDomains = [], rsSkipDomains = [], rsSearch = [], rsHosts = [], rsSources = [''9.9.9.9'']\<rparr>"

definition demoBootWith :: "string list \<Rightarrow> (string list engine \<times> fileSystem \<times> (string \<times> envelope \<times> int) list world) result run" where
  "demoBootWith names = bootstrap demoHost 5 demoSrc demoEnv (\<lambda>u. Inl ''offline'') None demoMetrics
     (demoPolicy\<lparr>cfResolvers := map (Some \<circ> demoForward) names\<rparr>) demoFiles"

lemma demoBootWith_engine:
  "\<exists>eg fs' w. demoBootWith [''a'', ''b''] = Ret (Inr (eg, fs', w))"
  "\<exists>eg fs' w. demoBootWith [''a''] = Ret (Inr (eg, fs', w)) \<and> mapHolds (egResolvers eg) = [HPool ''9.9.9.9'']"
proof -
  have "(case demoBootWith [''a'', ''b''] of Ret (Inr (eg, fs', w)) \<Rightarrow> True | _ \<Rightarrow> False)"
    "(case demoBootWith [''a''] of Ret (Inr (eg, fs', w)) \<Rightarrow> mapHolds (egResolvers eg) = [HPool ''9.9.9.9''] | _ \<Rightarrow> False)"
    by code_simp+
  then show "\<exists>eg fs' w. demoBootWith [''a'', ''b''] = Ret (Inr (eg, fs', w))"
    "\<exists>eg fs' w. demoBootWith [''a''] = Ret (Inr (eg, fs', w)) \<and> mapHolds (egResolvers eg) = [HPool ''9.9.9.9'']"
    by (auto split: run.splits sum.splits)
qed

theorem shared_upstream_stops_reload_witness:
  "\<exists>eg fs' w. demoBootWith [''a'', ''b''] = Ret (Inr (eg, fs', w)) \<and>
     \<not> (\<exists>st. configChanged demoBacker (\<lambda>conf fs. Ret (Inl ''offline'')) (Inr (demoPolicy, [])) (\<lparr>reConfPath = ''g.yml'', reCurrent = Some eg\<rparr>, fs', w) = Ret st)"
proof -
  obtain eg fs' w where b: "demoBootWith [''a'', ''b''] = Ret (Inr (eg, fs', w))"
    using demoBootWith_engine(1) by blast
  have "isUpstream demoSrc ''9.9.9.9''"
    by code_simp
  then show ?thesis
    using shared_upstream_stops_reload [OF b [unfolded demoBootWith_def], of "''9.9.9.9''" "demoForward ''a''" "demoForward ''b''"
      demoBacker "\<lambda>conf fs. Ret (Inl ''offline'')" demoPolicy "[]" "''g.yml''" fs' w] b
    by (simp add: demoForward_def)
qed

theorem reload_after_failed_reload_witness:
  "\<exists>eg fs' w re w1. demoBootWith [''a''] = Ret (Inr (eg, fs', w)) \<and>
     configChanged demoBacker (\<lambda>conf fs. Ret (Inl ''offline'')) (Inr (demoPolicy, [])) (\<lparr>reConfPath = ''g.yml'', reCurrent = Some eg\<rparr>, fs', w) = Ret (re, fs', w1) \<and>
     \<not> (\<exists>st. configChanged demoBacker (\<lambda>conf fs. demoBoot) (Inr (demoPolicy, [])) (re, fs', w1) = Ret st)"
proof -
  obtain eg fs' w where b: "demoBootWith [''a''] = Ret (Inr (eg, fs', w))" "mapHolds (egResolvers eg) = [HPool ''9.9.9.9'']"
    using demoBootWith_engine(2) by blast
  from reload_after_failed_reload [OF b(1) [unfolded demoBootWith_def], of "\<lambda>conf fs. Ret (Inl ''offline'')" demoPolicy "''offline''" demoBacker "[]" "''g.yml''"] b
  obtain re w1 where "configChanged demoBacker (\<lambda>conf fs. Ret (Inl ''offline'')) (Inr (demoPolicy, [])) (\<lparr>reConfPath = ''g.yml'', reCurrent = Some eg\<rparr>, fs', w) = Ret (re, fs', w1)"
    "\<not> (\<exists>st. configChanged demoBacker (\<lambda>conf fs. demoBoot) (Inr (demoPolicy, [])) (re, fs', w1) = Ret st)"
    by auto
  with b(1) show ?thesis
    by blast
qed

definition demoReload :: "(unit, unit) call" where
  "demoReload l m st = (reloadEvents demoHost ''g.yml'' (Inr (demoPolicy\<lparr>cfLists := replicate 9 (Some demoBlock)\<rparr>, [])) [] True, st)"

theorem large_reload_stops_bus_witness:
  "\<exists>st ls st'. busStep id demoReload (demoBusy [demoEvent], [], ()) (Dispatched demoEvent) st \<and>
     busRun id demoReload st ls st' \<and> dispatchedEvents ls = [] \<and> length ls = 1"
proof -
  let ?out = "reloadEvents demoHost ''g.yml'' (Inr (demoPolicy\<lparr>cfLists := replicate 9 (Some demoBlock)\<rparr>, [])) [] True"
  have turn: "serviceTurn id demoReload demoEvent (bsTopics (demoBusy [demoEvent]), ()) = (?out, bsTopics (demoBusy [demoEvent]), ())"
    by (simp add: serviceTurn_def demoEvent_def demoBusy_def listenersOf_def demoReload_def)
  have d: "busStep id demoReload (demoBusy [demoEvent], [], ()) (Dispatched demoEvent)
      (\<lparr>bsTopics = bsTopics (demoBusy [demoEvent]), bsQueue = []\<rparr>, filter (\<lambda>e. evTopic e \<noteq> []) ?out, ())" (is "busStep _ _ _ _ ?st")
    by (rule busStep.dispatch [OF _ turn]) (simp add: demoBusy_def)
  have "busStep id demoReload ?st (Sent demoEvent) (demoBusy [demoEvent], fst (snd ?st), ())"
    by (simp add: demoBusy_def) (rule busStep.outside; simp add: demoEvent_def Send_def queueSize_def)
  from busRun.more [OF busRun.none this] have run: "busRun id demoReload ?st [Sent demoEvent] (demoBusy [demoEvent], fst (snd ?st), ())"
    by simp
  have "dispatchedEvents [Sent demoEvent] = []"
    by (rule large_reload_stops_bus [OF _ _ _ _ _ _ d run, of "[]" 1 "()" demoHost "''g.yml''" "demoPolicy\<lparr>cfLists := replicate 9 (Some demoBlock)\<rparr>" "[]" "[]" "bsTopics (demoBusy [demoEvent])" "()"])
       (simp_all add: demoBusy_def demoEvent_def listenersOf_def demoReload_def)
  with d run show ?thesis
    by (intro exI [of _ ?st] exI [of _ "[Sent demoEvent]"] exI) simp
qed

end
