(* ===== verification/Provider.thy ===== *)
theory Provider
  imports Reload
begin

text \<open>
  \<^verbatim>\<open>src/provider/provider.go\<close>: which sockets are served and what is written back for a request. Reading and
  writing of datagrams and streams is the DNS library's. Clients come over UDP or TCP.
\<close>

datatype server = Bound string string | PacketSocket string | StreamSocket string

record 'f provider =
  pvEngine :: "'f reloadingEngine option"
  pvServers :: "server list"

definition NewProvider :: "'f reloadingEngine option \<Rightarrow> 'f provider" where
  "NewProvider engine = \<lparr>pvEngine = engine, pvServers = []\<rparr>"

datatype remote = UDPAddr ip | TCPAddr ip

fun remoteIP :: "remote \<Rightarrow> ip" where
  "remoteIP (UDPAddr a) = a"
| "remoteIP (TCPAddr a) = a"

fun remoteProtocol :: "remote \<Rightarrow> string" where
  "remoteProtocol (UDPAddr a) = ''udp''"
| "remoteProtocol (TCPAddr a) = ''tcp''"

text \<open>The message written; a nil message is \<^const>\<open>None\<close>.\<close>

definition handle :: "nat \<Rightarrow> srclib \<Rightarrow> 'f storelib \<Rightarrow> 'b backer \<Rightarrow> 'f provider \<Rightarrow> remote \<Rightarrow> Msg \<Rightarrow> 'b world \<Rightarrow> (Msg option \<times> 'b world) run" where
  "handle n S E B pv client request w = (case pvEngine pv of
       None \<Rightarrow> Ret (Some (errorReply (srcDns S) request RcodeServerFailure), w)
     | Some re \<Rightarrow> bind_run (reloadingHandle n S E B re (remoteIP client) (remoteProtocol client) request w) (\<lambda>(r, w').
         Ret (case r of None \<Rightarrow> None | Some ((p, rc, result), call) \<Rightarrow> deref (wHeap w') (Some p), w')))"

text \<open>
  A socket handed over by systemd: its address as a packet socket and as a stream, where it is one. It is
  closed once it is taken, so no further port is tried.
\<close>

record fileSocket =
  fsPacket :: "string option"
  fsStream :: "string option"

definition hasPort :: "32 word \<Rightarrow> string option \<Rightarrow> bool" where
  "hasPort port local = (case local of None \<Rightarrow> False | Some a \<Rightarrow> HasSuffix a ('':'' @ Itoa (unat port)))"

fun takeSocket :: "32 word list \<Rightarrow> fileSocket \<Rightarrow> server list" where
  "takeSocket [] f = []"
| "takeSocket (port # ports) f =
     (if hasPort port (fsPacket f) then [PacketSocket (the (fsPacket f))]
      else if hasPort port (fsStream f) then [StreamSocket (the (fsStream f))]
      else takeSocket ports f)"

fun bindInterfaces :: "GudgeonInterface list \<Rightarrow> server list run" where
  "bindInterfaces [] = Ret []"
| "bindInterfaces (i # is) =
     (let listen = ifIP i @ '':'' @ Itoa (nat (ifPort i)) in
      case (ifTCP i, ifUDP i) of
        (Some t, Some u) \<Rightarrow> bind_run (bindInterfaces is) (\<lambda>rest.
          Ret ((if t then [Bound ''tcp'' listen] else []) @ (if u then [Bound ''udp'' listen] else []) @ rest))
      | _ \<Rightarrow> Panic)"

definition Host :: "GudgeonNetwork \<Rightarrow> GudgeonSystemd \<Rightarrow> fileSocket list \<Rightarrow> 'f reloadingEngine option \<Rightarrow> 'f provider \<Rightarrow> 'f provider run" where
  "Host net systemd activated engine pv = (case sdEnabled systemd of
       None \<Rightarrow> Panic
     | Some enabled \<Rightarrow>
         (let sockets = (if enabled then activated else []) in
          if nwInterfaces net = [] \<and> enabled \<and> sockets = [] then Ret pv
          else
            (let pv1 = (case engine of None \<Rightarrow> pv | Some re \<Rightarrow> pv\<lparr>pvEngine := Some re\<rparr>) in
             bind_run (if enabled \<and> sockets \<noteq> [] then
                 (case sdDnsPorts systemd of None \<Rightarrow> Panic | Some ports \<Rightarrow> Ret (concat (map (takeSocket ports) sockets)))
               else Ret []) (\<lambda>taken.
             bind_run (bindInterfaces (nwInterfaces net)) (\<lambda>bound.
               Ret (pv1\<lparr>pvServers := pvServers pv1 @ taken @ bound\<rparr>))))))"

section \<open>What the provider relies on\<close>

text \<open>
  The interface \<open>Engine\<close> as its clients see it: the message a request is answered with, and which requests the
  rules of an address block. Its law is that a blocked request is answered with an error reply.
\<close>

locale dns_engine =
  fixes D :: dnslib and answer :: "ip \<Rightarrow> string \<Rightarrow> Msg \<Rightarrow> 'w \<Rightarrow> (Msg option \<times> 'w) run" and blocks :: "ip \<Rightarrow> Msg \<Rightarrow> bool"
  assumes blocked_reply: "blocks address request \<Longrightarrow> \<exists>w'. answer address protocol request w = Ret (Some (errorReply D request RcodeNameError), w')"
    and blocked_question: "blocks address request \<Longrightarrow> msgQuestion request \<noteq> []"
begin

lemma blocked_on_the_wire:
  assumes "SetReply_ok D" "blocks address request"
  shows "\<exists>m w'. answer address protocol request w = Ret (Some m, w') \<and> msgRcode m = RcodeNameError \<and> msgAnswer m = [] \<and>
    msgId m = msgId request \<and> msgQuestion m = [hd (msgQuestion request)]"
  using blocked_reply [OF assms(2), of protocol w] errorReply_simps [OF assms(1), of request] blocked_question [OF assms(2)] by auto

end

definition written :: "(((ptr \<times> requestContext option \<times> resolutionResult) \<times> recorderCall option) \<times> 'b world) run \<Rightarrow> (Msg option \<times> 'b world) run" where
  "written r = bind_run r (\<lambda>(((p, rc, result), call), w'). Ret (deref (wHeap w') (Some p), w'))"

definition ruleBlocks :: "'f storelib \<Rightarrow> 'f engine \<Rightarrow> ip \<Rightarrow> Msg \<Rightarrow> bool" where
  "ruleBlocks E eg address request \<longleftrightarrow> validRequest request \<and> (\<exists>c l t. getConsumerForIP eg address = Some c \<and> \<not> csBlock (ecConfig c) \<and>
     domainRuleMatchedForGroups E eg (getGroups (Some c)) (Qname (hd (msgQuestion request))) = (MatchBlock, l, t))"

lemma ruleBlocks_reply:
  assumes "ruleBlocks E eg address request"
  shows "\<exists>w'. written (Handle n S E B eg address protocol request w) = Ret (Some (errorReply (srcDns S) request RcodeNameError), w')"
proof -
  obtain c l t where c: "validRequest request" "getConsumerForIP eg address = Some c" "\<not> csBlock (ecConfig c)"
    "domainRuleMatchedForGroups E eg (getGroups (Some c)) (Qname (hd (msgQuestion request))) = (MatchBlock, l, t)"
    using assms by (auto simp: ruleBlocks_def)
  let ?rCon = "\<lparr>rqStarted = clock S (wTick w), rqProtocol = protocol, rqGroups = []\<rparr>"
  obtain rc where "groupsWith S E eg (HandleWithResolvers n S E B eg) (getGroups (Some c)) (Some ?rCon) request (tickW w) =
      Ret ((length (wHeap (tickW w)), Some rc, emptyResult\<lparr>rrMatch := MatchBlock, rrMatchList := l, rrMatchRule := t\<rparr>),
         (tickW w)\<lparr>wHeap := wHeap (tickW w) @ [errorReply (srcDns S) request RcodeNameError]\<rparr>)"
    using groupsWith_blocked [OF c(1,4)] by blast
  then show ?thesis
    using c(2,3) by (auto simp: written_def Handle_def HandleWithConsumer_def HandleWithGroups_def Let_def deref_def tickW_def)
qed

lemma ruleBlocks_question: "ruleBlocks E eg address request \<Longrightarrow> msgQuestion request \<noteq> []"
  using validRequest_question by (auto simp: ruleBlocks_def)

text \<open>Both engines of the program keep the contract: the engine itself and the one that reloads.\<close>

interpretation plainEngine: dns_engine "srcDns S" "\<lambda>address protocol request w. written (Handle n S E B eg address protocol request w)" "ruleBlocks E eg"
  for n and S :: srclib and E :: "'f storelib" and B :: "'b backer" and eg :: "'f engine"
  by unfold_locales (auto intro: ruleBlocks_reply dest: ruleBlocks_question)

interpretation reloading: dns_engine "srcDns S" "\<lambda>address protocol request w. handle n S E B (NewProvider (Some re)) (if protocol = ''udp'' then UDPAddr address else TCPAddr address) request w"
    "\<lambda>address request. onCurrent False (\<lambda>eg. ruleBlocks E eg address request) re"
  for n and S :: srclib and E :: "'f storelib" and B :: "'b backer" and re :: "'f reloadingEngine"
proof
  fix address request protocol and w :: "'b world"
  let ?client = "if protocol = ''udp'' then UDPAddr address else TCPAddr address"
  assume "onCurrent False (\<lambda>eg. ruleBlocks E eg address request) re"
  then obtain eg where eg: "reCurrent re = Some eg" "ruleBlocks E eg address request"
    by (auto simp: onCurrent_def split: option.splits)
  then obtain w' where "written (Handle n S E B eg address (remoteProtocol ?client) request w) = Ret (Some (errorReply (srcDns S) request RcodeNameError), w')"
    using ruleBlocks_reply by blast
  then show "\<exists>w'. handle n S E B (NewProvider (Some re)) ?client request w = Ret (Some (errorReply (srcDns S) request RcodeNameError), w')"
    using eg(1) by (cases "Handle n S E B eg address (remoteProtocol ?client) request w")
      (auto simp: handle_def NewProvider_def reloadingHandle_def onCurrent_def written_def split: if_splits)
  show "msgQuestion request \<noteq> []"
    using ruleBlocks_question [OF eg(2)] .
qed

section \<open>Properties\<close>

text \<open>
  C6. What goes back over the wire for a blocked domain: a client of the provider, over UDP or TCP, whose
  consumer's groups have a rule that blocks the domain it asks for, is sent a message with the id and the
  question of its request, the code NXDOMAIN and no answer; a provider without an engine says SERVFAIL.
\<close>

theorem blocked_request_answered:
  assumes "SetReply_ok (srcDns S)" "validRequest request" "reCurrent re = Some eg" "getConsumerForIP eg (remoteIP client) = Some c"
    and "\<not> csBlock (ecConfig c)"
    and "domainRuleMatchedForGroups E eg (getGroups (Some c)) (Qname (hd (msgQuestion request))) = (MatchBlock, l, t)"
  shows "(\<exists>m w'. handle n S E B (NewProvider (Some re)) client request w = Ret (Some m, w') \<and> msgRcode m = RcodeNameError \<and>
      msgAnswer m = [] \<and> msgId m = msgId request \<and> msgQuestion m = [hd (msgQuestion request)]) \<and>
    (\<exists>f. handle n S E B (NewProvider None) client request w = Ret (Some f, w) \<and> msgRcode f = RcodeServerFailure \<and> msgId f = msgId request)"
proof -
  have "onCurrent False (\<lambda>eg. ruleBlocks E eg (remoteIP client) request) re"
    using assms(2-6) by (simp add: onCurrent_def ruleBlocks_def)
  from reloading.blocked_on_the_wire [OF assms(1) this, of n B "remoteProtocol client" w]
  have "\<exists>m w'. handle n S E B (NewProvider (Some re)) client request w = Ret (Some m, w') \<and> msgRcode m = RcodeNameError \<and>
      msgAnswer m = [] \<and> msgId m = msgId request \<and> msgQuestion m = [hd (msgQuestion request)]"
    by (cases client) simp_all
  then show ?thesis
    using errorReply_simps [OF assms(1), of request] by (auto simp: handle_def NewProvider_def)
qed

theorem blocked_request_answered_witness:
  "\<exists>m w'. handle 0 demoSrc demoEnv demoBacker (NewProvider (Some \<lparr>reConfPath = ''g.yml'', reCurrent = Some (demoEngine False [])\<rparr>))
     (UDPAddr [10, 1, 2, 3]) (demoQuery ''x.ads.com.'') (newWorld None) = Ret (Some m, w') \<and> msgRcode m = RcodeNameError"
proof -
  have "validRequest (demoQuery ''x.ads.com.'')" "getConsumerForIP (demoEngine False []) (remoteIP (UDPAddr [10, 1, 2, 3])) = Some (demoConsumer False)"
    "\<not> csBlock (ecConfig (demoConsumer False))"
    "domainRuleMatchedForGroups demoEnv (demoEngine False []) (getGroups (Some (demoConsumer False))) (Qname (hd (msgQuestion (demoQuery ''x.ads.com.'')))) = (MatchBlock, Some demoBlock, ''ads.com'')"
    by code_simp+
  from blocked_request_answered [OF _ this(1) _ this(2-4), of demoSrc "\<lparr>reConfPath = ''g.yml'', reCurrent = Some (demoEngine False [])\<rparr>" 0 demoBacker "newWorld None"]
    demoDns_ok show ?thesis
    by (auto simp: demoSrc_def)
qed

end
