(* ===== verification/Recorder.thy ===== *)
theory Recorder
  imports Engine_Facts Metrics_Facts "HOL-Library.AList"
begin

text \<open>
  \<^verbatim>\<open>src/engine/recorder.go\<close> and the tables of \<^verbatim>\<open>src/engine/metrics_details.go\<close>: queries are queued by the engine,
  completed by a worker, put into a buffer table, written to the query log, counted, and moved from the
  buffer to the long-term tables from time to time.

  The worker is a function of the event its \<open>select\<close> takes. Tables are lists of rows; whether a statement
  succeeds is part of the event. A transaction that cannot be committed leaves the tables alone. The
  lookups of client names are parameters; a cached name is forgotten by an event of its own.
\<close>

section \<open>State\<close>

record bufferRow =
  bfAddress :: string
  bfClientName :: string
  bfConsumer :: string
  bfRequestDomain :: string
  bfRequestType :: string
  bfResponseText :: string
  bfRcode :: string
  bfBlocked :: bool
  bfMatch :: Match
  bfMatchList :: string
  bfMatchListShort :: string
  bfMatchRule :: string
  bfCached :: bool
  bfServiceTime :: int
  bfCreated :: int
  bfEndTime :: int

text \<open>The tables of \<open>metrics_details.go\<close>: counts by key, names of lists and of clients.\<close>

record details =
  dtClients :: "(string \<times> nat) list"
  dtDomains :: "(string \<times> nat) list"
  dtTypes :: "(string \<times> nat) list"
  dtLists :: "(string \<times> nat) list"
  dtListNames :: "(string \<times> string) list"
  dtRules :: "((string \<times> string) \<times> nat) list"
  dtClientNames :: "(string \<times> string) list"

record nameLookup =
  nlReverse :: bool
  nlMdns :: bool
  nlNetbios :: bool
  nlReadMdns :: "string \<Rightarrow> string"
  nlEngineReverse :: "string \<Rightarrow> string"
  nlNetbiosName :: "string \<Rightarrow> string"

text \<open>
  \<open>rcQueue\<close> is \<^const>\<open>None\<close> once the channel field is nil. \<open>rcQlog\<close> is the duration that a query log keeps its
  rows, if there is one.
\<close>

record recorder =
  rcQueue :: "InfoRecord list option"
  rcDb :: bool
  rcQlog :: "int option"
  rcMetrics :: "metrics option"
  rcNames :: "(string \<times> string) list"
  rcBuffer :: "bufferRow list"
  rcLog :: "bufferRow list"
  rcRows :: "metricsRow list"
  rcDetails :: details

definition recordQueueSize :: nat where
  "recordQueueSize = 100"

section \<open>Queueing and completing a record\<close>

text \<open>
  \<open>queue\<close>: the record taken from the pool is cleared and filled, so nothing is left of its earlier use but
  the client name, which \<open>condition\<close> sets. Milliseconds are truncated; \<open>now\<close> stands for a missing time.
\<close>

definition infoClear :: "InfoRecord \<Rightarrow> InfoRecord" where
  "infoClear r = r\<lparr>irConsumer := [], irConnectionType := [], irRequestDomain := [], irRequestType := [], irResponseText := [],
     irRcode := [], irBlocked := False, irMatch := MatchNone, irMatchList := [], irMatchListShort := [], irMatchRule := [], irCached := False\<rparr>"

definition queueRecord :: "InfoRecord \<Rightarrow> recorderCall \<Rightarrow> int \<Rightarrow> InfoRecord" where
  "queueRecord pooled call now =
     (let created = (case rlContext call of None \<Rightarrow> now | Some rc \<Rightarrow> rqStarted rc) in
      (infoClear pooled)\<lparr>irAddress := IP_String (rlAddress call), irRequest := Some (rlRequest call), irResponse := rlResponse call,
        irResult := Some (rlResult call), irRequestContext := rlContext call, irCreated := created, irFinished := rlFinished call,
        irServiceMilliseconds := goDiv (rlFinished call - created) 1000000\<rparr>)"

definition queue :: "InfoRecord \<Rightarrow> recorderCall \<Rightarrow> int \<Rightarrow> recorder \<Rightarrow> recorder option" where
  "queue pooled call now rc = (case rcQueue rc of
       None \<Rightarrow> Some rc
     | Some q \<Rightarrow> if length q < recordQueueSize then Some (rc\<lparr>rcQueue := Some (q @ [queueRecord pooled call now])\<rparr>) else None)"

definition reverseLookup :: "nameLookup \<Rightarrow> string \<Rightarrow> (string \<times> string) list \<Rightarrow> string \<times> (string \<times> string) list" where
  "reverseLookup L address names =
     (if \<not> nlReverse L then ([], names)
      else case map_of names address of
        Some name \<Rightarrow> (name, names)
      | None \<Rightarrow>
          (let mdns = (if nlMdns L then nlReadMdns L address else []) in
           if mdns \<noteq> [] then (mdns, names)
           else
             (let reversed = nlEngineReverse L address;
                  name = (if HasSuffix reversed ''.'' then butlast reversed else reversed);
                  name' = (if nlNetbios L \<and> name = [] then nlNetbiosName L address else name)
              in (name', AList.update address name' names))))"

text \<open>\<open>rcodeText\<close> is \<open>dns.RcodeToString\<close>.\<close>

definition conditionRequest :: "dnslib \<Rightarrow> InfoRecord \<Rightarrow> InfoRecord" where
  "conditionRequest D info = (case irRequest info of
       Some r \<Rightarrow> (case msgQuestion r of
          q # _ \<Rightarrow> info\<lparr>irRequestDomain := Qname q, irRequestType := TypeString D (Qtype q)\<rparr>
        | [] \<Rightarrow> info)
     | None \<Rightarrow> info)"

definition conditionResponse :: "dnslib \<Rightarrow> (int \<Rightarrow> string) \<Rightarrow> InfoRecord \<Rightarrow> InfoRecord" where
  "conditionResponse D rcodeText info = (case irResponse info of
       None \<Rightarrow> info
     | Some r \<Rightarrow>
         (let values = GetAnswerValues D (Some r);
              info1 = (case values of v # _ \<Rightarrow> info\<lparr>irResponseText := v\<rparr> | [] \<Rightarrow> info)
          in info1\<lparr>irRcode := rcodeText (msgRcode r)\<rparr>))"

definition conditionResult :: "InfoRecord \<Rightarrow> InfoRecord" where
  "conditionResult info = (case irResult info of
       None \<Rightarrow> info
     | Some res \<Rightarrow>
         (let info1 = info\<lparr>irConsumer := rrConsumer res\<rparr>;
              info2 = (if rrBlocked res then info1\<lparr>irBlocked := True\<rparr> else info1);
              info3 = (if rrCached res then info2\<lparr>irCached := True\<rparr> else info2);
              info4 = info3\<lparr>irMatch := rrMatch res\<rparr>
          in if rrMatch res \<noteq> MatchNone then
               (let info5 = (case rrMatchList res of
                      None \<Rightarrow> info4
                    | Some l \<Rightarrow> info4\<lparr>irMatchList := CanonicalName l, irMatchListShort := ShortName l\<rparr>)
                in info5\<lparr>irMatchRule := rrMatchRule res\<rparr>)
             else info4))"

definition condition :: "dnslib \<Rightarrow> (int \<Rightarrow> string) \<Rightarrow> nameLookup \<Rightarrow> InfoRecord \<Rightarrow> (string \<times> string) list \<Rightarrow> InfoRecord \<times> (string \<times> string) list" where
  "condition D rcodeText L info names =
     (let info1 = conditionResult (conditionResponse D rcodeText (conditionRequest D info));
          info2 = (case irRequestContext info1 of None \<Rightarrow> info1 | Some rc \<Rightarrow> info1\<lparr>irConnectionType := rqProtocol rc\<rparr>);
          (name, names') = reverseLookup L (irAddress info2) names
      in (info2\<lparr>irClientName := name\<rparr>, names'))"

section \<open>The tables\<close>

definition bufferOf :: "InfoRecord \<Rightarrow> bufferRow" where
  "bufferOf i = \<lparr>bfAddress = irAddress i, bfClientName = irClientName i, bfConsumer = irConsumer i, bfRequestDomain = irRequestDomain i,
     bfRequestType = irRequestType i, bfResponseText = irResponseText i, bfRcode = irRcode i, bfBlocked = irBlocked i, bfMatch = irMatch i,
     bfMatchList = irMatchList i, bfMatchListShort = irMatchListShort i, bfMatchRule = irMatchRule i, bfCached = irCached i,
     bfServiceTime = irServiceMilliseconds i, bfCreated = irCreated i, bfEndTime = irFinished i\<rparr>"

definition buffer :: "bool \<Rightarrow> InfoRecord \<Rightarrow> recorder \<Rightarrow> recorder" where
  "buffer ok info rc = (if ok then rc\<lparr>rcBuffer := rcBuffer rc @ [bufferOf info]\<rparr> else rc)"

text \<open>\<open>INSERT \<dots> SELECT key, 1 FROM buffer \<dots> ON CONFLICT DO UPDATE SET Count = Count + 1\<close>\<close>

definition bump :: "'k \<Rightarrow> ('k \<times> nat) list \<Rightarrow> ('k \<times> nat) list" where
  "bump k t = AList.update k (case map_of t k of None \<Rightarrow> 1 | Some n \<Rightarrow> Suc n) t"

definition bumpAll :: "'k list \<Rightarrow> ('k \<times> nat) list \<Rightarrow> ('k \<times> nat) list" where
  "bumpAll ks t = fold bump ks t"

definition keepFirst :: "(string \<times> string) list \<Rightarrow> (string \<times> string) list \<Rightarrow> (string \<times> string) list" where
  "keepFirst new t = fold (\<lambda>(k, v) t. if map_of t k = None then AList.update k v t else t) new t"

text \<open>
  The last statement: the longest of the names in the buffer and the one that is there; \<open>pick\<close> is the choice
  among equally long ones.
\<close>

definition longestName :: "(string list \<Rightarrow> string) \<Rightarrow> bufferRow list \<Rightarrow> string \<times> string \<Rightarrow> string \<times> string" where
  "longestName pick rows entry = (case entry of (address, name) \<Rightarrow>
     (let names = filter (\<lambda>n. n \<noteq> []) (map bfClientName (filter (\<lambda>r. bfAddress r = address) rows) @ [name]) in
      (address, pick (filter (\<lambda>n. list_all (\<lambda>n'. length n' \<le> length n) names) names))))"

definition metricsFlush :: "(string list \<Rightarrow> string) \<Rightarrow> bufferRow list \<Rightarrow> details \<Rightarrow> details" where
  "metricsFlush pick rows d =
     (let hits = filter (\<lambda>r. bfMatchListShort r \<noteq> []) rows;
          d1 = d\<lparr>dtLists := bumpAll (map bfMatchListShort hits) (dtLists d),
                 dtListNames := keepFirst (map (\<lambda>r. (bfMatchListShort r, bfMatchList r)) hits) (dtListNames d)\<rparr>;
          d2 = d1\<lparr>dtRules := bumpAll (map (\<lambda>r. (bfMatchListShort r, bfMatchRule r))
                 (filter (\<lambda>r. map_of (dtLists d1) (bfMatchListShort r) \<noteq> None \<and> bfMatchRule r \<noteq> []) rows)) (dtRules d1)\<rparr>;
          d3 = d2\<lparr>dtClients := bumpAll (map bfAddress rows) (dtClients d2), dtDomains := bumpAll (map bfRequestDomain rows) (dtDomains d2),
                 dtTypes := bumpAll (map bfRequestType rows) (dtTypes d2),
                 dtClientNames := keepFirst (map (\<lambda>r. (bfAddress r, bfClientName r)) (filter (\<lambda>r. bfClientName r \<noteq> []) rows)) (dtClientNames d2)\<rparr>
      in d3\<lparr>dtClientNames := map (longestName pick rows) (dtClientNames d3)\<rparr>)"

text \<open>
  \<open>flush\<close>: \<open>logOk\<close> tells whether the insert into the query log succeeds, \<open>deleteOk\<close> whether the buffer can be
  emptied; an error of either is logged and the transaction goes on. The insert copies every column but
  the short name of the list.
\<close>

definition logRow :: "bufferRow \<Rightarrow> bufferRow" where
  "logRow r = r\<lparr>bfMatchListShort := []\<rparr>"

definition flush :: "(string list \<Rightarrow> string) \<Rightarrow> bool \<Rightarrow> bool \<Rightarrow> bool \<Rightarrow> recorder \<Rightarrow> recorder" where
  "flush pick logOk deleteOk commitOk rc =
     (if \<not> rcDb rc \<or> \<not> commitOk then rc
      else
        (let rc1 = (case rcQlog rc of
               None \<Rightarrow> rc
             | Some d \<Rightarrow> if logOk then rc\<lparr>rcLog := rcLog rc @ map logRow (rcBuffer rc)\<rparr> else rc);
             rc2 = (case rcMetrics rc1 of
               None \<Rightarrow> rc1
             | Some m \<Rightarrow> rc1\<lparr>rcDetails := metricsFlush pick (rcBuffer rc1) (rcDetails rc1)\<rparr>)
         in if deleteOk then rc2\<lparr>rcBuffer := []\<rparr> else rc2))"

definition prune :: "bool \<Rightarrow> int \<Rightarrow> recorder \<Rightarrow> recorder" where
  "prune commitOk now rc =
     (if \<not> rcDb rc \<or> \<not> commitOk then rc
      else
        (let rc1 = (case rcQlog rc of
               None \<Rightarrow> rc
             | Some d \<Rightarrow> rc\<lparr>rcLog := filter (\<lambda>r. \<not> bfCreated r \<le> now - d) (rcLog rc)\<rparr>)
         in case rcMetrics rc1 of
              None \<Rightarrow> rc1
            | Some m \<Rightarrow> rc1\<lparr>rcRows := fst (pruneMetrics now (rcRows rc1, m))\<rparr>))"

section \<open>The worker\<close>

datatype workerEvent =
    MetricsTick "procInfo option" procInfo int bool int
  | Info bool
  | FlushTimer bool bool bool
  | PruneTimer bool int
  | Forget string

definition metricsTick :: "procInfo option \<Rightarrow> procInfo \<Rightarrow> int \<Rightarrow> bool \<Rightarrow> int \<Rightarrow> recorder \<Rightarrow> recorder" where
  "metricsTick proc rt entries ok now rc = (case rcMetrics rc of
       None \<Rightarrow> rc
     | Some m0 \<Rightarrow>
         (let m = update proc rt entries m0 in
          if rcDb rc then (case insertMetrics ok now (rcRows rc, m) of (rows, m') \<Rightarrow> rc\<lparr>rcRows := rows, rcMetrics := Some m'\<rparr>)
          else rc\<lparr>rcMetrics := Some m\<rparr>))"

definition workInfo :: "dnslib \<Rightarrow> (int \<Rightarrow> string) \<Rightarrow> nameLookup \<Rightarrow> bool \<Rightarrow> recorder \<Rightarrow> recorder" where
  "workInfo D rcodeText L ok rc = (case rcQueue rc of
       Some (info0 # rest) \<Rightarrow>
         (let (info, names) = condition D rcodeText L info0 (rcNames rc);
              rc1 = rc\<lparr>rcQueue := Some rest, rcNames := names\<rparr>;
              rc2 = (if rcDb rc1 then buffer ok info rc1 else rc1)
          in rc2\<lparr>rcMetrics := map_option (recordMetrics info) (rcMetrics rc2)\<rparr>)
     | _ \<Rightarrow> rc)"

fun workerStep :: "dnslib \<Rightarrow> (int \<Rightarrow> string) \<Rightarrow> nameLookup \<Rightarrow> (string list \<Rightarrow> string) \<Rightarrow> workerEvent \<Rightarrow> recorder \<Rightarrow> recorder" where
  "workerStep D rcodeText L pick (MetricsTick proc rt entries ok now) rc = metricsTick proc rt entries ok now rc"
| "workerStep D rcodeText L pick (Info ok) rc = workInfo D rcodeText L ok rc"
| "workerStep D rcodeText L pick (FlushTimer logOk deleteOk commitOk) rc = flush pick logOk deleteOk commitOk rc"
| "workerStep D rcodeText L pick (PruneTimer commitOk now) rc = prune commitOk now rc"
| "workerStep D rcodeText L pick (Forget address) rc = rc\<lparr>rcNames := AList.delete address (rcNames rc)\<rparr>"

text \<open>\<open>shutdown\<close>: the worker stops where it is and what is buffered is flushed and pruned once more.\<close>

definition shutdown :: "(string list \<Rightarrow> string) \<Rightarrow> bool \<Rightarrow> bool \<Rightarrow> bool \<Rightarrow> bool \<Rightarrow> int \<Rightarrow> recorder \<Rightarrow> recorder" where
  "shutdown pick logOk deleteOk commitOk pruneOk now rc =
     prune pruneOk now (flush pick logOk deleteOk commitOk (rc\<lparr>rcQueue := None\<rparr>))"

definition NewRecorder :: "(string list \<Rightarrow> string) \<Rightarrow> bool \<Rightarrow> int option \<Rightarrow> metrics option \<Rightarrow> bufferRow list \<Rightarrow> bufferRow list \<Rightarrow> metricsRow list
    \<Rightarrow> details \<Rightarrow> int \<Rightarrow> recorder" where
  "NewRecorder pick db qlog metrics buffered logged rows d now =
     (let rc = \<lparr>rcQueue = Some [], rcDb = db, rcQlog = qlog, rcMetrics = metrics, rcNames = [], rcBuffer = buffered, rcLog = logged,
                rcRows = rows, rcDetails = d\<rparr>
      in if db then prune True now (flush pick True True True rc) else rc)"

section \<open>Nothing is lost\<close>

definition rowAdded :: "dnslib \<Rightarrow> (int \<Rightarrow> string) \<Rightarrow> nameLookup \<Rightarrow> workerEvent \<Rightarrow> recorder \<Rightarrow> bufferRow list" where
  "rowAdded D rcodeText L e rc = (case (e, rcQueue rc) of
       (Info True, Some (i # _)) \<Rightarrow> if rcDb rc then [bufferOf (fst (condition D rcodeText L i (rcNames rc)))] else []
     | _ \<Rightarrow> [])"

fun workerRun :: "dnslib \<Rightarrow> (int \<Rightarrow> string) \<Rightarrow> nameLookup \<Rightarrow> (string list \<Rightarrow> string) \<Rightarrow> workerEvent list \<Rightarrow> recorder \<Rightarrow> recorder \<times> bufferRow list" where
  "workerRun D rcodeText L pick [] rc = (rc, [])"
| "workerRun D rcodeText L pick (e # es) rc =
     (let (rc', rows) = workerRun D rcodeText L pick es (workerStep D rcodeText L pick e rc) in (rc', rowAdded D rcodeText L e rc @ rows))"

definition tally :: "('k \<times> nat) list \<Rightarrow> 'k \<Rightarrow> nat" where
  "tally t k = (case map_of t k of None \<Rightarrow> 0 | Some n \<Rightarrow> n)"

lemma tally_bump: "tally (bump j t) k = tally t k + (if k = j then 1 else 0)"
  by (auto simp: tally_def bump_def update_conv' split: option.splits)

lemma tally_bumpAll: "tally (bumpAll ks t) k = tally t k + count_list ks k"
  unfolding bumpAll_def by (induction ks arbitrary: t) (auto simp: tally_bump)

text \<open>Flushes that are committed have moved the rows and emptied the buffer; nothing is pruned.\<close>

fun keepsRows :: "workerEvent \<Rightarrow> bool" where
  "keepsRows (FlushTimer logOk deleteOk commitOk) = (commitOk \<longrightarrow> logOk \<and> deleteOk)"
| "keepsRows (PruneTimer commitOk now) = False"
| "keepsRows e = True"

definition loggedTotal :: "recorder \<Rightarrow> bufferRow list" where
  "loggedTotal rc = rcLog rc @ map logRow (rcBuffer rc)"

definition countedTotal :: "(details \<Rightarrow> ('k \<times> nat) list) \<Rightarrow> (bufferRow \<Rightarrow> 'k) \<Rightarrow> 'k \<Rightarrow> recorder \<Rightarrow> nat" where
  "countedTotal tbl key k rc = tally (tbl (rcDetails rc)) k + count_list (map key (rcBuffer rc)) k"

lemma metricsTick_tables [simp]:
  "rcLog (metricsTick proc rt n ok now rc) = rcLog rc" "rcBuffer (metricsTick proc rt n ok now rc) = rcBuffer rc"
  "rcDetails (metricsTick proc rt n ok now rc) = rcDetails rc" "rcQlog (metricsTick proc rt n ok now rc) = rcQlog rc"
  "(rcMetrics (metricsTick proc rt n ok now rc) = None) = (rcMetrics rc = None)"
  by (auto simp: metricsTick_def Let_def split: option.splits prod.splits)

lemma workInfo_tables [simp]:
  "rcLog (workInfo D rcodeText L ok rc) = rcLog rc" "rcDetails (workInfo D rcodeText L ok rc) = rcDetails rc"
  "rcQlog (workInfo D rcodeText L ok rc) = rcQlog rc" "(rcMetrics (workInfo D rcodeText L ok rc) = None) = (rcMetrics rc = None)"
  by (auto simp: workInfo_def buffer_def Let_def split: option.splits list.splits prod.splits)

lemma workInfo_buffer: "rcBuffer (workInfo D rcodeText L ok rc) = rcBuffer rc @ rowAdded D rcodeText L (Info ok) rc"
  by (auto simp: workInfo_def rowAdded_def buffer_def Let_def case_prod_beta split: option.splits list.splits bool.splits)

lemma flush_total:
  assumes "keepsRows (FlushTimer logOk deleteOk commitOk)" "rcQlog rc \<noteq> None"
  shows "loggedTotal (flush pick logOk deleteOk commitOk rc) = loggedTotal rc"
  using assms by (auto simp: flush_def loggedTotal_def Let_def split: option.splits)

lemma flush_config [simp]:
  "rcQlog (flush pick logOk deleteOk commitOk rc) = rcQlog rc" "rcMetrics (flush pick logOk deleteOk commitOk rc) = rcMetrics rc"
  by (auto simp: flush_def Let_def split: option.splits)

lemma flush_counted:
  assumes "keepsRows (FlushTimer logOk deleteOk commitOk)" "rcMetrics rc \<noteq> None"
    and "\<And>rows d. tbl (metricsFlush pick rows d) = bumpAll (map key rows) (tbl d)"
  shows "countedTotal tbl key k (flush pick logOk deleteOk commitOk rc) = countedTotal tbl key k rc"
  using assms by (auto simp: flush_def countedTotal_def Let_def tally_bumpAll split: option.splits)

lemma metricsFlush_tables:
  "dtDomains (metricsFlush pick rows d) = bumpAll (map bfRequestDomain rows) (dtDomains d)"
  "dtClients (metricsFlush pick rows d) = bumpAll (map bfAddress rows) (dtClients d)"
  "dtTypes (metricsFlush pick rows d) = bumpAll (map bfRequestType rows) (dtTypes d)"
  by (simp_all add: metricsFlush_def Let_def)

lemma rowAdded_other [simp]:
  "rowAdded D rcodeText L (MetricsTick proc rt n ok now) rc = []" "rowAdded D rcodeText L (Forget a) rc = []"
  "rowAdded D rcodeText L (FlushTimer x y z) rc = []"
  by (simp_all add: rowAdded_def)

lemma workerStep_total:
  assumes "keepsRows e" "rcQlog rc \<noteq> None"
  shows "loggedTotal (workerStep D rcodeText L pick e rc) = loggedTotal rc @ map logRow (rowAdded D rcodeText L e rc)"
proof (cases e)
  case (FlushTimer a b c)
  then show ?thesis
    using flush_total [of a b c rc] assms by simp
qed (use assms in \<open>simp_all add: loggedTotal_def workInfo_buffer\<close>)

lemma workerStep_counted:
  assumes "keepsRows e" "rcMetrics rc \<noteq> None" "\<And>rows d. tbl (metricsFlush pick rows d) = bumpAll (map key rows) (tbl d)"
  shows "countedTotal tbl key k (workerStep D rcodeText L pick e rc) = countedTotal tbl key k rc + count_list (map key (rowAdded D rcodeText L e rc)) k"
proof (cases e)
  case (FlushTimer a b c)
  then show ?thesis
    using flush_counted [of a b c rc tbl pick key k] assms by simp
qed (use assms in \<open>simp_all add: countedTotal_def workInfo_buffer\<close>)

lemma workerStep_config:
  "keepsRows e \<Longrightarrow> rcQlog (workerStep D rcodeText L pick e rc) = rcQlog rc \<and> (rcMetrics (workerStep D rcodeText L pick e rc) = None) = (rcMetrics rc = None)"
  by (cases e) simp_all

lemma workerRun_total:
  assumes "\<forall>e \<in> set es. keepsRows e" "rcQlog rc \<noteq> None" "workerRun D rcodeText L pick es rc = (rc', rows)"
  shows "loggedTotal rc' = loggedTotal rc @ map logRow rows"
  using assms
proof (induction es arbitrary: rc rows)
  case (Cons e es)
  then obtain rows' where r: "workerRun D rcodeText L pick es (workerStep D rcodeText L pick e rc) = (rc', rows')" "rows = rowAdded D rcodeText L e rc @ rows'"
    by (auto simp: Let_def split: prod.splits)
  show ?case
    using Cons.IH [OF _ _ r(1)] Cons.prems r(2) workerStep_config [of e D rcodeText L pick rc] workerStep_total [of e rc] by simp
qed simp

lemma workerRun_counted:
  assumes "\<forall>e \<in> set es. keepsRows e" "rcMetrics rc \<noteq> None" "workerRun D rcodeText L pick es rc = (rc', rows)"
    and "\<And>rows d. tbl (metricsFlush pick rows d) = bumpAll (map key rows) (tbl d)"
  shows "countedTotal tbl key k rc' = countedTotal tbl key k rc + count_list (map key rows) k"
  using assms(1-3)
proof (induction es arbitrary: rc rows)
  case (Cons e es)
  then obtain rows' where r: "workerRun D rcodeText L pick es (workerStep D rcodeText L pick e rc) = (rc', rows')" "rows = rowAdded D rcodeText L e rc @ rows'"
    by (auto simp: Let_def split: prod.splits)
  show ?case
    using Cons.IH [OF _ _ r(1)] Cons.prems r(2) workerStep_config [of e D rcodeText L pick rc] workerStep_counted [of e rc tbl pick key k, OF _ _ assms(4)] by simp
qed simp

section \<open>Properties\<close>

text \<open>
  C9. The recorder keeps books on every query it works on: as long as committed flushes moved their rows
  and nothing is pruned, the query log followed by the buffer holds exactly the rows of the queries, in
  order, and the tables of domains, clients and query types together with the buffer count them,
  whatever the order of queries, metric ticks, flushes and failed transactions.
\<close>

theorem recorder_keeps_books:
  assumes "\<forall>e \<in> set es. keepsRows e" "rcQlog rc \<noteq> None" "rcMetrics rc \<noteq> None" "workerRun D rcodeText L pick es rc = (rc', rows)"
  shows "rcLog rc' @ map logRow (rcBuffer rc') = rcLog rc @ map logRow (rcBuffer rc @ rows) \<and>
    tally (dtDomains (rcDetails rc')) k + count_list (map bfRequestDomain (rcBuffer rc')) k =
      tally (dtDomains (rcDetails rc)) k + count_list (map bfRequestDomain (rcBuffer rc)) k + count_list (map bfRequestDomain rows) k \<and>
    tally (dtClients (rcDetails rc')) k + count_list (map bfAddress (rcBuffer rc')) k =
      tally (dtClients (rcDetails rc)) k + count_list (map bfAddress (rcBuffer rc)) k + count_list (map bfAddress rows) k \<and>
    tally (dtTypes (rcDetails rc')) k + count_list (map bfRequestType (rcBuffer rc')) k =
      tally (dtTypes (rcDetails rc)) k + count_list (map bfRequestType (rcBuffer rc)) k + count_list (map bfRequestType rows) k"
  using workerRun_total [OF assms(1,2,4)] workerRun_counted [OF assms(1,3,4) metricsFlush_tables(1)]
    workerRun_counted [OF assms(1,3,4) metricsFlush_tables(2)] workerRun_counted [OF assms(1,3,4) metricsFlush_tables(3)]
  by (simp add: loggedTotal_def countedTotal_def)

definition demoDetails :: "details" where
  "demoDetails = \<lparr>dtClients = [], dtDomains = [], dtTypes = [], dtLists = [], dtListNames = [], dtRules = [], dtClientNames = []\<rparr>"

definition demoRecorder :: recorder where
  "demoRecorder = (NewRecorder hd True (Some 0) (Some demoMetrics) [] [] [] demoDetails 0)\<lparr>rcQueue := Some [demoInfo, demoInfo\<lparr>irAddress := ''10.0.0.2''\<rparr>]\<rparr>"

definition demoNames :: nameLookup where
  "demoNames = \<lparr>nlReverse = True, nlMdns = False, nlNetbios = False, nlReadMdns = (\<lambda>a. []), nlEngineReverse = (\<lambda>a. ''host.lan.''), nlNetbiosName = (\<lambda>a. [])\<rparr>"

theorem recorder_keeps_books_witness:
  "\<exists>rc' rows. workerRun demoDns (\<lambda>c. ''OK'') demoNames hd [Info True, FlushTimer True True True, Info True, FlushTimer False True False] demoRecorder = (rc', rows) \<and>
     length rows = 2 \<and> rcLog rc' @ map logRow (rcBuffer rc') = rcLog demoRecorder @ map logRow (rcBuffer demoRecorder @ rows)"
proof -
  let ?es = "[Info True, FlushTimer True True True, Info True, FlushTimer False True False]"
  obtain rc' rows where run: "workerRun demoDns (\<lambda>c. ''OK'') demoNames hd ?es demoRecorder = (rc', rows)"
    by fastforce
  have "length (snd (workerRun demoDns (\<lambda>c. ''OK'') demoNames hd ?es demoRecorder)) = 2" "rcQlog demoRecorder \<noteq> None" "rcMetrics demoRecorder \<noteq> None"
    by code_simp+
  moreover have "\<forall>e \<in> set ?es. keepsRows e"
    by simp
  ultimately show ?thesis
    using recorder_keeps_books [OF _ _ _ run] run by (simp del: workerRun.simps)
qed

section \<open>A blocked query\<close>

text \<open>The record \<open>Handle\<close> queues for a request that rule \<open>t\<close> of list \<open>l\<close> blocks for consumer \<open>c\<close>.\<close>

definition blockedCall :: "srclib \<Rightarrow> ip \<Rightarrow> Msg \<Rightarrow> requestContext \<Rightarrow> GudgeonList \<Rightarrow> string \<Rightarrow> engineConsumer \<Rightarrow> nat \<Rightarrow> recorderCall" where
  "blockedCall S address request rCon l t c tick =
     \<lparr>rlAddress = address, rlRequest = request, rlResponse = Some (errorReply (srcDns S) request RcodeNameError), rlContext = Some rCon,
      rlResult = emptyResult\<lparr>rrMatch := MatchBlock, rrMatchList := Some l, rrMatchRule := t, rrConsumer := csName (ecConfig c)\<rparr>,
      rlFinished = clock S tick\<rparr>"

lemma blocked_call:
  assumes "validRequest request" "getConsumerForIP eg address = Some c" "\<not> csBlock (ecConfig c)" "egRecorder eg"
    and "domainRuleMatchedForGroups E eg (getGroups (Some c)) (Qname (hd (msgQuestion request))) = (MatchBlock, Some l, t)"
  shows "\<exists>reply w' rCon. Handle 0 S E B eg address protocol request w = Ret ((reply, Some (blockedCall S address request rCon l t c (Suc (wTick w)))), w')"
proof -
  let ?rCon = "\<lparr>rqStarted = clock S (wTick w), rqProtocol = protocol, rqGroups = []\<rparr>"
  obtain rc0 where "groupsWith S E eg (HandleWithResolvers 0 S E B eg) (getGroups (Some c)) (Some ?rCon) request (tickW w) =
      Ret ((length (wHeap (tickW w)), Some rc0, emptyResult\<lparr>rrMatch := MatchBlock, rrMatchList := Some l, rrMatchRule := t\<rparr>),
         (tickW w)\<lparr>wHeap := wHeap (tickW w) @ [errorReply (srcDns S) request RcodeNameError]\<rparr>)"
    using groupsWith_blocked [OF assms(1,5)] by blast
  then show ?thesis
    using assms(2-4) by (simp add: Handle_def HandleWithConsumer_def HandleWithGroups_def Let_def deref_def tickW_def blockedCall_def)
qed

lemma blocked_conditioned:
  assumes "SetReply_ok (srcDns S)" "validRequest request"
    and info: "info = fst (condition D rcodeText L (queueRecord pooled (blockedCall S address request rCon l t c tick) now) names)"
  shows "bfMatch (bufferOf info) = MatchBlock" "bfMatchList (bufferOf info) = CanonicalName l" "bfMatchListShort (bufferOf info) = ShortName l"
    "bfMatchRule (bufferOf info) = t" "bfRequestDomain (bufferOf info) = Qname (hd (msgQuestion request))"
    "bfConsumer (bufferOf info) = csName (ecConfig c)" "bfAddress (bufferOf info) = IP_String address"
    "isBlockedResult (irResult info)" "irResult info \<noteq> None" "irRequestContext info = Some rCon"
    "irResponse info = Some (errorReply (srcDns S) request RcodeNameError)"
proof -
  obtain q qs where q: "msgQuestion request = q # qs"
    using validRequest_question [OF assms(2)] by (cases "msgQuestion request") auto
  have "GetAnswerValues D (Some (errorReply (srcDns S) request RcodeNameError)) = []"
    by (simp add: GetAnswerValues_def errorReply_simps [OF assms(1)])
  then show "bfMatch (bufferOf info) = MatchBlock" "bfMatchList (bufferOf info) = CanonicalName l" "bfMatchListShort (bufferOf info) = ShortName l"
    "bfMatchRule (bufferOf info) = t" "bfRequestDomain (bufferOf info) = Qname (hd (msgQuestion request))"
    "bfConsumer (bufferOf info) = csName (ecConfig c)" "bfAddress (bufferOf info) = IP_String address"
    "isBlockedResult (irResult info)" "irResult info \<noteq> None" "irRequestContext info = Some rCon"
    "irResponse info = Some (errorReply (srcDns S) request RcodeNameError)"
    by (simp_all add: info condition_def conditionRequest_def conditionResponse_def conditionResult_def bufferOf_def queueRecord_def infoClear_def
        blockedCall_def q case_prod_beta Let_def errorReply_simps [OF assms(1)] isBlockedResult_def)
qed

lemma queue_then_work:
  assumes "rcQueue rc = Some []" "rcDb rc"
  shows "\<exists>rc1. queue pooled call now rc = Some rc1 \<and>
    rcBuffer (workInfo D rcodeText L True rc1) = rcBuffer rc @ [bufferOf (fst (condition D rcodeText L (queueRecord pooled call now) (rcNames rc)))] \<and>
    rcMetrics (workInfo D rcodeText L True rc1) =
      map_option (recordMetrics (fst (condition D rcodeText L (queueRecord pooled call now) (rcNames rc)))) (rcMetrics rc) \<and>
    rcDb (workInfo D rcodeText L True rc1) \<and> rcQlog (workInfo D rcodeText L True rc1) = rcQlog rc"
  using assms by (auto simp: queue_def recordQueueSize_def workInfo_def buffer_def case_prod_beta Let_def)

end
