(* ===== verification/Lifecycle.thy ===== *)
theory Lifecycle
  imports Reload Recorder
begin

text \<open>
  How a running engine ends: \<open>Shutdown\<close> in \<^verbatim>\<open>src/engine/engine.go\<close>, \<^verbatim>\<open>src/engine/recorder.go\<close> and
  \<^verbatim>\<open>src/engine/reloading_engine.go\<close>, with the handshake over the channel that ends the listener for multicast
  DNS. The channel has no buffer: a send waits for a receiver. It is made when names of clients are
  looked up at all; its only receiver is the listener, which runs when multicast DNS is looked up as well and
  its socket could be opened (\<open>listening\<close>).
\<close>

definition mdnsClosed :: "GudgeonQueryLog \<Rightarrow> bool \<Rightarrow> unit chan" where
  "mdnsClosed ql listening =
     (if qlReverseLookup ql \<noteq> Some True then Done ()
      else if qlMdnsLookup ql = Some True \<and> listening then Done ()
      else Block)"

text \<open>
  \<open>stop\<close> is the rest of the shutdown of the recorder, \<^const>\<open>shutdown\<close>. A recorder without a queue has been shut down:
  the channels it would signal are closed.
\<close>

definition recorderShutdown :: "GudgeonQueryLog \<Rightarrow> bool \<Rightarrow> (recorder \<Rightarrow> recorder) \<Rightarrow> recorder option \<Rightarrow> recorder option chan" where
  "recorderShutdown ql listening stop rc = (case rc of
       None \<Rightarrow> Done None
     | Some r \<Rightarrow> if rcQueue r = None then SendPanic else bind_chan (mdnsClosed ql listening) (\<lambda>_. Done (Some (stop r))))"

definition engineShutdown :: "GudgeonQueryLog \<Rightarrow> bool \<Rightarrow> (recorder \<Rightarrow> recorder) \<Rightarrow> 'b backer \<Rightarrow> recorder option \<Rightarrow> 'f engine \<times> 'b world
    \<Rightarrow> (recorder option \<times> ('f engine \<times> 'b world) run) chan" where
  "engineShutdown ql listening stop B rc st = bind_chan (recorderShutdown ql listening stop rc) (\<lambda>rc'.
     Done (rc', case st of (eg, w) \<Rightarrow> engineClose B eg w))"

text \<open>
  The swap of a reload, which holds the lock for writing from its start to its end; \<^const>\<open>swap\<close> closes the old
  engine once its recorder has ended. The recorder returned is the one of the old engine.
\<close>

definition swapEngine :: "GudgeonQueryLog \<Rightarrow> bool \<Rightarrow> (recorder \<Rightarrow> recorder) \<Rightarrow> 'b backer \<Rightarrow> (fileSystem \<Rightarrow> ('f engine \<times> fileSystem \<times> 'b world) result run)
    \<Rightarrow> recorder option \<Rightarrow> 'f reloadingEngine \<times> fileSystem \<times> 'b world \<Rightarrow> (recorder option \<times> ('f reloadingEngine \<times> fileSystem \<times> 'b world) run) chan" where
  "swapEngine ql listening stop B build rc st =
     (if reCurrent (fst st) = None then Done (None, swap B build st)
      else bind_chan (recorderShutdown ql listening stop rc) (\<lambda>rc'. Done (rc', swap B build st)))"

text \<open>\<open>reloadingEngine.Shutdown\<close>; \<open>unlisten\<close> closes the subscriptions of the reloading engine afterwards.\<close>

definition reloadingShutdown :: "GudgeonQueryLog \<Rightarrow> bool \<Rightarrow> (recorder \<Rightarrow> recorder) \<Rightarrow> 'b backer \<Rightarrow> Handle list \<Rightarrow> recorder option
    \<Rightarrow> 'f reloadingEngine \<times> 'b world \<times> 'l bus option \<Rightarrow> ('f reloadingEngine \<times> 'b world \<times> 'l bus option) run chan" where
  "reloadingShutdown ql listening stop B handles rc st = (case st of (re, w, eb) \<Rightarrow>
     let unlistened = foldl (\<lambda>b h. HandleClose h b) eb handles in
     (case reCurrent re of
        None \<Rightarrow> Done (Ret (re, w, unlistened))
      | Some eg \<Rightarrow> bind_chan (engineShutdown ql listening stop B rc (eg, w)) (\<lambda>(rc', r).
          Done (bind_run r (\<lambda>(eg', w'). Ret (re\<lparr>reCurrent := Some eg'\<rparr>, w', unlistened))))))"

section \<open>Properties\<close>

lemma Load_queryLog:
  assumes "Load H readFile unmarshal filename = Inr (conf, warnings)" "filename \<noteq> []" "readFile filename = Inr bytes"
    "unmarshal bytes = Inr (Some y)" "cfQueryLog y = Some ql"
  shows "cfQueryLog conf = Some (fst (verifyQueryLog H ql))"
proof -
  have "conf = fst (verifyAndInit H y)"
    using assms(1-4) by (auto simp: Load_def Let_def case_prod_beta split: if_splits)
  then show ?thesis
    using assms(5) by (simp add: verifyAndInit_settings withDefault_def)
qed

lemma verifyQueryLog_lookups:
  "qlReverseLookup (fst (verifyQueryLog H ql)) = orElse (qlReverseLookup ql) (orElse (qlEnabled ql) (Some True))"
  "qlMdnsLookup (fst (verifyQueryLog H ql)) = orElse (qlMdnsLookup ql) (orElse (qlEnabled ql) (Some True))"
  by (auto simp: verifyQueryLog_def Let_def split: sum.splits)

text \<open>A recorder can be shut down only once, so a swap after one that failed panics before the engine is closed.\<close>

lemma second_shutdown_panics:
  assumes "swapEngine ql listening (shutdown pick logOk deleteOk commitOk pruneOk now) B build (Some r) st = Done (rc', Ret st')"
    and "reCurrent (fst st) = Some eg" "reCurrent (fst st') = Some eg'"
  shows "swapEngine ql' listening' stop B' build' rc' st' = SendPanic"
proof -
  have "rc' = Some (shutdown pick logOk deleteOk commitOk pruneOk now r)"
    using assms(1,2) by (auto simp: swapEngine_def recorderShutdown_def bind_chan_Done split: if_splits)
  moreover have "rcQueue (shutdown pick logOk deleteOk commitOk pruneOk now r) = None"
    by (simp add: shutdown_def flush_def prune_def Let_def split: option.split)
  ultimately show ?thesis
    using assms(3) by (simp add: swapEngine_def recorderShutdown_def)
qed


definition demoQuiet :: GudgeonConfig where
  "demoQuiet = demoYaml\<lparr>cfQueryLog := Some (emptyQueryLog\<lparr>qlMdnsLookup := Some False\<rparr>)\<rparr>"


end
