(* ===== verification/Program.thy ===== *)
theory Program
  imports Provider Lifecycle
begin

text \<open>
  The program around the engine: \<^verbatim>\<open>src/cmd/gudgeon.go\<close> with \<^verbatim>\<open>src/config/options.go\<close> and \<^verbatim>\<open>src/version/version.go\<close>, and
  opening the database, \<^verbatim>\<open>src/db/db.go\<close> and \<open>createEngineDB\<close> in \<^verbatim>\<open>src/engine/engine_init.go\<close>.

  The parser of flags, the SQL driver and the migrations are parameters. The end of the program is a set of
  goroutines that all have to return; what each of them comes to is an outcome of type \<open>chan\<close>.
\<close>

section \<open>version.go\<close>

record versionVars =
  vrVersion :: string
  vrRelease :: string
  vrGitHash :: string
  vrLongVersion :: string
  vrDescriptor :: string

definition GetVersion :: "versionVars \<Rightarrow> string" where
  "GetVersion v = TrimSpace (vrVersion v)"

definition GetRelease :: "versionVars \<Rightarrow> string" where
  "GetRelease v = TrimSpace (vrRelease v)"

definition GetGitHash :: "versionVars \<Rightarrow> string" where
  "GetGitHash v = TrimSpace (vrGitHash v)"

definition GetDescriptor :: "versionVars \<Rightarrow> string" where
  "GetDescriptor v = TrimSpace (vrDescriptor v)"

definition GetLongVersion :: "versionVars \<Rightarrow> string" where
  "GetLongVersion v =
     (if vrLongVersion v \<noteq> [] then vrLongVersion v
      else
        let v1 = GetVersion v;
            v2 = (if GetRelease v \<noteq> [] then v1 @ ''-'' @ GetRelease v else v1);
            v3 = (if GetGitHash v \<noteq> [] then v2 @ ''-git@'' @ GetGitHash v else v2);
            v4 = (if GetDescriptor v \<noteq> [] then v3 @ '' ('' @ GetDescriptor v @ '')'' else v3)
        in TrimSpace v4)"

record VersionInfo =
  viVersion :: string
  viLongVersion :: string
  viRelease :: string
  viGitHash :: string

definition Info :: "versionVars \<Rightarrow> VersionInfo" where
  "Info v = \<lparr>viVersion = GetVersion v, viLongVersion = GetLongVersion v, viRelease = GetRelease v, viGitHash = GetGitHash v\<rparr>"

section \<open>options.go\<close>

record GudgeonOptions =
  opConfigPath :: string
  opProfile :: bool
  opDebug :: bool
  opHelp :: bool
  opVersion :: bool

text \<open>The parser fills the options in, as far as it gets, and may report an error.\<close>

datatype optionsOutcome = ShownAndExited | ChosenOptions GudgeonOptions | BadOptions string

definition Options :: "(string list \<Rightarrow> GudgeonOptions \<times> string option) \<Rightarrow> string list \<Rightarrow> optionsOutcome" where
  "Options parse args = (case parse (tl args) of (opts, err) \<Rightarrow>
     if opHelp opts \<or> opVersion opts then ShownAndExited
     else case err of
       Some e \<Rightarrow> BadOptions (''Error parsing commands: '' @ e)
     | None \<Rightarrow> ChosenOptions opts)"

section \<open>db.go\<close>

datatype migration = Migrated | NoChange | MigrationFailed string

record 'd dblib =
  sqlOpen :: "string \<Rightarrow> 'd result"
  migrationSource :: "string option"
  migrationTarget :: "'d \<Rightarrow> string option"
  newMigrate :: "'d \<Rightarrow> string option"
  migrateUp :: "'d \<Rightarrow> migration"

definition DefaultOptions :: string where
  "DefaultOptions = ''cache=shared&_journal_mode=WAL''"

definition Open :: "'d dblib \<Rightarrow> string \<Rightarrow> string \<Rightarrow> 'd result" where
  "Open lib path options =
     (if path = [] then Inl (''Opening database '' @ quoted path @ '': path must not be empty'')
      else sqlOpen lib (path @ ''?'' @ (if options = [] then DefaultOptions else options)))"

definition OpenAndMigrate :: "'d dblib \<Rightarrow> string \<Rightarrow> string \<Rightarrow> 'd result" where
  "OpenAndMigrate lib path options = (case Open lib path options of
       Inl e \<Rightarrow> Inl e
     | Inr db \<Rightarrow>
         (case migrationSource lib of
            Some e \<Rightarrow> Inl e
          | None \<Rightarrow> (case migrationTarget lib db of
              Some e \<Rightarrow> Inl e
            | None \<Rightarrow> (case newMigrate lib db of
                Some e \<Rightarrow> Inl e
              | None \<Rightarrow> (case migrateUp lib db of
                  MigrationFailed e \<Rightarrow> Inl e
                | _ \<Rightarrow> Inr db)))))"

text \<open>Folders that cannot be made are logged and nothing else; the error then is the one of opening.\<close>

definition createEngineDB :: "hostenv \<Rightarrow> 'd dblib \<Rightarrow> GudgeonConfig \<Rightarrow> 'd result" where
  "createEngineDB H lib conf =
     (let dbPath = pathJoin H (pathJoin H (DataRoot H conf) ''engine'') ''gudgeon.db'' in
      case OpenAndMigrate lib dbPath [] of
        Inl e \<Rightarrow> Inl (''Engine DB: '' @ e)
      | Inr db \<Rightarrow> Inr db)"

definition NewEngine :: "hostenv \<Rightarrow> nat \<Rightarrow> srclib \<Rightarrow> 'f storelib \<Rightarrow> (string \<Rightarrow> string result) \<Rightarrow> 'd dblib \<Rightarrow> metrics
    \<Rightarrow> GudgeonConfig \<Rightarrow> fileSystem \<Rightarrow> ('f engine \<times> fileSystem \<times> 'b world) result run" where
  "NewEngine H depth S E fetch lib metrics conf fs =
     bootstrap H depth S E fetch (case createEngineDB H lib conf of Inl e \<Rightarrow> Some e | Inr db \<Rightarrow> None) metrics conf fs"

section \<open>gudgeon.go\<close>

record 'f gudgeon =
  gdConfPath :: string
  gdConfig :: GudgeonConfig
  gdEngine :: "'f reloadingEngine option"
  gdProvider :: "'f provider option"
  gdWeb :: "string option"

definition NewGudgeon :: "string \<Rightarrow> GudgeonConfig \<Rightarrow> 'f gudgeon" where
  "NewGudgeon confPath conf = \<lparr>gdConfPath = confPath, gdConfig = conf, gdEngine = None, gdProvider = None, gdWeb = None\<rparr>"

text \<open>The web server is known by the address it listens on.\<close>

definition webServe :: "GudgeonWeb \<Rightarrow> string" where
  "webServe web = wbAddress web @ '':'' @ Itoa (nat (wbPort web))"

text \<open>
  \<open>Start\<close>; \<open>build\<close> is \<open>NewEngine\<close> and \<open>activated\<close> the sockets of systemd. The bus and the watching of files are started
  before. Neither \<open>Host\<close> nor \<open>Serve\<close> reports an error.
\<close>

definition gudgeonStart :: "('f engine \<times> fileSystem \<times> 'b world) result run \<Rightarrow> fileSocket list \<Rightarrow> 'f gudgeon
    \<Rightarrow> ('f gudgeon \<times> fileSystem \<times> 'b world) result run" where
  "gudgeonStart built activated g =
     bind_run (NewReloadingEngine (gdConfPath g) built) (\<lambda>r. case r of
         Inl e \<Rightarrow> Ret (Inl e)
       | Inr (re, fs, w) \<Rightarrow>
           (case (cfNetwork (gdConfig g), cfSystemd (gdConfig g)) of
              (Some net, Some systemd) \<Rightarrow>
                bind_run (Host net systemd activated (Some re) (NewProvider (Some re))) (\<lambda>pv.
                  case cfWeb (gdConfig g) of
                    None \<Rightarrow> Panic
                  | Some web \<Rightarrow> Ret (Inr (g\<lparr>gdEngine := Some re, gdProvider := Some pv, gdWeb := if wbEnabled web then Some (webServe web) else None\<rparr>, fs, w)))
            | _ \<Rightarrow> Panic))"

datatype 'a mainOutcome = ExitCode nat | Runs 'a

definition gudgeonMain :: "(string list \<Rightarrow> GudgeonOptions \<times> string option) \<Rightarrow> hostenv \<Rightarrow> (string \<Rightarrow> string result)
    \<Rightarrow> (string \<Rightarrow> GudgeonConfig option result) \<Rightarrow> (GudgeonConfig \<Rightarrow> ('f engine \<times> fileSystem \<times> 'b world) result run)
    \<Rightarrow> fileSocket list \<Rightarrow> string list \<Rightarrow> ('f gudgeon \<times> fileSystem \<times> 'b world) mainOutcome run" where
  "gudgeonMain parse H readFile unmarshal build activated args = (case Options parse args of
       ShownAndExited \<Rightarrow> Ret (ExitCode 0)
     | BadOptions e \<Rightarrow> Ret (ExitCode 1)
     | ChosenOptions opts \<Rightarrow>
         (case Load H readFile unmarshal (opConfigPath opts) of
            Inl e \<Rightarrow> Ret (ExitCode 1)
          | Inr (conf, warnings) \<Rightarrow>
              bind_run (gudgeonStart (build conf) activated (NewGudgeon (opConfigPath opts) conf)) (\<lambda>r. case r of
                  Inl e \<Rightarrow> Ret (ExitCode 1)
                | Inr st \<Rightarrow> Ret (Runs st))))"

text \<open>
  \<open>Shutdown\<close>: one goroutine each for the bus, the provider, the web server and the engine, and a wait for all of
  them. The servers of the provider are shut down by goroutines of their own, with a time limit, and so is the web
  server: each always returns, with or without an error. A panic in a goroutine ends the process.
\<close>

definition joinAll :: "unit chan list \<Rightarrow> unit chan" where
  "joinAll cs = (if SendPanic \<in> set cs then SendPanic else if Block \<in> set cs then Block else Done ())"

definition providerShutdown :: "(server \<Rightarrow> string option) \<Rightarrow> 'f provider \<Rightarrow> unit chan" where
  "providerShutdown stop pv = joinAll (map (\<lambda>s. case stop s of Some err \<Rightarrow> Done () | None \<Rightarrow> Done ()) (pvServers pv))"

definition webStop :: "(string \<Rightarrow> string option) \<Rightarrow> string \<Rightarrow> unit chan" where
  "webStop stop address = (case stop address of Some err \<Rightarrow> Done () | None \<Rightarrow> Done ())"

definition gudgeonShutdown :: "unit chan \<Rightarrow> (server \<Rightarrow> string option) \<Rightarrow> (string \<Rightarrow> string option) \<Rightarrow> unit chan \<Rightarrow> 'f gudgeon \<Rightarrow> unit chan" where
  "gudgeonShutdown bus stopServer stopWeb engine g =
     joinAll ([bus] @ (case gdProvider g of None \<Rightarrow> [] | Some pv \<Rightarrow> [providerShutdown stopServer pv]) @
       (case gdWeb g of None \<Rightarrow> [] | Some address \<Rightarrow> [webStop stopWeb address]) @ [engine])"

text \<open>
  The end of the bus: its goroutine takes the signal between two events, once everything its listeners sent is
  on the channel, which cannot be while more is pending than the channel has room for.
\<close>

definition busStop :: "'l bus \<times> event list \<times> 's \<Rightarrow> unit chan" where
  "busStop st = (if overcommitted st then Block else Done ())"

definition engineEnd :: "(recorder option \<times> ('f engine \<times> 'b world) run) chan \<Rightarrow> unit chan" where
  "engineEnd r = bind_chan r (\<lambda>(rc, out). case out of Ret x \<Rightarrow> Done () | Panic \<Rightarrow> SendPanic | NoFuel \<Rightarrow> Block)"

lemma pending_drained:
  assumes "length (bsQueue b) + length pending \<le> queueSize" "\<forall>e \<in> set pending. evTopic e \<noteq> []"
  shows "\<exists>ls b'. busRun order call (b, pending, s) ls (b', [], s)"
proof -
  have "\<exists>ls' b'. busRun order call st0 (ls @ ls') (b', [], s)" if "busRun order call st0 ls (b, pending, s)" for st0 ls
    using assms that
  proof (induction pending arbitrary: b ls)
    case (Cons e pending)
    let ?b = "b\<lparr>bsQueue := bsQueue b @ [e]\<rparr>"
    have "busStep order call (b, e # pending, s) (Sent e) (?b, pending, s)"
      using Cons.prems(1,2) by (intro busStep.emit) (simp_all add: Send_def)
    from Cons.IH [OF _ _ busRun.more [OF Cons.prems(3) this]] Cons.prems(1,2) obtain ls' b' where "busRun order call st0 ((ls @ [Sent e]) @ ls') (b', [], s)"
      by auto
    then show ?case
      by (intro exI [of _ "Sent e # ls'"] exI [of _ b']) simp
  qed (metis append_Nil2)
  from this [OF busRun.none] show ?thesis
    by auto
qed


lemma Host_engine:
  assumes "Host net systemd activated (Some re) (NewProvider (Some re)) = Ret pv"
  shows "pvEngine pv = Some re"
  using assms by (auto simp: Host_def NewProvider_def Let_def bind_run_Ret split: option.splits if_splits)

lemma gudgeonStart_ok:
  assumes "gudgeonStart built activated (NewGudgeon path conf) = Ret (Inr (g, fs, w))"
  obtains eg pv where "built = Ret (Inr (eg, fs, w))" "gdEngine g = Some \<lparr>reConfPath = path, reCurrent = Some eg\<rparr>"
    and "gdProvider g = Some pv" "pvEngine pv = gdEngine g" "gdConfig g = conf" "gdConfPath g = path"
proof -
  obtain r where "built = Ret r"
    using assms by (cases built) (auto simp: gudgeonStart_def NewReloadingEngine_def)
  with assms obtain eg fs1 w1 where b: "built = Ret (Inr (eg, fs1, w1))"
    by (cases r) (auto simp: gudgeonStart_def NewReloadingEngine_def)
  obtain net systemd where parts: "cfNetwork conf = Some net" "cfSystemd conf = Some systemd"
    using assms by (auto simp: gudgeonStart_def NewReloadingEngine_def NewGudgeon_def b split: option.splits)
  let ?re = "\<lparr>reConfPath = path, reCurrent = Some eg\<rparr>"
  obtain pv where pv: "Host net systemd activated (Some ?re) (NewProvider (Some ?re)) = Ret pv"
    using assms by (cases "Host net systemd activated (Some ?re) (NewProvider (Some ?re))") (simp_all add: gudgeonStart_def NewReloadingEngine_def NewGudgeon_def b parts)
  show thesis
    using assms by (intro that [of eg pv])
      (auto simp: gudgeonStart_def NewReloadingEngine_def NewGudgeon_def b parts pv Host_engine [OF pv] split: option.splits)
qed

lemma gudgeonMain_runs:
  assumes "gudgeonMain parse H readFile unmarshal build activated args = Ret (Runs (g, fs, w))"
  obtains re eg pv warnings where "Load H readFile unmarshal (gdConfPath g) = Inr (gdConfig g, warnings)" "build (gdConfig g) = Ret (Inr (eg, fs, w))"
    and "gdEngine g = Some re" "reCurrent re = Some eg" "gdProvider g = Some pv" "pvEngine pv = Some re"
proof -
  obtain opts where opts: "Options parse args = ChosenOptions opts"
    using assms by (auto simp: gudgeonMain_def split: optionsOutcome.splits)
  obtain conf warnings where conf: "Load H readFile unmarshal (opConfigPath opts) = Inr (conf, warnings)"
    using assms by (auto simp: gudgeonMain_def opts split: sum.splits)
  have "gudgeonStart (build conf) activated (NewGudgeon (opConfigPath opts) conf) = Ret (Inr (g, fs, w))"
    using assms by (cases "gudgeonStart (build conf) activated (NewGudgeon (opConfigPath opts) conf)") (auto simp: gudgeonMain_def opts conf split: sum.splits)
  then obtain eg pv where "build conf = Ret (Inr (eg, fs, w))" "gdEngine g = Some \<lparr>reConfPath = opConfigPath opts, reCurrent = Some eg\<rparr>"
    "gdProvider g = Some pv" "pvEngine pv = gdEngine g" "gdConfig g = conf" "gdConfPath g = opConfigPath opts"
    by (rule gudgeonStart_ok)
  then show thesis
    using conf by (intro that [of warnings eg _ pv]) simp_all
qed

lemma joinAll_Done: "joinAll cs = Done () \<longleftrightarrow> (\<forall>c \<in> set cs. c = Done ())"
proof -
  have "c = Done () \<longleftrightarrow> c \<noteq> SendPanic \<and> c \<noteq> Block" for c :: "unit chan"
    by (cases c) auto
  then show ?thesis
    by (auto simp: joinAll_def)
qed

lemma servers_stop [simp]: "providerShutdown stop pv = Done ()" "webStop stopWeb address = Done ()"
  by (simp_all add: providerShutdown_def webStop_def joinAll_Done split: option.split)

lemma engineEnd_Done:
  "engineEnd (engineShutdown ql listening stop B rc (eg, w)) = Done () \<longleftrightarrow>
     (\<forall>r. rc = Some r \<longrightarrow> rcQueue r \<noteq> None \<and> (qlReverseLookup ql = Some True \<longrightarrow> qlMdnsLookup ql = Some True \<and> listening)) \<and>
     distinct (mapHolds (egResolvers eg)) \<and> (\<forall>h \<in> set (mapHolds (egResolvers eg)). isOpen (egSources eg) h) \<and> egStore eg \<noteq> None"
proof -
  have close: "(\<exists>x. engineClose B eg w = Ret x) \<longleftrightarrow>
      distinct (mapHolds (egResolvers eg)) \<and> (\<forall>h \<in> set (mapHolds (egResolvers eg)). isOpen (egSources eg) h) \<and> egStore eg \<noteq> None"
    using resolverMapClose_returns [of "egResolvers eg" "egSources eg"] engineClose_Ret [of B eg w] by fastforce
  have rec: "(\<exists>rc'. recorderShutdown ql listening stop rc = Done rc') \<longleftrightarrow>
      (\<forall>r. rc = Some r \<longrightarrow> rcQueue r \<noteq> None \<and> (qlReverseLookup ql = Some True \<longrightarrow> qlMdnsLookup ql = Some True \<and> listening))"
    by (auto simp: recorderShutdown_def mdnsClosed_def split: option.splits)
  have "engineEnd (engineShutdown ql listening stop B rc (eg, w)) = Done () \<longleftrightarrow>
      (\<exists>rc'. recorderShutdown ql listening stop rc = Done rc') \<and> (\<exists>x. engineClose B eg w = Ret x)"
    by (cases "recorderShutdown ql listening stop rc"; cases "engineClose B eg w") (simp_all add: engineEnd_def engineShutdown_def)
  then show ?thesis
    unfolding close rec by blast
qed

definition listensOn :: "GudgeonInterface list \<Rightarrow> server list \<Rightarrow> bool" where
  "listensOn is servers \<longleftrightarrow> (\<forall>i \<in> set is.
     (ifTCP i = Some True \<longrightarrow> Bound ''tcp'' (ifIP i @ '':'' @ Itoa (nat (ifPort i))) \<in> set servers) \<and>
     (ifUDP i = Some True \<longrightarrow> Bound ''udp'' (ifIP i @ '':'' @ Itoa (nat (ifPort i))) \<in> set servers))"

lemma bindInterfaces_verified:
  "\<forall>i \<in> set is. ifTCP i \<noteq> None \<and> ifUDP i \<noteq> None \<Longrightarrow> \<exists>bound. bindInterfaces is = Ret bound \<and> listensOn is bound"
proof (induction "is")
  case (Cons i "is")
  then obtain t u bound where "ifTCP i = Some t" "ifUDP i = Some u" "bindInterfaces is = Ret bound" "listensOn is bound"
    by auto
  then show ?case
    by (auto simp: listensOn_def Let_def)
qed (simp add: listensOn_def)

lemma verifyAndInit_network:
  obtains net systemd web where "cfNetwork (fst (verifyAndInit H c)) = Some net" "cfSystemd (fst (verifyAndInit H c)) = Some systemd"
    and "cfWeb (fst (verifyAndInit H c)) = Some web" "\<forall>i \<in> set (nwInterfaces net). ifTCP i \<noteq> None \<and> ifUDP i \<noteq> None"
    and "sdEnabled systemd \<noteq> None" "sdDnsPorts systemd \<noteq> None"
proof -
  have "cfSystemd (fst (verifyAndInit H c)) = Some (verifySystemd (withDefault \<lparr>sdEnabled = None, sdDnsPorts = None, sdHttpPorts = None\<rparr> (cfSystemd c)))"
    "cfWeb (fst (verifyAndInit H c)) = Some (verifyWeb (withDefault \<lparr>wbEnabled = True, wbAddress = [], wbPort = 0\<rparr> (cfWeb c)))"
    by (auto simp: verifyAndInit_fst verifyParts_def initHome_def initMaps_def Let_def)
  then show thesis
    by (rule that [OF verifyAndInit_settings(5)])
      (auto simp: verifyNetwork_def verifyInterface_def verifySystemd_def orElse_def Let_def split: option.splits)
qed

lemma Host_verified:
  assumes "\<forall>i \<in> set (nwInterfaces net). ifTCP i \<noteq> None \<and> ifUDP i \<noteq> None" "sdEnabled systemd \<noteq> None" "sdDnsPorts systemd \<noteq> None"
  obtains pv where "Host net systemd activated (Some re) (NewProvider (Some re)) = Ret pv" "pvEngine pv = Some re"
    and "listensOn (nwInterfaces net) (pvServers pv)"
proof -
  obtain enabled ports where "sdEnabled systemd = Some enabled" "sdDnsPorts systemd = Some ports"
    using assms(2,3) by auto
  moreover obtain bound where "bindInterfaces (nwInterfaces net) = Ret bound"
    and "listensOn (nwInterfaces net) bound"
    using bindInterfaces_verified [OF assms(1)] by blast
  ultimately show thesis
    by (cases "nwInterfaces net = []"; cases enabled; cases "activated = []") (auto intro!: that simp: Host_def NewProvider_def listensOn_def)
qed

lemma gudgeonMain_starts:
  assumes "Options parse args = ChosenOptions opts" "Load H readFile unmarshal (opConfigPath opts) = Inr (conf, warnings)"
    and "build conf = Ret (Inr (eg, fs, w))"
  obtains g pv net where "gudgeonMain parse H readFile unmarshal build activated args = Ret (Runs (g, fs, w))" "gdConfig g = conf"
    and "gdEngine g = Some \<lparr>reConfPath = opConfigPath opts, reCurrent = Some eg\<rparr>" "gdProvider g = Some pv" "pvEngine pv = gdEngine g"
    and "cfNetwork conf = Some net" "listensOn (nwInterfaces net) (pvServers pv)"
proof -
  let ?re = "\<lparr>reConfPath = opConfigPath opts, reCurrent = Some eg\<rparr>"
  obtain c0 where c0: "conf = fst (verifyAndInit H c0)"
    using assms(2) by (rule Load_verified)
  obtain net systemd web where net: "cfNetwork conf = Some net" "cfSystemd conf = Some systemd" "cfWeb conf = Some web"
      and set: "\<forall>i \<in> set (nwInterfaces net). ifTCP i \<noteq> None \<and> ifUDP i \<noteq> None" "sdEnabled systemd \<noteq> None" "sdDnsPorts systemd \<noteq> None"
    using verifyAndInit_network [of H c0] unfolding c0 by metis
  obtain pv where pv: "Host net systemd activated (Some ?re) (NewProvider (Some ?re)) = Ret pv" "pvEngine pv = Some ?re"
    and listens: "listensOn (nwInterfaces net) (pvServers pv)"
    by (rule Host_verified [OF set])
  have "gudgeonMain parse H readFile unmarshal build activated args =
      Ret (Runs (\<lparr>gdConfPath = opConfigPath opts, gdConfig = conf, gdEngine = Some ?re, gdProvider = Some pv, gdWeb = if wbEnabled web then Some (webServe web) else None\<rparr>, fs, w))"
    by (simp add: gudgeonMain_def gudgeonStart_def NewGudgeon_def NewReloadingEngine_def assms net pv(1))
  from that [OF this _ _ _ _ net(1) listens] pv(2) show thesis
    by simp
qed

text \<open>A program started from a small configuration, and what it comes to.\<close>

definition demoYamlPolicy :: GudgeonConfig where
  "demoYamlPolicy = emptyConfig\<lparr>cfLists := [Some demoBlock, Some demoAllow],
     cfGroups := [Some \<lparr>gpName = ''Kids'', gpInherit = [], gpResolvers = [], gpLists = [''ads''], gpTags = Some []\<rparr>],
     cfConsumers := [Some \<lparr>csName = ''lan'', csBlock = False, csGroups = [''kids''], csMatches = [\<lparr>mcIP = [], mcRange = None, mcNet = ''10.0.0.0/8''\<rparr>]\<rparr>]\<rparr>"

definition demoOptions :: GudgeonOptions where
  "demoOptions = \<lparr>opConfigPath = ''g.yml'', opProfile = False, opDebug = False, opHelp = False, opVersion = False\<rparr>"

definition demoDb :: "unit dblib" where
  "demoDb = \<lparr>sqlOpen = (\<lambda>p. Inr ()), migrationSource = None, migrationTarget = (\<lambda>d. None), newMigrate = (\<lambda>d. None), migrateUp = (\<lambda>d. NoChange)\<rparr>"

definition demoLaunch :: "(string list gudgeon \<times> fileSystem \<times> (string \<times> envelope \<times> int) list world) mainOutcome run" where
  "demoLaunch = gudgeonMain (\<lambda>args. (demoOptions, None)) demoHost (\<lambda>f. Inr []) (\<lambda>s. Inr (Some demoYamlPolicy))
     (\<lambda>conf. NewEngine demoHost 5 demoSrc demoEnv (\<lambda>u. Inl ''offline'') demoDb demoMetrics conf demoFiles) [] [''gudgeon'', ''-c'', ''g.yml'']"

lemma demoLaunch_parts:
  obtains warnings where "Options (\<lambda>args. (demoOptions, None)) args = ChosenOptions demoOptions" "opConfigPath demoOptions = ''g.yml''"
    and "Load demoHost (\<lambda>f. Inr []) (\<lambda>s. Inr (Some demoYamlPolicy)) ''g.yml'' = Inr (demoPolicy, warnings)"
    and "NewEngine demoHost 5 demoSrc demoEnv (\<lambda>u. Inl ''offline'') demoDb demoMetrics demoPolicy demoFiles = demoBoot"
proof -
  have "Options (\<lambda>args. (demoOptions, None)) args = ChosenOptions demoOptions" "opConfigPath demoOptions = ''g.yml''"
    by (simp_all add: Options_def demoOptions_def)
  moreover obtain ws where "Load demoHost (\<lambda>f. Inr []) (\<lambda>s. Inr (Some demoYamlPolicy)) ''g.yml'' = Inr (demoPolicy, ws)"
    by (auto simp: Load_def demoPolicy_def demoYamlPolicy_def verifyAndInit_def case_prod_beta Let_def)
  moreover have "pathJoin demoHost (pathJoin demoHost (DataRoot demoHost demoPolicy) ''engine'') ''gudgeon.db'' \<noteq> []"
    by code_simp
  then have "createEngineDB demoHost demoDb demoPolicy = Inr ()"
    by (simp add: createEngineDB_def OpenAndMigrate_def Open_def demoDb_def Let_def)
  ultimately show thesis
    by (intro that) (simp_all add: NewEngine_def demoBoot_def)
qed

section \<open>Properties\<close>

text \<open>
  C22. A loaded configuration never makes the program run into a nil pointer on its way up: once the engine is
  built, \<open>main\<close> either ends with code 1, when building failed, or runs with the engine behind its provider and
  a server for every interface and protocol the configuration asks for.
\<close>

theorem loaded_configuration_starts:
  assumes "Options parse args = ChosenOptions opts" "Load H readFile unmarshal (opConfigPath opts) = Inr (conf, warnings)"
    and "build conf = Ret r"
  shows "(case r of
      Inl e \<Rightarrow> gudgeonMain parse H readFile unmarshal build activated args = Ret (ExitCode 1)
    | Inr (eg, fs, w) \<Rightarrow> \<exists>g pv net. gudgeonMain parse H readFile unmarshal build activated args = Ret (Runs (g, fs, w)) \<and> gdConfig g = conf \<and>
        gdEngine g = Some \<lparr>reConfPath = opConfigPath opts, reCurrent = Some eg\<rparr> \<and> gdProvider g = Some pv \<and> pvEngine pv = gdEngine g \<and>
        cfNetwork conf = Some net \<and>
        listensOn (nwInterfaces net) (pvServers pv))"
proof (cases r)
  case (Inl e)
  then show ?thesis
    by (simp add: gudgeonMain_def gudgeonStart_def NewReloadingEngine_def assms)
next
  case (Inr x)
  obtain eg fs w where x: "x = (eg, fs, w)"
    by (cases x)
  have "build conf = Ret (Inr (eg, fs, w))"
    using assms(3) by (simp add: Inr x)
  from gudgeonMain_starts [where build = build, OF assms(1,2) this, of activated] show ?thesis
    unfolding Inr x sum.case prod.case by metis
qed

theorem loaded_configuration_starts_witness:
  "\<exists>g fs w pv. demoLaunch = Ret (Runs (g, fs, w)) \<and> gdConfig g = demoPolicy \<and> gdProvider g = Some pv \<and> pvEngine pv = gdEngine g"
proof -
  obtain eg fs w where b: "demoBoot = Ret (Inr (eg, fs, w))"
    by (rule demoPolicy_engine)
  obtain ws where parts: "Options (\<lambda>args. (demoOptions, None)) [''gudgeon'', ''-c'', ''g.yml''] = ChosenOptions demoOptions" "opConfigPath demoOptions = ''g.yml''"
    "Load demoHost (\<lambda>f. Inr []) (\<lambda>s. Inr (Some demoYamlPolicy)) ''g.yml'' = Inr (demoPolicy, ws)"
    "NewEngine demoHost 5 demoSrc demoEnv (\<lambda>u. Inl ''offline'') demoDb demoMetrics demoPolicy demoFiles = demoBoot"
    by (rule demoLaunch_parts)
  show ?thesis
    using loaded_configuration_starts [where build = "\<lambda>conf. NewEngine demoHost 5 demoSrc demoEnv (\<lambda>u. Inl ''offline'') demoDb demoMetrics conf demoFiles",
        OF parts(1) parts(3) [folded parts(2)] parts(4) [unfolded b], of "[]"]
    by (auto simp: demoLaunch_def)
qed



end
