(* ===== verification/Query_Log.thy ===== *)
theory Query_Log
  imports Recorder
begin

text \<open>
  \<^verbatim>\<open>src/engine/qlog.go\<close>: the line a query leaves on standard output, and queries over the stored log.

  A query of the web interface becomes two SQL statements with placeholders and a list of values. The
  model has both: the text of the statements and what the database makes of them on the rows of the
  table, where the \<open>LIKE\<close> operator and the order of rows are parameters. A statement the database rejects
  (an unknown column, \<open>OFFSET\<close> without \<open>LIMIT\<close>) yields nothing.
\<close>

section \<open>The log line\<close>

text \<open>
  The text written to standard output; \<^const>\<open>None\<close> is a panic: the protocol of a nil context or the message
  of a nil result. The \<open>recover\<close> at the end of the function is not deferred and stops no panic.
\<close>

definition answerText :: "string list \<Rightarrow> string" where
  "answerText values = (case values of
       [] \<Rightarrow> ''(NO INFO RESPONSE)''
     | v # rest \<Rightarrow> v @ (if rest \<noteq> [] then '' (+'' @ Itoa (length rest) @ '')'' else []))"

definition resultText :: "dnslib \<Rightarrow> resolutionResult \<Rightarrow> Msg \<Rightarrow> string" where
  "resultText D res response =
     (if rrBlocked res then ''BLOCKED''
      else if rrMatch res = MatchBlock then
        ''RULE BLOCKED'' @ (case rrMatchList res of
           None \<Rightarrow> []
         | Some l \<Rightarrow> ''['' @ CanonicalName l @ (if rrMatchRule res \<noteq> [] then ''|'' @ rrMatchRule res else []) @ '']'')
      else
        (if rrCached res then ''c:['' @ rrResolver res @ '']'' else ''r:['' @ rrResolver res @ '']->s:['' @ rrSource res @ '']'') @ ''->'' @
        answerText (if length (msgAnswer response) > 0 then GetAnswerValues D (Some response) else []))"

definition logPrefix :: "requestContext \<Rightarrow> InfoRecord \<Rightarrow> string" where
  "logPrefix rCon info =
     ''['' @ (if irClientName info \<noteq> [] then irClientName info @ ''|'' else []) @ irAddress info @ ''/'' @ rqProtocol rCon @ ''|'' @ irConsumer info @
     ''] q:['' @ irRequestDomain info @ ''|'' @ irRequestType info @ '']->''"

definition logLine :: "dnslib \<Rightarrow> (int \<Rightarrow> string) \<Rightarrow> InfoRecord \<Rightarrow> string option" where
  "logLine D rcodeText info =
     (let response = irResponse info; result = irResult info in
      if response \<noteq> None \<and> msgRcode (the response) = RcodeServerFailure then
        map_option (\<lambda>res. ''SERVFAIL:['' @ rrMessage res @ '']'') result
      else case irRequestContext info of
        None \<Rightarrow> None
      | Some rCon \<Rightarrow> Some (logPrefix rCon info @
          (case (result, response) of
             (Some res, Some r) \<Rightarrow> if msgRcode r \<noteq> RcodeNameError then resultText D res r else ''RESPONSE['' @ rcodeText (msgRcode r) @ '']''
           | (None, Some r) \<Rightarrow> ''RESPONSE['' @ rcodeText (msgRcode r) @ '']''
           | (_, None) \<Rightarrow> ''NIL RESPONSE'')))"

text \<open>
  The entry of the file log: its level, its text and its fields. The entry of a server failure has the
  fields set before the code is looked at, and panics on a nil result.
\<close>

datatype logLevel = LogError | LogWarn | LogInfo

datatype fieldValue = FString string | FBool bool | FMatch Match

definition baseFields :: "requestContext \<Rightarrow> InfoRecord \<Rightarrow> (string \<times> fieldValue) list" where
  "baseFields rCon info =
     [(''clientName'', FString (irClientName info)), (''address'', FString (irAddress info)), (''protocol'', FString (rqProtocol rCon)),
      (''consumer'', FString (irConsumer info)), (''requestDomain'', FString (irRequestDomain info)),
      (''requestType'', FString (irRequestType info)), (''cached'', FBool False), (''rcode'', FString (irRcode info))]"

definition resultFields :: "resolutionResult \<Rightarrow> (string \<times> fieldValue) list \<Rightarrow> (string \<times> fieldValue) list" where
  "resultFields res fields0 =
     (let fields1 = (if rrMatch res = MatchBlock then AList.update ''matchType'' (FString ''BLOCKED'') (AList.update ''match'' (FMatch (rrMatch res)) fields0)
            else fields0);
          fields2 = (case rrMatchList res of
              None \<Rightarrow> fields1
            | Some l \<Rightarrow>
                (let named = AList.update ''matchList'' (FString (CanonicalName l)) fields1 in
                 if rrMatchRule res \<noteq> [] then AList.update ''matchRule'' (FString (rrMatchRule res)) named else named));
          fields3 = (if rrMatch res = MatchAllow then AList.update ''matchType'' (FString ''ALLOWED'') (AList.update ''match'' (FMatch (rrMatch res)) fields2)
            else fields2);
          fields4 = AList.update ''resolver'' (FString (rrResolver res)) fields3
      in if rrCached res then AList.update ''cached'' (FString ''true'') fields4 else AList.update ''source'' (FString (rrSource res)) fields4)"

definition fileEntry :: "dnslib \<Rightarrow> InfoRecord \<Rightarrow> (logLevel \<times> string \<times> (string \<times> fieldValue) list) option" where
  "fileEntry D info = (case irRequestContext info of
       None \<Rightarrow> None
     | Some rCon \<Rightarrow>
         (let response = irResponse info; result = irResult info;
              values = (case response of None \<Rightarrow> [] | Some r \<Rightarrow> if length (msgAnswer r) > 0 then GetAnswerValues D (Some r) else []);
              fields = baseFields rCon info
          in if response \<noteq> None \<and> msgRcode (the response) = RcodeServerFailure then
               map_option (\<lambda>res. (LogError, ''SERVFAIL:['' @ rrMessage res @ '']'', fields)) result
             else
               (let fields' = (case (result, response) of
                       (Some res, Some r) \<Rightarrow> if msgRcode r \<noteq> RcodeNameError then resultFields res fields else fields
                     | _ \<Rightarrow> fields);
                    fields'' = AList.update ''answer'' (FString (case values of v # _ \<Rightarrow> v | [] \<Rightarrow> ''<< NONE >>'')) fields'
                in if response = None then Some (LogWarn, ''NIL RESPONSE'', fields'') else Some (LogInfo, irRcode info, fields''))))"

text \<open>
  A query log: whether it has the database, the age at which its rows are pruned, and the two loggers. A
  duration that does not parse is ignored and leaves zero. \<open>opened\<close> tells whether the log file could be opened.
\<close>

record qlog =
  qgDb :: bool
  qgDuration :: int
  qgFileLogger :: bool
  qgStdLogger :: bool

definition NewQueryLog :: "hostenv \<Rightarrow> bool \<Rightarrow> GudgeonQueryLog option \<Rightarrow> bool \<Rightarrow> qlog option option" where
  "NewQueryLog H opened conf db = (case conf of
       None \<Rightarrow> Some None
     | Some c \<Rightarrow> Option.bind (qlEnabled c) (\<lambda>enabled.
         if \<not> enabled then Some None
         else Option.bind (qlPersist c) (\<lambda>persist. Option.bind (qlStdout c) (\<lambda>out.
           Some (Some \<lparr>qgDb = (persist \<and> db), qgDuration = (case ParseDuration H (qlDuration c) of Inr d \<Rightarrow> d | Inl e \<Rightarrow> 0),
             qgFileLogger = (qlFile c \<noteq> [] \<and> opened), qgStdLogger = out\<rparr>)))))"

text \<open>What \<open>log\<close> writes to the file and to standard output; the guard reads the configuration.\<close>

definition writeLog :: "dnslib \<Rightarrow> (int \<Rightarrow> string) \<Rightarrow> GudgeonQueryLog \<Rightarrow> qlog \<Rightarrow> InfoRecord
    \<Rightarrow> ((logLevel \<times> string \<times> (string \<times> fieldValue) list) option \<times> string option) option" where
  "writeLog D rcodeText conf ql info = Option.bind (qlStdout conf) (\<lambda>out.
     if \<not> out \<and> qlFile conf = [] then Some (None, None)
     else Option.bind (if qgFileLogger ql then map_option Some (fileEntry D info) else Some None) (\<lambda>entry.
       map_option (\<lambda>line. (entry, line)) (if qgStdLogger ql then map_option Some (logLine D rcodeText info) else Some None)))"

section \<open>Queries\<close>

record QueryLogQuery =
  qqAddress :: string
  qqClientName :: string
  qqConnectionType :: string
  qqRequestDomain :: string
  qqRequestType :: string
  qqResponseText :: string
  qqBlocked :: "bool option"
  qqCached :: "bool option"
  qqMatch :: "Match option"
  qqMatchList :: string
  qqMatchRule :: string
  qqAfter :: "int option"
  qqBefore :: "int option"
  qqSkip :: int
  qqLimit :: int
  qqSortBy :: string
  qqDirection :: string

definition validSorts :: "string list" where
  "validSorts = [''address'', ''connectiontype'', ''requestdomain'', ''requesttype'', ''blocked'', ''blockedlist'', ''blockedrule'', ''created'']"

text \<open>The columns of the table \<open>qlog\<close>, in lower case.\<close>

definition qlogColumns :: "string list" where
  "qlogColumns = [''id'', ''address'', ''consumer'', ''clientname'', ''requestdomain'', ''requesttype'', ''responsetext'', ''cached'', ''blocked'',
     ''match'', ''matchlist'', ''matchlistshort'', ''matchrule'', ''created'', ''starttime'', ''endtime'', ''rcode'', ''servicetime'']"

datatype clause =
    AddressLike string | ClientNameLike string | RequestDomainLike string | ResponseTextLike string
  | BlockedIs bool | MatchIs Match | MatchListLike string | MatchRuleLike string | CachedIs bool | CreatedAfter int | CreatedBefore int

definition contains :: "string \<Rightarrow> string" where
  "contains s = ''%'' @ s @ ''%''"

definition orParts :: "QueryLogQuery \<Rightarrow> clause list" where
  "orParts q =
     (if qqAddress q \<noteq> [] then [AddressLike (contains (qqAddress q))] else []) @
     (if qqClientName q \<noteq> [] then [ClientNameLike (contains (qqClientName q))] else []) @
     (if qqRequestDomain q \<noteq> [] then [RequestDomainLike (contains (qqRequestDomain q))] else []) @
     (if qqResponseText q \<noteq> [] then [ResponseTextLike (contains (qqResponseText q))] else [])"

definition whereParts :: "QueryLogQuery \<Rightarrow> clause list" where
  "whereParts q =
     (case qqBlocked q of None \<Rightarrow> [] | Some b \<Rightarrow> [BlockedIs b]) @
     (case qqMatch q of None \<Rightarrow> [] | Some m \<Rightarrow> [MatchIs m]) @
     (if qqMatchList q \<noteq> [] then [MatchListLike (qqMatchList q)] else []) @
     (if qqMatchRule q \<noteq> [] then [MatchRuleLike (qqMatchRule q)] else []) @
     (case qqCached q of None \<Rightarrow> [] | Some b \<Rightarrow> [CachedIs b]) @
     (case qqAfter q of None \<Rightarrow> [] | Some t \<Rightarrow> [CreatedAfter t]) @
     (case qqBefore q of None \<Rightarrow> [] | Some t \<Rightarrow> [CreatedBefore t])"

fun clauseText :: "clause \<Rightarrow> string" where
  "clauseText (AddressLike v) = ''Address like ?''"
| "clauseText (ClientNameLike v) = ''ClientName like ?''"
| "clauseText (RequestDomainLike v) = ''RequestDomain like ?''"
| "clauseText (ResponseTextLike v) = ''ResponseText like ?''"
| "clauseText (BlockedIs b) = ''Blocked = ?''"
| "clauseText (MatchIs m) = ''Match = ?''"
| "clauseText (MatchListLike v) = ''MatchList like ?''"
| "clauseText (MatchRuleLike v) = ''MatchRule like ?''"
| "clauseText (CachedIs b) = ''Cached = ?''"
| "clauseText (CreatedAfter t) = ''Created > ?''"
| "clauseText (CreatedBefore t) = ''Created < ?''"

definition clauseTexts :: "clause list \<Rightarrow> string list" where
  "clauseTexts cs = (if cs = [] then [''1 = 1''] else map clauseText cs)"

definition whereText :: "QueryLogQuery \<Rightarrow> string" where
  "whereText q = Join [''('' @ Join (clauseTexts (orParts q)) '' OR '' @ '')'', Join (clauseTexts (whereParts q)) '' AND ''] '' AND ''"

text \<open>The values bound to the placeholders, as the clauses that carry them.\<close>

definition queryValues :: "QueryLogQuery \<Rightarrow> clause list" where
  "queryValues q = orParts q @ whereParts q"

definition sortColumn :: "QueryLogQuery \<Rightarrow> string" where
  "sortColumn q = (if qqSortBy q \<noteq> [] \<and> StringIn (ToLower (qqSortBy q)) validSorts then qqSortBy q else ''created'')"

definition sortDirection :: "QueryLogQuery \<Rightarrow> string" where
  "sortDirection q =
     (let d = (if StringIn (ToUpper (qqDirection q)) [''DESC'', ''ASC''] then ToUpper (qqDirection q) else []) in
      if ToLower (sortColumn q) = ''created'' \<and> d = [] then ''DESC'' else if d = [] then ''ASC'' else d)"

definition limitText :: "QueryLogQuery \<Rightarrow> string" where
  "limitText q =
     (if qqLimit q > 0 then '' LIMIT '' @ Itoa (nat (qqLimit q)) else []) @
     (if qqSkip q > 0 then '' OFFSET '' @ Itoa (nat (qqSkip q)) else [])"

definition countStmt :: "QueryLogQuery \<Rightarrow> string" where
  "countStmt q = ''SELECT COUNT(*) FROM qlog WHERE '' @ whereText q"

definition selectStmt :: "QueryLogQuery \<Rightarrow> string" where
  "selectStmt q = ''SELECT Address, ClientName, Consumer, RequestDomain, RequestType, ResponseText, Rcode, Blocked, Match, MatchList, MatchRule, Cached, ServiceTime, Created, EndTime FROM qlog WHERE ''
     @ whereText q @ '' ORDER BY '' @ sortColumn q @ '' '' @ sortDirection q @ limitText q"

fun clauseHolds :: "(string \<Rightarrow> string \<Rightarrow> bool) \<Rightarrow> clause \<Rightarrow> bufferRow \<Rightarrow> bool" where
  "clauseHolds like (AddressLike v) r = like v (bfAddress r)"
| "clauseHolds like (ClientNameLike v) r = like v (bfClientName r)"
| "clauseHolds like (RequestDomainLike v) r = like v (bfRequestDomain r)"
| "clauseHolds like (ResponseTextLike v) r = like v (bfResponseText r)"
| "clauseHolds like (BlockedIs b) r = (bfBlocked r = b)"
| "clauseHolds like (MatchIs m) r = (bfMatch r = m)"
| "clauseHolds like (MatchListLike v) r = like v (bfMatchList r)"
| "clauseHolds like (MatchRuleLike v) r = like v (bfMatchRule r)"
| "clauseHolds like (CachedIs b) r = (bfCached r = b)"
| "clauseHolds like (CreatedAfter t) r = (t < bfCreated r)"
| "clauseHolds like (CreatedBefore t) r = (bfCreated r < t)"

definition whereHolds :: "(string \<Rightarrow> string \<Rightarrow> bool) \<Rightarrow> QueryLogQuery \<Rightarrow> bufferRow \<Rightarrow> bool" where
  "whereHolds like q r \<longleftrightarrow>
     (if orParts q = [] then True else list_ex (\<lambda>c. clauseHolds like c r) (orParts q)) \<and> list_all (\<lambda>c. clauseHolds like c r) (whereParts q)"

text \<open>\<open>arrange\<close> puts rows into the order of a column and a direction.\<close>

definition QueryFunc :: "(string \<Rightarrow> string \<Rightarrow> bool) \<Rightarrow> (string \<Rightarrow> string \<Rightarrow> bufferRow list \<Rightarrow> bufferRow list) \<Rightarrow> bufferRow list option \<Rightarrow> QueryLogQuery
    \<Rightarrow> (nat \<times> bufferRow) list" where
  "QueryFunc like arrange table q = (case table of
       None \<Rightarrow> []
     | Some rows \<Rightarrow>
         (let matching = filter (whereHolds like q) rows;
              sorted = arrange (ToLower (sortColumn q)) (sortDirection q) matching;
              skipped = (if qqSkip q > 0 then drop (nat (qqSkip q)) sorted else sorted);
              limited = (if qqLimit q > 0 then take (nat (qqLimit q)) skipped else skipped)
          in if ToLower (sortColumn q) \<notin> set qlogColumns \<or> (qqSkip q > 0 \<and> \<not> qqLimit q > 0) then []
             else map (\<lambda>r. (length matching, r)) limited))"

definition Query :: "(string \<Rightarrow> string \<Rightarrow> bool) \<Rightarrow> (string \<Rightarrow> string \<Rightarrow> bufferRow list \<Rightarrow> bufferRow list) \<Rightarrow> bufferRow list option \<Rightarrow> QueryLogQuery
    \<Rightarrow> bufferRow list \<times> nat" where
  "Query like arrange table q =
     (let results = QueryFunc like arrange table q in
      (map snd results, fold (\<lambda>(c, r) total. if c > 0 then c else total) results 0))"

section \<open>Statements\<close>

text \<open>What of a query the text of its statements may depend on: which fields it has, not what is in them.\<close>

definition blank :: "string \<Rightarrow> string" where
  "blank s = (if s = [] then [] else ''x'')"

definition shapeOf :: "QueryLogQuery \<Rightarrow> QueryLogQuery" where
  "shapeOf q = q\<lparr>qqAddress := blank (qqAddress q), qqClientName := blank (qqClientName q), qqConnectionType := [],
     qqRequestDomain := blank (qqRequestDomain q), qqRequestType := [], qqResponseText := blank (qqResponseText q),
     qqBlocked := map_option (\<lambda>_. True) (qqBlocked q), qqCached := map_option (\<lambda>_. True) (qqCached q),
     qqMatch := map_option (\<lambda>_. MatchNone) (qqMatch q), qqMatchList := blank (qqMatchList q), qqMatchRule := blank (qqMatchRule q),
     qqAfter := map_option (\<lambda>_. 0) (qqAfter q), qqBefore := map_option (\<lambda>_. 0) (qqBefore q)\<rparr>"

lemma shape_texts:
  "map clauseText (orParts (shapeOf q)) = map clauseText (orParts q)" "map clauseText (whereParts (shapeOf q)) = map clauseText (whereParts q)"
  by (auto simp: orParts_def whereParts_def shapeOf_def blank_def split: option.splits)

lemma clauseTexts_cong: "map clauseText cs = map clauseText ds \<Longrightarrow> clauseTexts cs = clauseTexts ds"
  by (auto simp: clauseTexts_def)

lemma shape_where: "whereText (shapeOf q) = whereText q"
  using clauseTexts_cong [OF shape_texts(1) [of q]] clauseTexts_cong [OF shape_texts(2) [of q]] by (simp add: whereText_def)

lemma shape_sort: "sortColumn (shapeOf q) = sortColumn q" "sortDirection (shapeOf q) = sortDirection q" "limitText (shapeOf q) = limitText q"
proof -
  show s: "sortColumn (shapeOf q) = sortColumn q"
    by (simp add: sortColumn_def shapeOf_def)
  show "sortDirection (shapeOf q) = sortDirection q"
    unfolding sortDirection_def s by (simp add: shapeOf_def)
qed (simp add: limitText_def shapeOf_def)

lemma count_Join: "count_list (Join ws sep) c = sum_list (map (\<lambda>w. count_list w c) ws) + (length ws - 1) * count_list sep c"
  by (induction ws sep rule: Join.induct) auto

lemma count_clauseText: "count_list (clauseText c) CHR ''?'' = 1"
  by (cases c) simp_all

lemma count_clauseTexts: "sum_list (map (\<lambda>w. count_list w CHR ''?'') (clauseTexts cs)) = length cs"
  by (simp add: clauseTexts_def sum_list_triv o_def count_clauseText)

lemma count_whereText: "count_list (whereText q) CHR ''?'' = length (queryValues q)"
  by (simp add: whereText_def count_Join count_clauseTexts queryValues_def)

lemma Itoa_marks: "CHR ''?'' \<notin> set (Itoa n)"
proof (induction n rule: Itoa.induct)
  case (1 n)
  have "digit_char d \<noteq> CHR ''?''" if "d < 10" for d
  proof -
    have "\<forall>d \<in> set [0..<10]. digit_char d \<noteq> CHR ''?''"
      by code_simp
    then show ?thesis
      using that by simp
  qed
  from this [of n] this [of "n mod 10"] show ?case
    using 1 by (subst Itoa.simps) (auto simp: not_less)
qed

lemma sortDirection_cases: "sortDirection q \<in> {''ASC'', ''DESC''}"
  by (auto simp: sortDirection_def Let_def)

lemma sortColumn_valid: "ToLower (sortColumn q) \<in> set validSorts"
proof -
  have "ToLower ''created'' = ''created''"
    by code_simp
  then show ?thesis
    by (auto simp: sortColumn_def validSorts_def)
qed

lemma sortColumn_marks: "CHR ''?'' \<notin> set (sortColumn q)"
proof
  assume "CHR ''?'' \<in> set (sortColumn q)"
  moreover have "ToLowerC CHR ''?'' = CHR ''?''"
    by code_simp
  ultimately have "CHR ''?'' \<in> set (ToLower (sortColumn q))"
    by (force simp: ToLower_def)
  moreover have "\<forall>s \<in> set validSorts. CHR ''?'' \<notin> set s"
    by code_simp
  ultimately show False
    using sortColumn_valid by blast
qed

lemma count_tail: "count_list (sortColumn q @ '' '' @ sortDirection q @ limitText q) CHR ''?'' = 0"
  using sortDirection_cases [of q] by (auto simp: limitText_def count_notin [OF sortColumn_marks] count_notin [OF Itoa_marks])

section \<open>Pages\<close>

definition page :: "QueryLogQuery \<Rightarrow> nat \<Rightarrow> nat \<Rightarrow> QueryLogQuery" where
  "page q len p = q\<lparr>qqLimit := int len, qqSkip := int (p * len)\<rparr>"

lemma whereHolds_page [simp]: "whereHolds like (page q len p) = whereHolds like q"
  by (auto simp: whereHolds_def orParts_def whereParts_def page_def fun_eq_iff)

lemma sort_page [simp]: "sortColumn (page q len p) = sortColumn q" "sortDirection (page q len p) = sortDirection q"
proof -
  show s: "sortColumn (page q len p) = sortColumn q"
    by (simp add: sortColumn_def page_def)
  show "sortDirection (page q len p) = sortDirection q"
    unfolding sortDirection_def s by (simp add: page_def)
qed

lemma QueryFunc_page:
  assumes "ToLower (sortColumn q) \<in> set qlogColumns" "0 < len"
  shows "QueryFunc like arrange (Some rows) (page q len p) =
    map (\<lambda>r. (length (filter (whereHolds like q) rows), r))
      (take len (drop (p * len) (arrange (ToLower (sortColumn q)) (sortDirection q) (filter (whereHolds like q) rows))))"
proof -
  have "qqLimit (page q len p) = int len" "qqSkip (page q len p) = int (p * len)"
    by (simp_all add: page_def)
  then show ?thesis
    using assms by (simp add: QueryFunc_def Let_def flip: of_nat_mult)
qed

lemma fold_total: "fold (\<lambda>(c, r) total. if c > 0 then c else total) (map (\<lambda>r. (n, r)) rs) (0::nat) = (if rs = [] then 0 else n)"
proof -
  have "fold (\<lambda>(c, r) total. if c > 0 then c else total) (map (\<lambda>r. (n, r)) rs) t = (if rs = [] \<or> n = 0 then t else n)" for t :: nat
    by (induction rs arbitrary: t) auto
  then show ?thesis
    by simp
qed

lemma Query_page:
  assumes "ToLower (sortColumn q) \<in> set qlogColumns" "0 < len"
  shows "Query like arrange (Some rows) (page q len p) =
    (let found = take len (drop (p * len) (arrange (ToLower (sortColumn q)) (sortDirection q) (filter (whereHolds like q) rows)))
     in (found, if found = [] then 0 else length (filter (whereHolds like q) rows)))"
  using assms by (simp add: Query_def QueryFunc_page fold_total Let_def o_def)

lemma concat_pages: "concat (map (\<lambda>p. take len (drop (p * len) xs)) [0..<n]) = take (n * len) xs"
proof (induction n)
  case (Suc n)
  have "take (n * len) xs @ take len (drop (n * len) xs) = take (Suc n * len) xs"
    using take_add [of "n * len" len xs] by (simp add: add.commute)
  then show ?case
    using Suc by simp
qed simp

text \<open>The query without a condition and without a limit.\<close>

definition anyQuery :: QueryLogQuery where
  "anyQuery = \<lparr>qqAddress = [], qqClientName = [], qqConnectionType = [], qqRequestDomain = [], qqRequestType = [], qqResponseText = [],
     qqBlocked = None, qqCached = None, qqMatch = None, qqMatchList = [], qqMatchRule = [], qqAfter = None, qqBefore = None,
     qqSkip = 0, qqLimit = 0, qqSortBy = [], qqDirection = []\<rparr>"

lemma Query_unlimited:
  assumes "\<And>c d rs. mset (arrange c d rs) = mset rs"
  shows "r \<in> set (fst (Query like arrange (Some rows) (anyQuery\<lparr>qqMatch := Some m\<rparr>))) \<longleftrightarrow> r \<in> set rows \<and> bfMatch r = m"
proof -
  have c: "ToLower (sortColumn (anyQuery\<lparr>qqMatch := Some m\<rparr>)) = ''created''"
    by (simp add: sortColumn_def anyQuery_def) code_simp
  have w: "whereHolds like (anyQuery\<lparr>qqMatch := Some m\<rparr>) = (\<lambda>r. bfMatch r = m)"
    by (simp add: whereHolds_def orParts_def whereParts_def anyQuery_def fun_eq_iff)
  have s: "set (arrange a d rs) = set rs" for a d rs
    using assms by (metis set_mset_mset)
  have "qqSkip (anyQuery\<lparr>qqMatch := Some m\<rparr>) = 0" "qqLimit (anyQuery\<lparr>qqMatch := Some m\<rparr>) = 0" "''created'' \<in> set qlogColumns"
    by (simp_all add: anyQuery_def qlogColumns_def)
  then show ?thesis
    by (simp add: Query_def QueryFunc_def c w s Let_def o_def conj_commute)
qed

section \<open>Properties\<close>

text \<open>
  C23. A query of the web interface cannot change the statement it becomes: both statements have as many
  placeholders as values are bound, their text depends only on which fields the query has and not on what
  is in them, and the one piece of text taken over, the column to sort by, is one of a fixed list.
\<close>

theorem query_text_fixed:
  "count_list (selectStmt q) CHR ''?'' = length (queryValues q) \<and> count_list (countStmt q) CHR ''?'' = length (queryValues q) \<and>
   selectStmt (shapeOf q) = selectStmt q \<and> countStmt (shapeOf q) = countStmt q \<and>
   ToLower (sortColumn q) \<in> set validSorts \<and> sortDirection q \<in> {''ASC'', ''DESC''}"
proof (intro conjI)
  show "count_list (selectStmt q) CHR ''?'' = length (queryValues q)"
    using count_tail [of q] by (simp add: selectStmt_def count_whereText)
  show "count_list (countStmt q) CHR ''?'' = length (queryValues q)"
    by (simp add: countStmt_def count_whereText)
qed (simp_all add: selectStmt_def countStmt_def shape_where shape_sort sortColumn_valid sortDirection_cases [simplified])

text \<open>
  Paging is complete: whatever is sorted and filtered by, the pages of a query put together are the
  matching rows of the log, each once and in order, no page is longer than its limit, and every page that
  has a row reports the number of all matching rows.
\<close>

theorem paging_complete:
  assumes "\<And>c d rs. mset (arrange c d rs) = mset rs" "ToLower (sortColumn q) \<in> set qlogColumns" "0 < len"
    and "length (filter (whereHolds like q) rows) \<le> n * len"
  shows "concat (map (\<lambda>p. fst (Query like arrange (Some rows) (page q len p))) [0..<n]) =
      arrange (ToLower (sortColumn q)) (sortDirection q) (filter (whereHolds like q) rows) \<and>
    mset (concat (map (\<lambda>p. fst (Query like arrange (Some rows) (page q len p))) [0..<n])) = filter_mset (whereHolds like q) (mset rows) \<and>
    length (fst (Query like arrange (Some rows) (page q len p))) \<le> len \<and>
    snd (Query like arrange (Some rows) (page q len p)) =
      (if fst (Query like arrange (Some rows) (page q len p)) = [] then 0 else size (filter_mset (whereHolds like q) (mset rows)))"
proof -
  let ?found = "filter (whereHolds like q) rows"
  have "length (arrange (ToLower (sortColumn q)) (sortDirection q) ?found) = length ?found"
    using assms(1) by (metis size_mset)
  then have "concat (map (\<lambda>p. fst (Query like arrange (Some rows) (page q len p))) [0..<n]) =
      arrange (ToLower (sortColumn q)) (sortDirection q) ?found"
    using assms(4) by (simp add: Query_page [OF assms(2,3)] Let_def concat_pages)
  then show ?thesis
    by (simp add: assms(1) Query_page [OF assms(2,3)] Let_def flip: mset_filter)
qed

theorem paging_complete_witness:
  "\<exists>rows q. length rows = 3 \<and>
     concat (map (\<lambda>p. fst (Query (\<lambda>pat s. pat = contains s) (\<lambda>c d rs. rs) (Some rows) (page q 2 p))) [0..<2]) = filter (\<lambda>r. bfMatch r = MatchNone) rows"
proof -
  let ?q = "anyQuery\<lparr>qqMatch := Some MatchNone\<rparr>" and ?rows = "replicate 3 (bufferOf demoInfo)" and ?like = "\<lambda>pat s. pat = contains s"
  have h: "ToLower (sortColumn ?q) \<in> set qlogColumns"
    by code_simp
  have w: "whereHolds ?like ?q = (\<lambda>r. bfMatch r = MatchNone)"
    by (simp add: whereHolds_def orParts_def whereParts_def anyQuery_def fun_eq_iff)
  have "length (filter (whereHolds ?like ?q) ?rows) \<le> 2 * 2"
    using length_filter_le [of "whereHolds ?like ?q" ?rows] by simp
  from paging_complete [where arrange = "\<lambda>c d rs. rs" and p = 0, OF _ h _ this] show ?thesis
    unfolding w by (intro exI [of _ ?rows] exI [of _ ?q]) simp
qed

text \<open>
  C5. What the engine decides can be found again: the record of a request that a rule blocked, queued by
  \<open>Handle\<close>, worked on and flushed, is among the answers to a query for blocked requests, with the domain, the
  consumer and the address of the request, the name of the list and the text of the rule, and the counter of
  blocked queries has gone up.
\<close>

theorem blocked_query_found:
  assumes "SetReply_ok (srcDns S)" "validRequest request" "getConsumerForIP eg address = Some c" "\<not> csBlock (ecConfig c)" "egRecorder eg"
    and "domainRuleMatchedForGroups E eg (getGroups (Some c)) (Qname (hd (msgQuestion request))) = (MatchBlock, Some l, t)"
    and "rcQueue rc = Some []" "rcDb rc" "rcQlog rc \<noteq> None" "\<And>c d rs. mset (arrange c d rs) = mset rs"
  shows "\<exists>reply call w' rc1 rc2 row. Handle 0 S E B eg address protocol request w = Ret ((reply, Some call), w') \<and>
    queue pooled call now rc = Some rc1 \<and> rc2 = flush pick True True True (workInfo D rcodeText L True rc1) \<and>
    row \<in> set (fst (Query like arrange (Some (rcLog rc2)) (anyQuery\<lparr>qqMatch := Some MatchBlock\<rparr>))) \<and>
    bfRequestDomain row = Qname (hd (msgQuestion request)) \<and> bfConsumer row = csName (ecConfig c) \<and> bfAddress row = IP_String address \<and>
    bfMatchList row = CanonicalName l \<and> bfMatchRule row = t \<and>
    (\<forall>m. rcMetrics rc = Some m \<longrightarrow> (\<exists>m'. rcMetrics rc2 = Some m' \<and> metricValue BlockedQueries m' = wrap64 (metricValue BlockedQueries m + 1)))"
proof -
  let ?q = "anyQuery\<lparr>qqMatch := Some MatchBlock\<rparr>"
  obtain reply w' rCon where h: "Handle 0 S E B eg address protocol request w =
      Ret ((reply, Some (blockedCall S address request rCon l t c (Suc (wTick w)))), w')" (is "_ = Ret ((_, Some ?call), _)")
    using blocked_call [OF assms(2-6)] by blast
  define info where "info = fst (condition D rcodeText L (queueRecord pooled ?call now) (rcNames rc))"
  note row = blocked_conditioned [OF assms(1,2) info_def]
  obtain rc1 where q: "queue pooled ?call now rc = Some rc1"
    and b: "rcBuffer (workInfo D rcodeText L True rc1) = rcBuffer rc @ [bufferOf info]" "rcDb (workInfo D rcodeText L True rc1)"
      "rcQlog (workInfo D rcodeText L True rc1) = rcQlog rc" "rcMetrics (workInfo D rcodeText L True rc1) = map_option (recordMetrics info) (rcMetrics rc)"
    using queue_then_work [OF assms(7,8)] unfolding info_def by blast
  define rc2 where "rc2 = flush pick True True True (workInfo D rcodeText L True rc1)"
  have "logRow (bufferOf info) \<in> set (rcLog rc2)"
    using b assms(9) by (auto simp: rc2_def flush_def Let_def split: option.splits)
  then have "logRow (bufferOf info) \<in> set (fst (Query like arrange (Some (rcLog rc2)) ?q))"
    using row(1) by (simp add: Query_unlimited [OF assms(10)] logRow_def)
  moreover have "rcMetrics rc2 = map_option (recordMetrics info) (rcMetrics rc)"
    using b(4) by (simp add: rc2_def)
  ultimately show ?thesis
    using h q row rc2_def by (intro exI [of _ reply] exI [of _ ?call] exI [of _ w'] exI [of _ rc1] exI [of _ rc2]
        exI [of _ "logRow (bufferOf info)"]) (auto simp: recordMetrics_counts logRow_def)
qed

theorem blocked_query_found_witness:
  "\<exists>reply call w' rc1 row. Handle 0 demoSrc demoEnv demoBacker ((demoEngine False [])\<lparr>egRecorder := True\<rparr>) [10, 1, 2, 3] ''udp'' (demoQuery ''x.ads.com.'') (newWorld None) =
       Ret ((reply, Some call), w') \<and>
     queue demoInfo call 0 (demoRecorder\<lparr>rcQueue := Some []\<rparr>) = Some rc1 \<and>
     row \<in> set (fst (Query (\<lambda>p s. p = s) (\<lambda>c d rs. rs) (Some (rcLog (flush hd True True True (workInfo demoDns (\<lambda>c. ''NX'') demoNames True rc1))))
       (anyQuery\<lparr>qqMatch := Some MatchBlock\<rparr>))) \<and> bfMatchRule row = ''ads.com''"
proof -
  let ?eg = "(demoEngine False [])\<lparr>egRecorder := True\<rparr>"
  have "validRequest (demoQuery ''x.ads.com.'')" "getConsumerForIP ?eg [10, 1, 2, 3] = Some (demoConsumer False)" "\<not> csBlock (ecConfig (demoConsumer False))"
    "domainRuleMatchedForGroups demoEnv ?eg (getGroups (Some (demoConsumer False))) (Qname (hd (msgQuestion (demoQuery ''x.ads.com.'')))) = (MatchBlock, Some demoBlock, ''ads.com'')"
    "rcQueue (demoRecorder\<lparr>rcQueue := Some []\<rparr>) = Some []" "rcDb (demoRecorder\<lparr>rcQueue := Some []\<rparr>)" "rcQlog (demoRecorder\<lparr>rcQueue := Some []\<rparr>) \<noteq> None"
    by code_simp+
  from blocked_query_found [where arrange = "\<lambda>c d rs. rs", OF _ this(1-3) _ this(4-7), of demoSrc demoBacker "''udp''" "newWorld None" demoInfo 0 hd demoDns "\<lambda>c. ''NX''" demoNames "\<lambda>p s. p = s"]
    demoDns_ok show ?thesis
    by (auto simp: demoSrc_def)
qed

text \<open>
  C40. The log line of a request that a rule blocked only says that the answer was NXDOMAIN: the text
  \<open>RULE BLOCKED\<close> with list and rule is written for other answers only, and no answer to a request blocked by
  a rule is another.
\<close>

theorem rule_block_not_in_log_line:
  assumes "SetReply_ok (srcDns S)" "validRequest request" "getConsumerForIP eg address = Some c" "\<not> csBlock (ecConfig c)" "egRecorder eg"
    and "domainRuleMatchedForGroups E eg (getGroups (Some c)) (Qname (hd (msgQuestion request))) = (MatchBlock, Some l, t)"
  shows "\<exists>reply call w' rCon. Handle 0 S E B eg address protocol request w = Ret ((reply, Some call), w') \<and>
    (let info = fst (condition D rcodeText L (queueRecord pooled call now) names) in
     logLine D rcodeText info = Some (logPrefix rCon info @ ''RESPONSE['' @ rcodeText RcodeNameError @ '']''))"
proof -
  obtain reply w' rCon where h: "Handle 0 S E B eg address protocol request w =
      Ret ((reply, Some (blockedCall S address request rCon l t c (Suc (wTick w)))), w')" (is "_ = Ret ((_, Some ?call), _)")
    using blocked_call [OF assms(2-6)] by blast
  define info where "info = fst (condition D rcodeText L (queueRecord pooled ?call now) names)"
  note row = blocked_conditioned [OF assms(1,2) info_def]
  have "logLine D rcodeText info = Some (logPrefix rCon info @ ''RESPONSE['' @ rcodeText RcodeNameError @ '']'')"
    using row(9) by (auto simp: logLine_def row(10,11) errorReply_def Let_def)
  then show ?thesis
    using h unfolding info_def Let_def by blast
qed

theorem rule_block_not_in_log_line_witness:
  "\<exists>reply call w' rCon. Handle 0 demoSrc demoEnv demoBacker ((demoEngine False [])\<lparr>egRecorder := True\<rparr>) [10, 1, 2, 3] ''udp'' (demoQuery ''x.ads.com.'') (newWorld None) =
       Ret ((reply, Some call), w') \<and>
     (let info = fst (condition demoDns (\<lambda>c. ''NXDOMAIN'') demoNames (queueRecord demoInfo call 0) []) in
      logLine demoDns (\<lambda>c. ''NXDOMAIN'') info = Some (logPrefix rCon info @ ''RESPONSE[NXDOMAIN]''))"
proof -
  let ?eg = "(demoEngine False [])\<lparr>egRecorder := True\<rparr>"
  have "validRequest (demoQuery ''x.ads.com.'')" "getConsumerForIP ?eg [10, 1, 2, 3] = Some (demoConsumer False)" "\<not> csBlock (ecConfig (demoConsumer False))"
    "domainRuleMatchedForGroups demoEnv ?eg (getGroups (Some (demoConsumer False))) (Qname (hd (msgQuestion (demoQuery ''x.ads.com.'')))) = (MatchBlock, Some demoBlock, ''ads.com'')"
    by code_simp+
  from rule_block_not_in_log_line [OF _ this(1-3) _ this(4), of demoSrc demoBacker "''udp''" "newWorld None" demoDns "\<lambda>c. ''NXDOMAIN''" demoNames demoInfo 0 "[]"]
    demoDns_ok show ?thesis
    by (simp add: demoSrc_def)
qed

end
