(* ===== verification/Metrics_Query.thy ===== *)
theory Metrics_Query
  imports Recorder
begin

text \<open>
  Reading metrics: \<open>QueryFunc\<close>, \<open>Query\<close> and \<open>Stop\<close> of \<^verbatim>\<open>src/engine/metrics.go\<close> and the top tables of
  \<^verbatim>\<open>src/engine/metrics_details.go\<close>.

  A statement is modelled twice: by its text, and by what the database does when the names in it are the
  plain names of metrics. The order of rows that compare equal is a parameter \<open>arrange\<close>; the table of
  snapshots has its row numbers. JSON read into a map that exists is added to that map, as the JSON library
  documents.
\<close>

section \<open>Statements\<close>

record QueryOptions =
  qoChosenMetrics :: string
  qoStepSize :: int

definition apostrophe :: string where
  "apostrophe = [CHR 0x27]"

definition extractText :: "string \<Rightarrow> string" where
  "extractText v = apostrophe @ ''$.'' @ v @ apostrophe @ '', json_extract(MetricsJson, '' @ apostrophe @ ''$.'' @ v @ apostrophe @ '')''"

definition keptMetrics :: "counters \<Rightarrow> string \<Rightarrow> string list" where
  "keptMetrics m chosen = filter (\<lambda>v. m v \<noteq> None) (Split CHR '','' chosen)"

text \<open>When no name is kept the call of \<open>json_set\<close> is left open.\<close>

definition columnText :: "counters \<Rightarrow> string \<Rightarrow> string" where
  "columnText m chosen =
     (if length chosen > 0 then
        (let kept = keptMetrics m chosen in
         ''json_set('' @ apostrophe @ ''{}'' @ apostrophe @ '', '' @ Join (map extractText kept) '', '' @ (if kept = [] then ''MetricsJson'' else '')''))
      else ''MetricsJson'')"

definition metricsStmt :: "counters \<Rightarrow> QueryOptions \<Rightarrow> string" where
  "metricsStmt m options =
     ''SELECT FromTime, AtTime, '' @ columnText m (qoChosenMetrics options) @ '', IntervalSeconds FROM metrics WHERE FromTime >= ? AND AtTime <= ?'' @
     (if qoStepSize options > 1 then '' AND ROWID % ? = 0'' else []) @ '' ORDER BY AtTime ASC''"

text \<open>A prepared statement: the metrics it picks, all of them without a choice, and whether it steps over rows.\<close>

record metricsQuery =
  mqKept :: "string list option"
  mqStepped :: bool

definition prepare :: "counters \<Rightarrow> QueryOptions \<Rightarrow> metricsQuery result" where
  "prepare m options =
     (let kept = keptMetrics m (qoChosenMetrics options) in
      if length (qoChosenMetrics options) > 0 \<and> kept = [] then Inl ''syntax error''
      else Inr \<lparr>mqKept = (if length (qoChosenMetrics options) > 0 then Some kept else None), mqStepped = (qoStepSize options > 1)\<rparr>)"

type_synonym queryCache = "((string \<times> int) \<times> metricsQuery) list"

definition cachedQuery :: "counters \<Rightarrow> QueryOptions \<Rightarrow> queryCache \<Rightarrow> (metricsQuery \<times> queryCache) result" where
  "cachedQuery m options cache =
     (let key = (qoChosenMetrics options, qoStepSize options) in
      case map_of cache key of
        Some q \<Rightarrow> Inr (q, AList.update key q cache)
      | None \<Rightarrow> (case prepare m options of Inl err \<Rightarrow> Inl err | Inr q \<Rightarrow> Inr (q, AList.update key q cache)))"

definition StopMetrics :: "queryCache \<Rightarrow> queryCache" where
  "StopMetrics cache = []"

section \<open>Snapshots\<close>

text \<open>An entry as the accumulator sees it; the two times are scanned into each other's place.\<close>

record MetricsEntry =
  enFromTime :: int
  enAtTime :: int
  enJson :: "string \<rightharpoonup> int option"
  enIntervalSeconds :: int

definition pickJson :: "string list option \<Rightarrow> counters \<Rightarrow> (string \<rightharpoonup> int option)" where
  "pickJson kept values = (case kept of
       None \<Rightarrow> (\<lambda>k. map_option Some (values k))
     | Some ks \<Rightarrow> (\<lambda>k. if k \<in> set ks then Some (values k) else None))"

definition snapshotRows :: "(metricsRow list \<Rightarrow> metricsRow list) \<Rightarrow> (int \<times> metricsRow) list \<Rightarrow> int option \<Rightarrow> int \<Rightarrow> int \<Rightarrow> metricsRow list" where
  "snapshotRows arrange table step start end = arrange (map snd (filter (\<lambda>(rowid, r).
     mrFromTime r \<ge> start \<and> mrAtTime r \<le> end \<and> (case step of None \<Rightarrow> True | Some n \<Rightarrow> rowid mod n = 0)) table))"

definition scanEntry :: "string list option \<Rightarrow> metricsRow \<Rightarrow> MetricsEntry" where
  "scanEntry kept r = \<lparr>enFromTime = mrAtTime r, enAtTime = mrFromTime r, enJson = pickJson kept (mrValues r), enIntervalSeconds = mrIntervalSeconds r\<rparr>"

definition QueryFunc :: "(metricsRow list \<Rightarrow> metricsRow list) \<Rightarrow> counters \<Rightarrow> (int \<times> metricsRow) list \<Rightarrow> QueryOptions \<Rightarrow> int \<Rightarrow> int \<Rightarrow> queryCache
    \<Rightarrow> (MetricsEntry list \<times> queryCache) result" where
  "QueryFunc arrange m table options start end cache = (case cachedQuery m options cache of
       Inl err \<Rightarrow> Inl err
     | Inr (q, cache') \<Rightarrow>
         Inr (map (scanEntry (mqKept q)) (snapshotRows arrange table (if qoStepSize options > 1 then Some (qoStepSize options) else None) start end), cache'))"

text \<open>
  \<open>Query\<close> unmarshals every row into the map of one pooled entry and hands that map out with every entry, so
  all of them have what it holds at the end: \<open>pooled\<close> is what it held before.
\<close>

record queriedEntry =
  qeFromTime :: int
  qeAtTime :: int
  qeIntervalSeconds :: int
  qeValues :: counters

definition presentValues :: "(string \<rightharpoonup> int option) \<Rightarrow> counters" where
  "presentValues json = (\<lambda>k. case json k of Some (Some v) \<Rightarrow> Some v | _ \<Rightarrow> None)"

definition unmarshalAll :: "MetricsEntry list \<Rightarrow> counters \<Rightarrow> counters" where
  "unmarshalAll es pooled = fold (\<lambda>e m. m ++ presentValues (enJson e)) es pooled"

definition Query :: "(metricsRow list \<Rightarrow> metricsRow list) \<Rightarrow> metrics \<Rightarrow> (int \<times> metricsRow) list \<Rightarrow> counters \<Rightarrow> int \<Rightarrow> int \<Rightarrow> queryCache
    \<Rightarrow> (queriedEntry list \<times> queryCache) result run" where
  "Query arrange me table pooled start end cache =
     (if end - start < second then Ret (Inr ([], cache))
      else case meInterval me of
        None \<Rightarrow> Panic
      | Some interval \<Rightarrow>
          if interval = 0 \<or> goDiv (end - start) interval + 1 < 0 then Panic
          else case QueryFunc arrange (meMap me) table \<lparr>qoChosenMetrics = [], qoStepSize = 0\<rparr> start end cache of
            Inl err \<Rightarrow> Ret (Inl err)
          | Inr (es, cache') \<Rightarrow>
              Ret (Inr (map (\<lambda>e. \<lparr>qeFromTime = enFromTime e, qeAtTime = enAtTime e, qeIntervalSeconds = enIntervalSeconds e,
                 qeValues = unmarshalAll es pooled\<rparr>) es, cache')))"

section \<open>Top tables\<close>

record TopInfo =
  tiDesc :: string
  tiCount :: nat

text \<open>\<open>rows\<close> are the rows of the statement, in its order; a negative limit is a negative capacity.\<close>

definition topTable :: "bool \<Rightarrow> (string \<times> nat) list \<Rightarrow> int \<Rightarrow> TopInfo list run" where
  "topTable db rows limit =
     (if \<not> db then Ret []
      else if limit < 0 then Panic
      else Ret (map (\<lambda>(d, n). \<lparr>tiDesc = d, tiCount = n\<rparr>) (if limit > 0 then take (nat limit) rows else rows)))"

type_synonym ordering = "(string \<times> nat) list \<Rightarrow> (string \<times> nat) list"

definition TopDomains :: "ordering \<Rightarrow> bool \<Rightarrow> details \<Rightarrow> int \<Rightarrow> TopInfo list run" where
  "TopDomains arrange db d limit = topTable db (arrange (dtDomains d)) limit"

definition TopQueryTypes :: "ordering \<Rightarrow> bool \<Rightarrow> details \<Rightarrow> int \<Rightarrow> TopInfo list run" where
  "TopQueryTypes arrange db d limit = topTable db (arrange (dtTypes d)) limit"

text \<open>A comparison with \<open>NULL\<close> is never true, so the name is the one of the table of names; the join drops clients that have none.\<close>

definition TopClients :: "ordering \<Rightarrow> bool \<Rightarrow> details \<Rightarrow> int \<Rightarrow> TopInfo list run" where
  "TopClients arrange db d limit = topTable db (arrange (List.map_filter (\<lambda>(address, n).
     map_option (\<lambda>name. (name, n)) (map_of (dtClientNames d) address)) (dtClients d))) limit"

definition TopLists :: "ordering \<Rightarrow> bool \<Rightarrow> details \<Rightarrow> int \<Rightarrow> TopInfo list run" where
  "TopLists arrange db d limit = topTable db (arrange (List.map_filter (\<lambda>(short, n).
     map_option (\<lambda>name. (name, n)) (map_of (dtListNames d) short)) (dtLists d))) limit"

definition TopRules :: "ordering \<Rightarrow> bool \<Rightarrow> details \<Rightarrow> int \<Rightarrow> TopInfo list run" where
  "TopRules arrange db d limit = topTable db (arrange (map (\<lambda>((short, rule), n). (rule, n))
     (filter (\<lambda>((short, rule), n). map_of (dtLists d) short \<noteq> None) (dtRules d)))) limit"

section \<open>Properties\<close>

lemma presentValues_pick: "presentValues (pickJson None values) = values"
  by (auto simp: presentValues_def pickJson_def fun_eq_iff split: option.splits)

lemma unmarshalAll_last:
  assumes "mrValues (last rows) k = Some v" "rows \<noteq> []"
  shows "unmarshalAll (map (scanEntry None) rows) pooled k = Some v"
proof -
  obtain rs r where "rows = rs @ [r]"
    using assms(2) by (metis rev_exhaust)
  then show ?thesis
    using assms(1) by (simp add: unmarshalAll_def scanEntry_def presentValues_pick)
qed

text \<open>
  C39. \<open>Query\<close> does not give back what was stored: every entry it returns has its two times exchanged, and all
  entries share one map, so each of them, however old, has the counters of the newest snapshot in the
  range.
\<close>

theorem metrics_query_shares_values:
  assumes "second \<le> end - start" "meInterval me = Some interval" "0 < interval" "cache = []"
    and "rows = snapshotRows arrange table None start end" "mrValues (last rows) k = Some v"
  shows "\<exists>es cache'. Metrics_Query.Query arrange me table pooled start end cache = Ret (Inr (es, cache')) \<and> length es = length rows \<and>
    (\<forall>i < length rows. qeFromTime (es ! i) = mrAtTime (rows ! i) \<and> qeAtTime (es ! i) = mrFromTime (rows ! i) \<and> qeValues (es ! i) k = Some v)"
proof -
  let ?o = "\<lparr>qoChosenMetrics = [], qoStepSize = 0\<rparr>"
  have "0 \<le> end - start"
    using assms(1) by simp
  then have "0 \<le> goDiv (end - start) interval"
    using assms(3) by (auto simp: goDiv_def sgn_if pos_imp_zdiv_nonneg_iff)
  moreover have "cachedQuery (meMap me) ?o [] = Inr (\<lparr>mqKept = None, mqStepped = False\<rparr>, AList.update ([], 0) \<lparr>mqKept = None, mqStepped = False\<rparr> [])"
    by (simp add: cachedQuery_def prepare_def)
  moreover have "unmarshalAll (map (scanEntry None) rows) pooled k = Some v" if "i < length rows" for i
    using unmarshalAll_last [OF assms(6)] that by (cases rows) auto
  ultimately show ?thesis
    using assms by (auto simp: Metrics_Query.Query_def Metrics_Query.QueryFunc_def scanEntry_def o_def)
qed

definition demoSnapshot :: "int \<Rightarrow> int \<Rightarrow> metricsRow" where
  "demoSnapshot t n = \<lparr>mrFromTime = t, mrAtTime = t + 60, mrValues = [''gudgeon-total'' \<mapsto> n], mrIntervalSeconds = 60\<rparr>"

theorem metrics_query_shares_values_witness:
  "\<exists>es cache'. Metrics_Query.Query (\<lambda>rs. rs) (demoMetrics\<lparr>meInterval := Some second\<rparr>) [(1, demoSnapshot 0 5), (2, demoSnapshot 60 9)] Map.empty 0 (2 * second) [] =
     Ret (Inr (es, cache')) \<and> length es = 2 \<and> qeValues (es ! 0) ''gudgeon-total'' = Some 9"
proof -
  have rows: "snapshotRows (\<lambda>rs. rs) [(1, demoSnapshot 0 5), (2, demoSnapshot 60 9)] None 0 (2 * second) = [demoSnapshot 0 5, demoSnapshot 60 9]"
    by (simp add: snapshotRows_def demoSnapshot_def)
  obtain es cache' where "Metrics_Query.Query (\<lambda>rs. rs) (demoMetrics\<lparr>meInterval := Some second\<rparr>) [(1, demoSnapshot 0 5), (2, demoSnapshot 60 9)] Map.empty 0 (2 * second) [] =
      Ret (Inr (es, cache'))" "length es = length [demoSnapshot 0 5, demoSnapshot 60 9]"
      "\<forall>i < length [demoSnapshot 0 5, demoSnapshot 60 9]. qeFromTime (es ! i) = mrAtTime ([demoSnapshot 0 5, demoSnapshot 60 9] ! i) \<and>
         qeAtTime (es ! i) = mrFromTime ([demoSnapshot 0 5, demoSnapshot 60 9] ! i) \<and> qeValues (es ! i) ''gudgeon-total'' = Some 9"
    using metrics_query_shares_values [of "2 * second" 0 "demoMetrics\<lparr>meInterval := Some second\<rparr>" second "[]" "[demoSnapshot 0 5, demoSnapshot 60 9]" "\<lambda>rs. rs"
        "[(1, demoSnapshot 0 5), (2, demoSnapshot 60 9)]" "''gudgeon-total''" 9 Map.empty, OF _ _ _ _ rows [symmetric]]
    by (auto simp: demoSnapshot_def)
  then show ?thesis
    by auto
qed

text \<open>
  The top tables are what they say: for a positive limit and rows that the database hands over with
  falling counts, the table of domains has the given number of rows, or all of them when there are less,
  each a row of the stored table, and no stored row that is left out has a higher count than one that is
  shown.
\<close>

theorem top_domains_are_top:
  assumes "mset (arrange (dtDomains d)) = mset (dtDomains d)" "sorted_wrt (\<lambda>x y. snd y \<le> snd x) (arrange (dtDomains d))" "0 < limit"
  shows "\<exists>shown. TopDomains arrange True d limit = Ret shown \<and> length shown = min (nat limit) (length (dtDomains d)) \<and>
    (\<exists>hidden. mset (map (\<lambda>t. (tiDesc t, tiCount t)) shown) + mset hidden = mset (dtDomains d) \<and>
       (\<forall>t \<in> set shown. \<forall>(b, n) \<in> set hidden. n \<le> tiCount t)) \<and>
    sorted_wrt (\<lambda>t u. tiCount u \<le> tiCount t) shown"
proof -
  let ?rows = "arrange (dtDomains d)" and ?info = "\<lambda>(d, n). \<lparr>tiDesc = d, tiCount = n\<rparr>"
  let ?shown = "map ?info (take (nat limit) ?rows)" and ?hidden = "drop (nat limit) ?rows"
  have "length ?rows = length (dtDomains d)"
    using assms(1) by (metis size_mset)
  moreover have "map (\<lambda>t. (tiDesc t, tiCount t)) ?shown = take (nat limit) ?rows"
    by (auto simp: o_def case_prod_beta)
  moreover have "mset (take (nat limit) ?rows) + mset ?hidden = mset (dtDomains d)"
    by (simp flip: mset_append add: assms(1))
  moreover have "sorted_wrt (\<lambda>x y. snd y \<le> snd x) (take (nat limit) ?rows @ ?hidden)"
    using assms(2) by simp
  then have order: "sorted_wrt (\<lambda>x y. snd y \<le> snd x) (take (nat limit) ?rows)"
    "\<forall>x \<in> set (take (nat limit) ?rows). \<forall>y \<in> set ?hidden. snd y \<le> snd x"
    unfolding sorted_wrt_append by simp_all
  from order(1) have "sorted_wrt (\<lambda>t u. tiCount u \<le> tiCount t) ?shown"
    by (simp add: sorted_wrt_map case_prod_beta)
  moreover from order(2) have "\<forall>t \<in> set ?shown. \<forall>(b, n) \<in> set ?hidden. n \<le> tiCount t"
    by (simp add: case_prod_beta)
  moreover have "TopDomains arrange True d limit = Ret ?shown"
    using assms(3) by (simp add: TopDomains_def topTable_def)
  ultimately show ?thesis
    by (intro exI [of _ ?shown] conjI exI [of _ ?hidden]) (simp_all add: min.commute)
qed

theorem top_domains_are_top_witness:
  "\<exists>shown. TopDomains (\<lambda>rs. rs) True (demoDetails\<lparr>dtDomains := [(''a.com.'', 3), (''b.com.'', 1)]\<rparr>) 1 = Ret shown \<and> length shown = 1"
  using top_domains_are_top [of "\<lambda>rs. rs" "demoDetails\<lparr>dtDomains := [(''a.com.'', 3), (''b.com.'', 1)]\<rparr>" 1] by auto

end
