(* ===== verification/Web.thy ===== *)
theory Web
  imports Query_Log Metrics_Query
begin

text \<open>
  \<^verbatim>\<open>src/web/web.go\<close> and \<^verbatim>\<open>src/web/web_static.go\<close>: what the handlers of the web interface make of a request. The
  router and the encoding of values as JSON are the library's. The parameters of a request are a function
  from names to texts, empty when the parameter is missing, as \<open>gin.Context.Query\<close> gives them.
\<close>

type_synonym params = "string \<Rightarrow> string"

section \<open>Numbers in parameters\<close>

definition IsDigit :: "char \<Rightarrow> bool" where
  "IsDigit c = (48 \<le> (of_char c :: nat) \<and> (of_char c :: nat) \<le> 57)"

definition digitsValue :: "string \<Rightarrow> nat" where
  "digitsValue s = fold (\<lambda>c n. 10 * n + (of_char c - 48)) s 0"

text \<open>
  \<open>strconv.ParseInt(s, 10, 64)\<close> and \<open>strconv.Atoi\<close>: the value and whether there is no error. A text that is no
  number gives zero, a number out of range the nearest bound.
\<close>

definition ParseInt :: "string \<Rightarrow> int \<times> bool" where
  "ParseInt s =
     (let negative = (case s of c # _ \<Rightarrow> c = CHR ''-'' | [] \<Rightarrow> False);
          digits = (case s of c # t \<Rightarrow> if c = CHR ''-'' \<or> c = CHR ''+'' then t else s | [] \<Rightarrow> []);
          n = digitsValue digits
      in if digits = [] \<or> \<not> list_all IsDigit digits then (0, False)
         else if negative then (if n \<le> 2 ^ 63 then (- int n, True) else (- (2 ^ 63), False))
         else if n < 2 ^ 63 then (int n, True) else (2 ^ 63 - 1, False))"

section \<open>Metrics\<close>

fun getEach :: "string list \<Rightarrow> (string \<times> int) list \<times> metrics \<Rightarrow> (string \<times> int) list \<times> metrics" where
  "getEach [] st = st"
| "getEach (key # keys) st = (case st of (shown, m) \<Rightarrow>
     (let (v, m') = metricGet key m in getEach keys (AList.update key v shown, m')))"

datatype currentMetrics = Chosen "(string \<times> int) list" | All counters

text \<open>\<^const>\<open>None\<close> is the answer that metrics are not enabled. Reading a metric that is not there creates it.\<close>

definition GetMetrics :: "params \<Rightarrow> metrics option \<Rightarrow> (currentMetrics \<times> metrics) option" where
  "GetMetrics q me = (case me of
       None \<Rightarrow> None
     | Some m \<Rightarrow>
         if length (q ''metrics'') > 0 then
           (let (shown, m') = getEach (Split CHR '','' (q ''metrics'')) ([], m) in Some (Chosen shown, m'))
         else Some (All (meMap m), m))"

text \<open>
  The range of a query for snapshots, in nanoseconds. The end is taken from the parameter only when it
  cannot be parsed.
\<close>

definition queryStart :: "params \<Rightarrow> int \<Rightarrow> int option \<Rightarrow> int run" where
  "queryStart q now duration =
     (if length (q ''start'') > 0 then
        (let (i, ok) = ParseInt (q ''start'') in
         if ok then Ret (i * second)
         else case duration of None \<Rightarrow> Panic | Some d \<Rightarrow> Ret ((goDiv now second - goDiv d second) * second))
      else Ret 0)"

definition queryEnd :: "params \<Rightarrow> int \<Rightarrow> int" where
  "queryEnd q now =
     (if length (q ''end'') > 0 then (let (i, ok) = ParseInt (q ''end'') in if \<not> ok then i * second else now) else now)"

definition stepSize :: "params \<Rightarrow> int" where
  "stepSize q =
     (let parsed = (if length (q ''step'') > 0 then (let (i, ok) = ParseInt (q ''step'') in if ok then i else 1) else 1) in
      if parsed < 1 then 1 else if parsed > 20 then 20 else parsed)"

datatype piece = Raw string | Entry MetricsEntry | Total nat | Item bufferRow

fun entryPieces :: "bool \<Rightarrow> MetricsEntry list \<Rightarrow> piece list" where
  "entryPieces first [] = []"
| "entryPieces first (e # es) = (if first then [] else [Raw '','']) @ Entry e # entryPieces False es"

text \<open>The body written, piece by piece; an error comes after the status has been sent.\<close>

definition QueryMetrics :: "(metricsRow list \<Rightarrow> metricsRow list) \<Rightarrow> params \<Rightarrow> int \<Rightarrow> metrics option \<Rightarrow> (int \<times> metricsRow) list \<Rightarrow> queryCache
    \<Rightarrow> (piece list \<times> queryCache) run" where
  "QueryMetrics arrange q now me table cache = (case me of
       None \<Rightarrow> Ret ([Raw ''Metrics not enabled''], cache)
     | Some m \<Rightarrow> bind_run (queryStart q now (meDuration m)) (\<lambda>start.
         case Metrics_Query.QueryFunc arrange (meMap m) table \<lparr>qoChosenMetrics = q ''metrics'', qoStepSize = stepSize q\<rparr> start (queryEnd q now) cache of
           Inl err \<Rightarrow> Ret ([Raw ''['', Raw ''Could not fetch metrics''], cache)
         | Inr (es, cache') \<Rightarrow> Ret (Raw ''['' # entryPieces True es @ [Raw '']''], cache')))"

section \<open>The query log\<close>

definition queryLimit :: "params \<Rightarrow> int" where
  "queryLimit q =
     (if length (q ''limit'') > 0 then
        (if ToLower (q ''limit'') = ''none'' then 0 else (let (i, ok) = ParseInt (q ''limit'') in if ok then i else 100))
      else 100)"

definition querySkip :: "params \<Rightarrow> int" where
  "querySkip q = (if length (q ''skip'') > 0 then (let (i, ok) = ParseInt (q ''skip'') in if ok then i else 0) else 0)"

definition queryTime :: "string \<Rightarrow> int option" where
  "queryTime s = (if length s > 0 then (let (i, ok) = ParseInt s in if ok then Some (i * second) else None) else None)"

definition queryBlocked :: "params \<Rightarrow> bool option" where
  "queryBlocked q = (if ToLower (q ''blocked'') = ''true'' then Some True else if ToLower (q ''blocked'') = ''false'' then Some False else None)"

definition webLogQuery :: "params \<Rightarrow> QueryLogQuery" where
  "webLogQuery q = \<lparr>qqAddress = q ''address'', qqClientName = q ''clientName'', qqConnectionType = [], qqRequestDomain = q ''rdomain'',
     qqRequestType = [], qqResponseText = q ''responseText'', qqBlocked = queryBlocked q, qqCached = None, qqMatch = None, qqMatchList = [],
     qqMatchRule = q ''matchRule'', qqAfter = queryTime (q ''after''), qqBefore = queryTime (q ''before''), qqSkip = querySkip q,
     qqLimit = queryLimit q, qqSortBy = ToLower (q ''sortby''), qqDirection = ToUpper (q ''direction'')\<rparr>"

fun itemPieces :: "bool \<Rightarrow> (nat \<times> bufferRow) list \<Rightarrow> piece list" where
  "itemPieces first [] = (if first then [Total 0, Raw '', items: [''] else [])"
| "itemPieces first ((n, r) # rs) =
     (if first then [Total n, Raw '', items: [''] else [Raw '', '']) @ Item r # itemPieces False rs"

definition GetQueryLogInfo :: "(string \<Rightarrow> string \<Rightarrow> bool) \<Rightarrow> (string \<Rightarrow> string \<Rightarrow> bufferRow list \<Rightarrow> bufferRow list) \<Rightarrow> bool \<Rightarrow> bufferRow list option \<Rightarrow> params
    \<Rightarrow> piece list" where
  "GetQueryLogInfo like arrange enabled table q =
     (if \<not> enabled then [Raw ''Query log not enabled'']
      else Raw ''{'' # itemPieces True (Query_Log.QueryFunc like arrange table (webLogQuery q)) @ [Raw '']}''])"

section \<open>Top tables and tests\<close>

definition topLimit :: "params \<Rightarrow> int" where
  "topLimit q = (if length (q ''limit'') > 0 then (let (i, ok) = ParseInt (q ''limit'') in if ok then i else 5) else 5)"

text \<open>The inner \<^const>\<open>None\<close> is JSON's null for an unknown table.\<close>

definition GetTop :: "ordering \<Rightarrow> bool \<Rightarrow> bool \<Rightarrow> bool \<Rightarrow> details \<Rightarrow> string \<Rightarrow> params \<Rightarrow> TopInfo list option option run" where
  "GetTop arrange metrics detailed db d topType q =
     (if \<not> metrics \<or> \<not> detailed then Ret None
      else
        (let t = ToLower topType; found = (\<lambda>r. bind_run r (\<lambda>infos. Ret (Some (Some infos)))) in
         if t = ''domains'' then found (TopDomains arrange db d (topLimit q))
         else if t = ''lists'' then found (TopLists arrange db d (topLimit q))
         else if t = ''clients'' then found (TopClients arrange db d (topLimit q))
         else if t = ''rules'' then found (TopRules arrange db d (topLimit q))
         else if t = ''types'' then found (TopQueryTypes arrange db d (topLimit q))
         else Ret (Some None)))"

definition GetTestComponents :: "srclib \<Rightarrow> 'f engine \<Rightarrow> ((string list \<times> string list \<times> string list) \<times> 'f engine) run" where
  "GetTestComponents S eg =
     (let (cs, eg1) = Consumers S eg; (gs, eg2) = Groups S eg1 in
      bind_run (Resolvers eg2) (\<lambda>(rs, eg3). Ret ((cs, gs, rs), eg3)))"

text \<open>
  The test of a domain. Errors are written and the handler goes on; a name of several groups is passed on
  as one name. \<open>typeOf\<close> is \<open>dns.StringToType\<close>.
\<close>

definition testErrors :: "(string \<rightharpoonup> 16 word) \<Rightarrow> params \<Rightarrow> string list" where
  "testErrors typeOf q =
     (if length (q ''domain'') < 1 then [''Domain must be provided''] else []) @
     (if length (q ''qtype'') < 1 then [''Query type must be provided'']
      else if typeOf (ToUpper (q ''qtype'')) = None then [''Query type must be a valid DNS query type''] else [])"

definition testQuestion :: "dnslib \<Rightarrow> (string \<rightharpoonup> 16 word) \<Rightarrow> params \<Rightarrow> Msg" where
  "testQuestion D typeOf q = lookupMsg\<lparr>msgQuestion := [\<lparr>Qname = Fqdn D (q ''domain''),
     Qtype = (case typeOf (ToUpper (q ''qtype'')) of None \<Rightarrow> 0 | Some t \<Rightarrow> t), Qclass = ClassINET\<rparr>]\<rparr>"

definition GetTestResult :: "nat \<Rightarrow> srclib \<Rightarrow> 'f storelib \<Rightarrow> 'b backer \<Rightarrow> 'f engine \<Rightarrow> (string \<rightharpoonup> 16 word) \<Rightarrow> params \<Rightarrow> 'b world
    \<Rightarrow> ((string list \<times> (ptr \<times> resolutionResult) option) \<times> 'b world) run" where
  "GetTestResult n S E B eg typeOf q w =
     (let question = testQuestion (srcDns S) typeOf q;
          rCon = Some \<lparr>rqStarted = clock S (wTick w), rqProtocol = ''tcp'', rqGroups = []\<rparr>;
          answer = (\<lambda>r. bind_run r (\<lambda>((p, rc, result), w'). Ret ((testErrors typeOf q, Some (p, result)), w')))
      in if length (q ''consumer'') > 0 then answer (HandleWithConsumerName n S E B eg (q ''consumer'') rCon question (tickW w))
         else if length (q ''groups'') > 0 then answer (HandleWithGroups n S E B eg [q ''groups''] rCon question (tickW w))
         else if length (q ''resolvers'') > 0 then answer (HandleWithResolvers n S E B eg [q ''resolvers''] rCon question (tickW w))
         else Ret ((testErrors typeOf q, None), tickW w))"

section \<open>Static files\<close>

datatype served = NotServed | ServedFile string string | ServedGzip string string | ServedTemplate string

text \<open>\<open>mimeOf\<close> is \<open>mime.TypeByExtension\<close>; the cache of types is kept by path, default included.\<close>

definition extensionOf :: "string \<Rightarrow> string" where
  "extensionOf path = CHR ''.'' # rev (takeWhile (\<lambda>c. c \<noteq> CHR ''.'') (rev path))"

definition getContentType :: "(string \<Rightarrow> string) \<Rightarrow> string \<Rightarrow> string \<Rightarrow> (string \<times> string) list \<Rightarrow> string \<times> (string \<times> string) list" where
  "getContentType mimeOf path defaultType types = (case map_of types path of
       Some t \<Rightarrow> (t, types)
     | None \<Rightarrow>
         (let found = (if Contains path ''.'' then mimeOf (extensionOf path) else []);
              t = (if found = [] then defaultType else found)
          in (t, AList.update path t types)))"

definition staticPath :: "string \<Rightarrow> string" where
  "staticPath path = (if path = [] \<or> path = ''/'' then ''/index.html'' else path)"

text \<open>A missing index template is read through a nil file.\<close>

definition ServeStatic :: "(string \<Rightarrow> string) \<Rightarrow> (string \<rightharpoonup> string) \<Rightarrow> string \<Rightarrow> (string \<times> string) list \<Rightarrow> (served \<times> (string \<times> string) list) run" where
  "ServeStatic mimeOf box url types =
     (if HasSuffix url ''.tmpl'' then Ret (NotServed, types)
      else
        (let path = staticPath url in
         case box path of
           Some content \<Rightarrow> (let (t, types') = getContentType mimeOf path ''application/octet-stream'' types in Ret (ServedFile t content, types'))
         | None \<Rightarrow>
             (case box (path @ ''.gz'') of
                Some content \<Rightarrow> (let (t, types') = getContentType mimeOf path ''application/x-gzip'' types in Ret (ServedGzip t content, types'))
              | None \<Rightarrow>
                  (case box (path @ ''.tmpl'') of
                     Some content \<Rightarrow> Ret (ServedTemplate content, types)
                   | None \<Rightarrow> (case box ''/index.html.tmpl'' of Some content \<Rightarrow> Ret (ServedTemplate content, types) | None \<Rightarrow> Panic)))))"

section \<open>Numbers\<close>

lemma digit_char_value: "d < 10 \<Longrightarrow> IsDigit (digit_char d) \<and> (of_char (digit_char d) :: nat) - 48 = d"
proof -
  have "\<forall>d \<in> set [0..<10]. IsDigit (digit_char d) \<and> (of_char (digit_char d) :: nat) - 48 = d"
    by code_simp
  then show "d < 10 \<Longrightarrow> ?thesis"
    by simp
qed

lemma Itoa_digits: "list_all IsDigit (Itoa n) \<and> digitsValue (Itoa n) = n \<and> Itoa n \<noteq> []"
proof (induction n rule: Itoa.induct)
  case (1 n)
  show ?case
    using 1 digit_char_value [of n] digit_char_value [of "n mod 10"]
    by (cases "n < 10") (subst (1 2 3) Itoa.simps, simp add: digitsValue_def)+
qed

lemma IsDigit_no_sign: "IsDigit c \<Longrightarrow> c \<noteq> CHR ''-'' \<and> c \<noteq> CHR ''+''"
  by (auto simp: IsDigit_def)

lemma ParseInt_Itoa: "n < 2 ^ 63 \<Longrightarrow> ParseInt (Itoa n) = (int n, True)"
  using Itoa_digits [of n] IsDigit_no_sign by (cases "Itoa n") (auto simp: ParseInt_def Let_def)

section \<open>Metrics created by reading\<close>

lemma metricGet_in: "meMap (snd (metricGet key m)) (MetricsPrefix @ key) \<noteq> None"
  by (auto simp: metricGet_def split: option.splits)

lemma metricGet_keeps: "meMap m k \<noteq> None \<Longrightarrow> meMap (snd (metricGet key m)) k \<noteq> None"
  by (auto simp: metricGet_def split: option.splits)

lemma getEach_Cons:
  "getEach (k # ks) st = getEach ks (AList.update k (fst (metricGet k (snd st))) (fst st), snd (metricGet k (snd st)))"
  by (simp add: case_prod_beta Let_def)

lemma getEach_keeps: "meMap (snd st) k \<noteq> None \<Longrightarrow> meMap (snd (getEach keys st)) k \<noteq> None"
proof (induction keys arbitrary: st)
  case (Cons key keys)
  show ?case
    unfolding getEach_Cons by (rule Cons.IH) (use metricGet_keeps [OF Cons.prems] in simp)
qed simp

lemma getEach_in: "key \<in> set keys \<Longrightarrow> meMap (snd (getEach keys st)) (MetricsPrefix @ key) \<noteq> None"
proof (induction keys arbitrary: st)
  case (Cons k keys)
  show ?case
  proof (cases "key = k")
    case True
    show ?thesis
      unfolding getEach_Cons by (rule getEach_keeps) (use metricGet_in True in simp)
  next
    case False
    show ?thesis
      unfolding getEach_Cons by (rule Cons.IH) (use Cons.prems False in simp)
  qed
qed simp

lemma Split_single: "sep \<notin> set s \<Longrightarrow> Split sep s = [s]"
  by (induction s) auto

section \<open>Pages\<close>

lemma ToLowerC_digit: "IsDigit c \<Longrightarrow> ToLowerC c = c"
  by (auto simp: IsDigit_def ToLowerC_def)

lemma Itoa_not_none: "ToLower (Itoa n) \<noteq> ''none''"
proof (cases "Itoa n")
  case (Cons c cs)
  then have "IsDigit c"
    using Itoa_digits [of n] by simp
  then have "ToLowerC c = c" "c \<noteq> CHR ''n''"
    by (auto simp: ToLowerC_digit IsDigit_def)
  then show ?thesis
    by (simp add: Cons ToLower_def)
qed (use Itoa_digits [of n] in simp)

definition webPage :: "params \<Rightarrow> nat \<Rightarrow> nat \<Rightarrow> params" where
  "webPage q len p = q(''limit'' := Itoa len, ''skip'' := Itoa (p * len))"

lemma webLogQuery_page: "len < 2 ^ 63 \<Longrightarrow> p * len < 2 ^ 63 \<Longrightarrow> webLogQuery (webPage q len p) = page (webLogQuery q) len p"
  using Itoa_digits [of len] Itoa_digits [of "p * len"]
  by (simp add: webLogQuery_def page_def queryBlocked_def queryLimit_def querySkip_def Itoa_not_none ParseInt_Itoa webPage_def)

definition itemsOf :: "piece list \<Rightarrow> bufferRow list" where
  "itemsOf ps = List.map_filter (\<lambda>x. case x of Item r \<Rightarrow> Some r | _ \<Rightarrow> None) ps"

definition totalsOf :: "piece list \<Rightarrow> nat list" where
  "totalsOf ps = List.map_filter (\<lambda>x. case x of Total n \<Rightarrow> Some n | _ \<Rightarrow> None) ps"

lemma itemPieces_items: "itemsOf (itemPieces first (map (\<lambda>r. (n, r)) rs)) = rs"
  by (induction rs arbitrary: first) (auto simp: itemsOf_def List.map_filter_def)

lemma itemPieces_totals: "totalsOf (itemPieces first (map (\<lambda>r. (n, r)) rs)) = (if first then [if rs = [] then 0 else n] else [])"
  by (induction rs arbitrary: first) (auto simp: totalsOf_def List.map_filter_def)

lemma GetQueryLogInfo_page:
  assumes "ToLower (sortColumn (webLogQuery q)) \<in> set qlogColumns" "0 < len" "len < 2 ^ 63" "p * len < 2 ^ 63"
  shows "itemsOf (GetQueryLogInfo like arrange True (Some rows) (webPage q len p)) =
      take len (drop (p * len) (arrange (ToLower (sortColumn (webLogQuery q))) (sortDirection (webLogQuery q)) (filter (whereHolds like (webLogQuery q)) rows)))"
    and "totalsOf (GetQueryLogInfo like arrange True (Some rows) (webPage q len p)) =
      [if itemsOf (GetQueryLogInfo like arrange True (Some rows) (webPage q len p)) = [] then 0 else length (filter (whereHolds like (webLogQuery q)) rows)]"
proof -
  let ?found = "take len (drop (p * len) (arrange (ToLower (sortColumn (webLogQuery q))) (sortDirection (webLogQuery q)) (filter (whereHolds like (webLogQuery q)) rows)))"
  let ?n = "length (filter (whereHolds like (webLogQuery q)) rows)"
  have g: "GetQueryLogInfo like arrange True (Some rows) (webPage q len p) = Raw ''{'' # itemPieces True (map (\<lambda>r. (?n, r)) ?found) @ [Raw '']}'']"
    by (simp add: GetQueryLogInfo_def webLogQuery_page [OF assms(3,4)] QueryFunc_page [OF assms(1,2)])
  have parts: "itemsOf (Raw a # ps @ [Raw b]) = itemsOf ps" "totalsOf (Raw a # ps @ [Raw b]) = totalsOf ps" for a b ps
    by (simp_all add: itemsOf_def totalsOf_def List.map_filter_def)
  show items: "itemsOf (GetQueryLogInfo like arrange True (Some rows) (webPage q len p)) = ?found"
    unfolding g parts itemPieces_items ..
  show "totalsOf (GetQueryLogInfo like arrange True (Some rows) (webPage q len p)) =
      [if itemsOf (GetQueryLogInfo like arrange True (Some rows) (webPage q len p)) = [] then 0 else ?n]"
    unfolding items unfolding g parts itemPieces_totals by simp
qed

section \<open>Properties\<close>


definition demoParams :: "(string \<times> string) list \<Rightarrow> params" where
  "demoParams ps name = (case map_of ps name of None \<Rightarrow> [] | Some v \<Rightarrow> v)"


text \<open>
  The end of the range of a query for snapshots is ignored: whatever number the request gives, the
  range ends now, and only a text that is no number ends it elsewhere, at the beginning of 1970.
\<close>

theorem query_end_ignored:
  "(n < 2 ^ 63 \<longrightarrow> queryEnd (q(''end'' := Itoa n)) now = now) \<and> queryEnd (q(''end'' := ''tomorrow'')) now = 0"
proof -
  have "ParseInt ''tomorrow'' = (0, False)"
    by (simp add: ParseInt_def IsDigit_def)
  then have "queryEnd (q(''end'' := ''tomorrow'')) now = 0"
    by (simp add: queryEnd_def)
  moreover have "queryEnd (q(''end'' := Itoa n)) now = now" if "n < 2 ^ 63"
    using Itoa_digits [of n] by (simp add: queryEnd_def ParseInt_Itoa [OF that])
  ultimately show ?thesis
    by blast
qed

theorem query_end_ignored_witness: "queryEnd ((demoParams [])(''end'' := Itoa 1500000000)) 99 = 99"
  using query_end_ignored [of 1500000000 "demoParams []" 99] by simp



end
