(* ===== verification/Names.thy ===== *)
theory Names
  imports Dns Util "HOL-Library.AList"
begin

text \<open>
  \<^verbatim>\<open>src/engine/mdns.go\<close> and \<^verbatim>\<open>src/util/netbios.go\<close>: the names of clients that multicast DNS and NetBIOS tell.

  The sockets are left out: the theory starts from the messages the listener passes on and from the
  datagram a client answers with. A Go map of strings is an association list.
\<close>

type_synonym names = "(string \<times> string) list"

section \<open>mdns.go\<close>

definition hostnameReadPriority :: "string list" where
  "hostnameReadPriority = [''txt:fn'', ''txt:f'', ''txt:md'', ''name'', ''name6'', ''hostname'', ''hostname6'']"

text \<open>The part of a name before its first dot, kept under \<open>key\<close> unless a shorter one is there.\<close>

definition keepShort :: "string \<Rightarrow> string \<Rightarrow> names \<Rightarrow> names" where
  "keepShort key name entryMap = (case Index name ''.'' of
       None \<Rightarrow> entryMap
     | Some idx \<Rightarrow>
         (let shortname = take idx name in
          if shortname = [] then entryMap
          else case map_of entryMap key of
            Some old \<Rightarrow> if length shortname < length old then AList.update key shortname entryMap else entryMap
          | None \<Rightarrow> AList.update key shortname entryMap))"

fun valueA :: "RR \<Rightarrow> ip option" where
  "valueA (RR_A h a) = a"
| "valueA _ = None"

fun valueAAAA :: "RR \<Rightarrow> ip option" where
  "valueAAAA (RR_AAAA h a) = a"
| "valueAAAA _ = None"

definition parseAddress :: "string \<Rightarrow> string \<Rightarrow> string \<Rightarrow> ip option \<Rightarrow> string \<Rightarrow> names \<Rightarrow> names" where
  "parseAddress hostKey addressKey shortKey value name entryMap =
     (if name = [] then entryMap
      else
        (let m1 = AList.update hostKey name entryMap;
             m2 = (case value of None \<Rightarrow> m1 | Some a \<Rightarrow> AList.update addressKey (IP_String a) m1)
         in keepShort shortKey name m2))"

definition parseTxt :: "string \<Rightarrow> names \<Rightarrow> names" where
  "parseTxt txt entryMap = (case Index txt ''='' of
       Some idx \<Rightarrow> AList.update (''txt:'' @ take idx txt) (drop (Suc idx) txt) entryMap
     | None \<Rightarrow> AList.update ''txt'' txt entryMap)"

text \<open>The switch is on the type in the header; a text record that is none panics in the type assertion.\<close>

definition parseEntry :: "RR \<Rightarrow> names \<Rightarrow> names run" where
  "parseEntry rr entryMap =
     (if Rrtype (Header rr) = TypeA then Ret (parseAddress ''hostname'' ''address'' ''name'' (valueA rr) (HName (Header rr)) entryMap)
      else if Rrtype (Header rr) = TypeAAAA then Ret (parseAddress ''hostname6'' ''address6'' ''name6'' (valueAAAA rr) (HName (Header rr)) entryMap)
      else if Rrtype (Header rr) = TypeTXT then (case rr of RR_TXT h txts \<Rightarrow> Ret (fold parseTxt txts entryMap) | _ \<Rightarrow> Panic)
      else Ret entryMap)"

fun parseEntries :: "RR list \<Rightarrow> names \<Rightarrow> names run" where
  "parseEntries [] entryMap = Ret entryMap"
| "parseEntries (rr # entries) entryMap = bind_run (parseEntry rr entryMap) (parseEntries entries)"

definition ParseMulticastMessage :: "Msg \<Rightarrow> names result run" where
  "ParseMulticastMessage msg =
     (if length (msgAnswer msg) < 1 \<and> length (msgExtra msg) < 1 then Ret (Inl ''No messages found'')
      else bind_run (parseEntries (msgAnswer msg) []) (\<lambda>m1. bind_run (parseEntries (msgExtra msg) m1) (\<lambda>parsed.
        if length parsed < 1 then Ret (Inl ''No messages parsed'') else Ret (Inr parsed))))"

text \<open>
  The loop over the values cached for an address. Both branches of the comparison of lengths keep the
  cached value.
\<close>

fun mergeCached :: "names \<Rightarrow> names \<Rightarrow> names" where
  "mergeCached [] parsed = parsed"
| "mergeCached ((key, cval) # cmap) parsed =
     (let v = TrimSpace cval in
      mergeCached cmap (if v = [] \<or> v = ''0'' then parsed
        else case map_of parsed key of
          Some pval \<Rightarrow> if length v < length pval then AList.update key v parsed else AList.update key v parsed
        | None \<Rightarrow> AList.update key v parsed))"

type_synonym mdnsCache = "(string \<times> names) list"

definition valueOf :: "names \<Rightarrow> string \<Rightarrow> string" where
  "valueOf m key = (case map_of m key of None \<Rightarrow> [] | Some v \<Rightarrow> v)"

fun mergeAddresses :: "mdnsCache \<Rightarrow> string list \<Rightarrow> names \<Rightarrow> names" where
  "mergeAddresses cache [] parsed = parsed"
| "mergeAddresses cache (addr # addrs) parsed =
     mergeAddresses cache addrs (if addr = [] then parsed
       else case map_of cache addr of None \<Rightarrow> parsed | Some cmap \<Rightarrow> mergeCached cmap parsed)"

fun cacheUnder :: "string list \<Rightarrow> names \<Rightarrow> mdnsCache \<Rightarrow> mdnsCache" where
  "cacheUnder [] parsed cache = cache"
| "cacheUnder (addr # addrs) parsed cache = cacheUnder addrs parsed (if addr = [] then cache else AList.update addr parsed cache)"

text \<open>One turn of \<open>CacheMulticastMessages\<close>, and the turns for a list of messages.\<close>

definition cacheMulticastMessage :: "Msg \<Rightarrow> mdnsCache \<Rightarrow> mdnsCache run" where
  "cacheMulticastMessage msg cache = bind_run (ParseMulticastMessage msg) (\<lambda>r. case r of
       Inl e \<Rightarrow> Ret cache
     | Inr parsed \<Rightarrow>
         if map_of parsed ''address'' = None \<and> map_of parsed ''address6'' = None then Ret cache
         else
           (let addresses = [valueOf parsed ''address'', valueOf parsed ''address6''];
                merged = mergeAddresses cache addresses parsed
            in if length merged < 1 then Ret cache else Ret (cacheUnder addresses merged cache)))"

fun CacheMulticastMessages :: "Msg list \<Rightarrow> mdnsCache \<Rightarrow> mdnsCache run" where
  "CacheMulticastMessages [] cache = Ret cache"
| "CacheMulticastMessages (msg # msgs) cache = bind_run (cacheMulticastMessage msg cache) (CacheMulticastMessages msgs)"

fun firstName :: "string list \<Rightarrow> names \<Rightarrow> string" where
  "firstName [] cmap = []"
| "firstName (key # keys) cmap = (case map_of cmap key of
       Some value \<Rightarrow> if value \<noteq> [] \<and> value \<noteq> ''0'' then value else firstName keys cmap
     | None \<Rightarrow> firstName keys cmap)"

definition ReadCachedHostname :: "mdnsCache \<Rightarrow> string \<Rightarrow> string" where
  "ReadCachedHostname cache address = (case map_of cache address of
       None \<Rightarrow> []
     | Some cmap \<Rightarrow> firstName hostnameReadPriority cmap)"

section \<open>netbios.go\<close>

definition byteBufferSize :: nat where
  "byteBufferSize = 512"

text \<open>
  The loops that look for a zero byte: an index out of range panics, \<^const>\<open>None\<close> is the return without a
  name when the end is reached.
\<close>

function seekZero :: "8 word list \<Rightarrow> nat \<Rightarrow> nat option run" where
  "seekZero rbytes offset =
     (if length rbytes \<le> offset then Panic
      else if rbytes ! offset = 0 then Ret (Some offset)
      else if Suc offset = length rbytes then Ret None
      else seekZero rbytes (Suc offset))"
  by auto
termination
  by (relation "measure (\<lambda>(rbytes, offset). length rbytes - offset)") auto

declare seekZero.simps [simp del]

definition bytesText :: "8 word list \<Rightarrow> string" where
  "bytesText bs = map (\<lambda>b. char_of (unat b)) bs"

text \<open>Reading the answer from the buffer, after the datagram has been read into it.\<close>

definition netbiosName :: "8 word list \<Rightarrow> string run" where
  "netbiosName rbytes =
     (if length rbytes < 8 then Panic
      else if rbytes ! 6 = 0 \<and> rbytes ! 7 = 0 then Ret []
      else if length rbytes < 12 then Panic
      else
        (let body = drop 12 rbytes in
         bind_run (seekZero body 0) (\<lambda>found. case found of
           None \<Rightarrow> Ret []
         | Some offset \<Rightarrow>
             (let answer = drop (Suc offset) body in
              if length answer < 12 then Ret []
              else if answer ! 10 = 0 then Ret []
              else
                (let name = drop 11 answer in
                 bind_run (seekZero name 0) (\<lambda>end. case end of
                   None \<Rightarrow> Ret []
                 | Some stop \<Rightarrow> Ret (TrimSpace (bytesText (take stop name)))))))))"

text \<open>
  The datagram overwrites the start of a buffer from the slab; how long it was is not looked at. \<open>exchange\<close>
  dials, writes and reads.
\<close>

definition intoBuffer :: "8 word list \<Rightarrow> 8 word list \<Rightarrow> 8 word list" where
  "intoBuffer datagram buffer = take (length buffer) datagram @ drop (length datagram) buffer"

definition LookupNetBIOSName :: "(string \<Rightarrow> 8 word list result) \<Rightarrow> 8 word list \<Rightarrow> string \<Rightarrow> string result run" where
  "LookupNetBIOSName exchange buffer address = (case ParseIP address of
       None \<Rightarrow> Ret (Inr [])
     | Some ip \<Rightarrow>
         (case exchange (IP_String ip @ '':137'') of
            Inl err \<Rightarrow> Ret (Inl err)
          | Inr datagram \<Rightarrow> bind_run (netbiosName (intoBuffer datagram buffer)) (\<lambda>name. Ret (Inr name))))"

section \<open>Looking for the zero byte\<close>

lemma seekZero_returns: "offset < length bs \<Longrightarrow> \<exists>r. seekZero bs offset = Ret r \<and> (\<forall>o'. r = Some o' \<longrightarrow> o' < length bs)"
proof (induction bs offset rule: seekZero.induct)
  case (1 bs offset)
  then show ?case
    by (subst seekZero.simps) (auto simp: not_le)
qed

lemma seekZero_found: "0 \<notin> set xs \<Longrightarrow> offset \<le> length xs \<Longrightarrow> seekZero (xs @ 0 # ys) offset = Ret (Some (length xs))"
proof (induction "length xs - offset" arbitrary: offset)
  case 0
  then show ?case
    by (subst seekZero.simps) (simp add: nth_append)
next
  case (Suc n)
  then have "seekZero (xs @ 0 # ys) (Suc offset) = Ret (Some (length xs))"
    by simp
  moreover have "(xs @ 0 # ys) ! offset \<noteq> 0"
    using Suc by (metis add_Suc diff_is_0_eq nat.simps(3) not_le nth_append nth_mem)
  ultimately show ?case
    using Suc by (subst seekZero.simps) simp
qed

lemma netbiosName_returns:
  assumes "12 < length rbytes"
  shows "\<exists>name. netbiosName rbytes = Ret name"
proof -
  obtain r where r: "seekZero (drop 12 rbytes) 0 = Ret r"
    using seekZero_returns [of 0 "drop 12 rbytes"] assms by auto
  show ?thesis
  proof (cases r)
    case (Some offset)
    let ?answer = "drop (Suc offset) (drop 12 rbytes)"
    show ?thesis
    proof (cases "length ?answer < 12")
      case False
      then have "0 < length (drop 11 ?answer)"
        by (simp add: not_less)
      then obtain r' where "seekZero (drop 11 ?answer) 0 = Ret r'"
        using seekZero_returns [of 0 "drop 11 ?answer"] by blast
      then show ?thesis
        using r Some assms by (cases r') (auto simp: netbiosName_def Let_def)
    qed (use r Some assms in \<open>auto simp: netbiosName_def Let_def\<close>)
  qed (use r assms in \<open>auto simp: netbiosName_def Let_def\<close>)
qed

lemma netbiosName_found:
  assumes "length header = 12" "header ! 6 \<noteq> 0 \<or> header ! 7 \<noteq> 0" "0 \<notin> set question" "length fixed = 10" "count \<noteq> 0" "0 \<notin> set name"
  shows "netbiosName (header @ question @ 0 # fixed @ count # name @ 0 # rest) = Ret (TrimSpace (bytesText name))"
proof -
  let ?body = "question @ 0 # fixed @ count # name @ 0 # rest"
  have "seekZero ?body 0 = Ret (Some (length question))" "seekZero (name @ 0 # rest) 0 = Ret (Some (length name))"
    using seekZero_found assms(3,6) by blast+
  moreover have "(header @ ?body) ! 6 = header ! 6" "(header @ ?body) ! 7 = header ! 7" "drop 12 (header @ ?body) = ?body"
    using assms(1) by (simp_all add: nth_append)
  moreover have "drop (Suc (length question)) ?body = fixed @ count # name @ 0 # rest" "(fixed @ count # name @ 0 # rest) ! 10 = count"
    "drop 11 (fixed @ count # name @ 0 # rest) = name @ 0 # rest"
    using assms(4) by (simp_all add: nth_append)
  ultimately show ?thesis
    using assms(1,2,4,5) by (auto simp: netbiosName_def Let_def)
qed

lemma intoBuffer_length: "length (intoBuffer datagram buffer) = length buffer"
  by (simp add: intoBuffer_def)

section \<open>Cached names\<close>

definition settled :: "string \<Rightarrow> bool" where
  "settled v \<longleftrightarrow> v \<noteq> [] \<and> v \<noteq> ''0'' \<and> TrimSpace v = v"

lemma mergeCached_map:
  "map_of (mergeCached cmap parsed) key =
     (case map_of (rev (filter (\<lambda>(k, v). v \<noteq> [] \<and> v \<noteq> ''0'') (map (\<lambda>(k, v). (k, TrimSpace v)) cmap))) key of
        None \<Rightarrow> map_of parsed key | Some v \<Rightarrow> Some v)"
  by (induction cmap parsed rule: mergeCached.induct) (auto simp: Let_def update_conv' map_add_def split: option.splits)

lemma mergeCached_keeps:
  assumes "distinct (map fst cmap)" "map_of cmap key = Some v" "settled v"
  shows "map_of (mergeCached cmap parsed) key = Some v"
  using assms
proof (induction cmap parsed rule: mergeCached.induct)
  case (2 k cval cmap parsed)
  show ?case
  proof (cases "k = key")
    case True
    then have "key \<notin> fst ` set cmap" "cval = v"
      using 2 by auto
    moreover have "map_of (mergeCached cmap p) key = map_of p key" if "key \<notin> fst ` set cmap" for p
      using that by (force simp: mergeCached_map split: option.splits dest!: map_of_SomeD)
    ultimately show ?thesis
      using True \<open>settled v\<close> by (auto simp: settled_def Let_def update_conv' split: option.splits)
  next
    case False
    then show ?thesis
      using 2 by (auto simp: Let_def split: option.splits)
  qed
qed simp

definition keyed :: "names \<Rightarrow> bool" where
  "keyed m \<longleftrightarrow> distinct (map fst m)"

lemma keyed_update [simp]: "keyed m \<Longrightarrow> keyed (AList.update k v m)" "keyed []"
  by (simp_all add: keyed_def distinct_update)

lemma keyed_parse: "keyed m \<Longrightarrow> parseEntry rr m = Ret m' \<Longrightarrow> keyed m'"
proof -
  have texts: "keyed m \<Longrightarrow> keyed (fold parseTxt txts m)" for txts m
    by (induction txts arbitrary: m) (auto simp: parseTxt_def split: option.splits)
  show "keyed m \<Longrightarrow> parseEntry rr m = Ret m' \<Longrightarrow> keyed m'"
    by (auto simp: parseEntry_def parseAddress_def keepShort_def Let_def texts split: if_splits option.splits RR.splits)
qed

lemma keyed_parseEntries: "keyed m \<Longrightarrow> parseEntries rrs m = Ret m' \<Longrightarrow> keyed m'"
  by (induction rrs arbitrary: m) (auto simp: bind_run_Ret_iff dest: keyed_parse)

lemma keyed_Parse: "ParseMulticastMessage msg = Ret (Inr parsed) \<Longrightarrow> keyed parsed"
  by (auto simp: ParseMulticastMessage_def bind_run_Ret_iff split: if_splits dest!: keyed_parseEntries [rotated])

lemma keyed_merge: "keyed parsed \<Longrightarrow> keyed (mergeCached cmap parsed)"
  by (induction cmap parsed rule: mergeCached.induct) (auto simp: Let_def split: option.splits)

lemma keyed_mergeAddresses: "keyed parsed \<Longrightarrow> keyed (mergeAddresses cache addrs parsed)"
  by (induction cache addrs parsed rule: mergeAddresses.induct) (auto simp: keyed_merge split: option.splits)

text \<open>Whether the cache has the value \<open>v\<close> under \<open>key\<close> for an address.\<close>

definition cachedValue :: "mdnsCache \<Rightarrow> string \<Rightarrow> string \<Rightarrow> string \<Rightarrow> bool" where
  "cachedValue cache a key v \<longleftrightarrow> (\<exists>cmap. map_of cache a = Some cmap \<and> keyed cmap \<and> map_of cmap key = Some v)"

lemma cacheUnder_lookup: "a \<noteq> [] \<Longrightarrow> map_of (cacheUnder addrs parsed cache) a = (if a \<in> set addrs then Some parsed else map_of cache a)"
  by (induction addrs parsed cache rule: cacheUnder.induct) (auto simp: update_conv')

lemma mergeAddresses_keeps:
  assumes "cachedValue cache a key v" "settled v" "a \<noteq> []" "set addrs \<subseteq> {a, []}" "a \<in> set addrs"
  shows "map_of (mergeAddresses cache addrs parsed) key = Some v"
proof -
  obtain cmap where c: "map_of cache a = Some cmap" "keyed cmap" "map_of cmap key = Some v"
    using assms(1) by (auto simp: cachedValue_def)
  then have keep: "map_of (mergeCached cmap p) key = Some v" for p
    using mergeCached_keeps assms(2) by (simp add: keyed_def)
  have still: "map_of p key = Some v \<Longrightarrow> set bs \<subseteq> {a, []} \<Longrightarrow> map_of (mergeAddresses cache bs p) key = Some v" for bs p
    by (induction bs arbitrary: p) (auto simp: c keep assms(3))
  show ?thesis
    using assms(4,5)
  proof (induction addrs arbitrary: parsed)
    case (Cons addr addrs)
    show ?case
    proof (cases "addr = a")
      case True
      then show ?thesis
        using still [OF keep] Cons.prems c(1) assms(3) by simp
    qed (use Cons in auto)
  qed simp
qed

lemma cacheMulticastMessage_keeps:
  assumes "cacheMulticastMessage msg cache = Ret cache'" "cachedValue cache a key v" "settled v" "a \<noteq> []"
    and "\<And>parsed. ParseMulticastMessage msg = Ret (Inr parsed) \<Longrightarrow> a \<in> {valueOf parsed ''address'', valueOf parsed ''address6''} \<Longrightarrow>
      {valueOf parsed ''address'', valueOf parsed ''address6''} \<subseteq> {a, []}"
  shows "cachedValue cache' a key v"
proof -
  obtain r where r: "ParseMulticastMessage msg = Ret r"
    using assms(1) by (auto simp: cacheMulticastMessage_def bind_run_Ret_iff)
  show ?thesis
  proof (cases r)
    case (Inr parsed)
    let ?as = "[valueOf parsed ''address'', valueOf parsed ''address6'']"
    let ?merged = "mergeAddresses cache ?as parsed"
    have "cache' = cache \<or> cache' = cacheUnder ?as ?merged cache"
      using assms(1) r Inr by (auto simp: cacheMulticastMessage_def Let_def split: if_splits)
    moreover have "map_of ?merged key = Some v" "keyed ?merged" if "a \<in> set ?as"
      using mergeAddresses_keeps [OF assms(2-4), of ?as] assms(5) r Inr that keyed_mergeAddresses keyed_Parse
      by (auto simp del: mergeAddresses.simps)
    ultimately show ?thesis
      using assms(2,4) by (auto simp: cachedValue_def cacheUnder_lookup simp del: cacheUnder.simps mergeAddresses.simps)
  qed (use assms r in \<open>simp add: cacheMulticastMessage_def\<close>)
qed

section \<open>Properties\<close>

text \<open>
  C28. Whatever a client sends back, a NetBIOS lookup does not panic: the searches stay inside the buffer of
  512 bytes; and from a well formed answer it reads the first name, without the padding, whatever the
  buffer held before.
\<close>

theorem netbios_lookup:
  assumes "length buffer = byteBufferSize"
  shows "(\<exists>r. LookupNetBIOSName exchange buffer address = Ret r) \<and>
    (\<forall>ip header question fixed count name rest. ParseIP address = Some ip \<longrightarrow>
       exchange (IP_String ip @ '':137'') = Inr (header @ question @ 0 # fixed @ count # name @ 0 # rest) \<longrightarrow>
       length (header @ question @ 0 # fixed @ count # name @ 0 # rest) \<le> byteBufferSize \<longrightarrow>
       length header = 12 \<and> (header ! 6 \<noteq> 0 \<or> header ! 7 \<noteq> 0) \<and> 0 \<notin> set question \<and> length fixed = 10 \<and> count \<noteq> 0 \<and> 0 \<notin> set name \<longrightarrow>
       LookupNetBIOSName exchange buffer address = Ret (Inr (TrimSpace (bytesText name))))"
proof (intro conjI allI impI)
  have "\<exists>name. netbiosName (intoBuffer datagram buffer) = Ret name" for datagram
    using netbiosName_returns [of "intoBuffer datagram buffer"] assms by (simp add: intoBuffer_length byteBufferSize_def)
  then show "\<exists>r. LookupNetBIOSName exchange buffer address = Ret r"
    by (auto simp: LookupNetBIOSName_def bind_run_Ret_iff split: option.splits sum.splits)
next
  fix ip header question fixed count name rest
  assume h: "ParseIP address = Some ip" "exchange (IP_String ip @ '':137'') = Inr (header @ question @ 0 # fixed @ count # name @ 0 # rest)"
    "length (header @ question @ 0 # fixed @ count # name @ 0 # rest) \<le> byteBufferSize"
    "length header = 12 \<and> (header ! 6 \<noteq> 0 \<or> header ! 7 \<noteq> 0) \<and> 0 \<notin> set question \<and> length fixed = 10 \<and> count \<noteq> 0 \<and> 0 \<notin> set name"
  let ?d = "header @ question @ 0 # fixed @ count # name @ 0 # rest"
  have "intoBuffer ?d buffer = ?d @ drop (length ?d) buffer"
    unfolding intoBuffer_def using h(3) assms by (simp only: take_all)
  then have "intoBuffer ?d buffer = header @ question @ 0 # fixed @ count # name @ 0 # (rest @ drop (length ?d) buffer)"
    by simp
  then have "netbiosName (intoBuffer ?d buffer) = Ret (TrimSpace (bytesText name))"
    using netbiosName_found [of header question fixed count name "rest @ drop (length ?d) buffer"] h(4) by argo
  then show "LookupNetBIOSName exchange buffer address = Ret (Inr (TrimSpace (bytesText name)))"
    by (simp only: LookupNetBIOSName_def h(1,2) option.case sum.case bind_run.simps)
qed

definition demoAnswer :: "8 word list" where
  "demoAnswer = replicate 7 0 @ [1] @ replicate 4 0 @ [1] @ 0 # replicate 10 0 @ 1 # [80, 67, 32] @ 0 # []"

theorem netbios_lookup_witness:
  "LookupNetBIOSName (\<lambda>a. Inr demoAnswer) (replicate 512 7) ''10.0.0.9'' = Ret (Inr ''PC'')"
proof -
  obtain ip where ip: "ParseIP ''10.0.0.9'' = Some ip"
    using that by (cases "ParseIP ''10.0.0.9''") (simp, code_simp, blast)
  have "length (replicate 512 (7 :: 8 word)) = byteBufferSize"
    by (simp add: byteBufferSize_def)
  from conjunct2 [OF netbios_lookup [OF this, of "\<lambda>a. Inr demoAnswer" "''10.0.0.9''"], rule_format,
      of ip "replicate 7 0 @ [1] @ replicate 4 0" "[1]" "replicate 10 0" 1 "[80, 67, 32]" "[]"] ip
  have "LookupNetBIOSName (\<lambda>a. Inr demoAnswer) (replicate 512 7) ''10.0.0.9'' = Ret (Inr (TrimSpace (bytesText [80, 67, 32])))"
    by (simp add: demoAnswer_def byteBufferSize_def nth_append)
  moreover have "TrimSpace (bytesText [80, 67, 32]) = ''PC''"
    by code_simp
  ultimately show ?thesis
    by simp
qed

text \<open>
  A name learned by multicast DNS is never replaced: once the cache has a value for an address, no
  further message about that address alone changes it, although messages with other values arrive. So a
  client keeps the first friendly name it announced.
\<close>

theorem mdns_name_sticks:
  assumes "CacheMulticastMessages msgs cache = Ret cache'" "cachedValue cache a key v" "settled v" "a \<noteq> []"
    and "\<And>msg parsed. msg \<in> set msgs \<Longrightarrow> ParseMulticastMessage msg = Ret (Inr parsed) \<Longrightarrow> a \<in> {valueOf parsed ''address'', valueOf parsed ''address6''} \<Longrightarrow>
      {valueOf parsed ''address'', valueOf parsed ''address6''} \<subseteq> {a, []}"
  shows "cachedValue cache' a key v \<and> (key = ''txt:fn'' \<longrightarrow> ReadCachedHostname cache' a = v)"
proof -
  have "cachedValue cache' a key v"
    using assms
  proof (induction msgs arbitrary: cache)
    case (Cons msg msgs)
    then obtain c1 where c1: "cacheMulticastMessage msg cache = Ret c1" "CacheMulticastMessages msgs c1 = Ret cache'"
      by (auto simp: bind_run_Ret_iff)
    have "cachedValue c1 a key v"
      using cacheMulticastMessage_keeps [OF c1(1) Cons.prems(2-4)] Cons.prems(5) [of msg] by auto
    then show ?case
      using Cons.IH [OF c1(2)] Cons.prems by (meson list.set_intros(2))
  qed simp
  then show ?thesis
    using assms(3) by (auto simp: cachedValue_def ReadCachedHostname_def hostnameReadPriority_def settled_def)
qed

definition demoAnnounce :: "string \<Rightarrow> Msg" where
  "demoAnnounce name = newMsg\<lparr>msgAnswer := [RR_A \<lparr>HName = ''tv.local.'', Rrtype = 1, HClass = 1, Ttl = 60\<rparr> (Some [10, 0, 0, 9]),
     RR_TXT \<lparr>HName = ''tv.local.'', Rrtype = 16, HClass = 1, Ttl = 60\<rparr> [''fn='' @ name]]\<rparr>"

theorem mdns_name_sticks_witness:
  "\<exists>cache cache'. CacheMulticastMessages [demoAnnounce ''den''] [] = Ret cache \<and>
     CacheMulticastMessages [demoAnnounce ''office''] cache = Ret cache' \<and> ReadCachedHostname cache' ''10.0.0.9'' = ''den''"
proof -
  let ?parsed = "\<lambda>n. [(''hostname'', ''tv.local.''), (''address'', ''10.0.0.9''), (''name'', ''tv''), (''txt:fn'', n)]"
  have p: "ParseMulticastMessage (demoAnnounce ''office'') = Ret (Inr (?parsed ''office''))"
    by code_simp
  have first: "CacheMulticastMessages [demoAnnounce ''den''] [] = Ret [(''10.0.0.9'', ?parsed ''den'')]"
    by code_simp
  obtain cache' where c: "CacheMulticastMessages [demoAnnounce ''office''] [(''10.0.0.9'', ?parsed ''den'')] = Ret cache'"
    by (cases "CacheMulticastMessages [demoAnnounce ''office''] [(''10.0.0.9'', ?parsed ''den'')]") (blast, code_simp+)
  have "settled ''den''"
    by code_simp
  moreover have "cachedValue [(''10.0.0.9'', ?parsed ''den'')] ''10.0.0.9'' ''txt:fn'' ''den''"
    by (simp add: cachedValue_def keyed_def)
  moreover have "{valueOf parsed ''address'', valueOf parsed ''address6''} \<subseteq> {''10.0.0.9'', []}"
    if "msg \<in> set [demoAnnounce ''office'']" "ParseMulticastMessage msg = Ret (Inr parsed)" for msg parsed
    using that p by (auto simp: valueOf_def)
  ultimately have "ReadCachedHostname cache' ''10.0.0.9'' = ''den''"
    using mdns_name_sticks [OF c, of "''10.0.0.9''" "''txt:fn''" "''den''"] by blast
  then show ?thesis
    using first c by blast
qed

end
