(* ===== verification/Recycling.thy ===== *)
theory Recycling
  imports Recorder Pool
begin

text \<open>
  Objects that are used again: the pools (\<open>sync.Pool\<close>) of request contexts in \<^verbatim>\<open>src/resolver/resolver.go\<close> and of
  results in \<^verbatim>\<open>src/resolver/resolver_map.go\<close>, as \<open>Handle\<close> in \<^verbatim>\<open>src/engine/engine.go\<close> and the worker in
  \<^verbatim>\<open>src/engine/recorder.go\<close> use them. \<open>Handle\<close> puts context and result back after it has handed pointers to both to
  the recorder, whose worker reads them later, so here they are objects in a store, known by address.

  Requests are handled side by side, each by a goroutine of its own; the steps are the calls that touch the
  pools, the queue or an object. A pool may hand out any object it holds, or a new one.
\<close>

section \<open>Pools\<close>

definition poolGet :: "'a \<Rightarrow> nat option \<Rightarrow> 'a list \<times> nat list \<Rightarrow> (nat \<times> 'a list \<times> nat list) option" where
  "poolGet new choice pool = (case pool of (objects, free) \<Rightarrow>
     (case choice of
        None \<Rightarrow> Some (length objects, objects @ [new], free)
      | Some a \<Rightarrow> if a \<in> set free then Some (a, objects, remove1 a free) else None))"

text \<open>\<open>DefaultRequestContext\<close> sets the start and the protocol; the groups were emptied by \<open>Put\<close>.\<close>

definition newContext :: requestContext where
  "newContext = \<lparr>rqStarted = 0, rqProtocol = [], rqGroups = []\<rparr>"

definition startContext :: "requestContext \<Rightarrow> requestContext \<Rightarrow> requestContext" where
  "startContext rc old = old\<lparr>rqStarted := rqStarted rc, rqProtocol := rqProtocol rc\<rparr>"

definition clearContext :: "requestContext \<Rightarrow> requestContext" where
  "clearContext old = old\<lparr>rqGroups := []\<rparr>"

text \<open>
  A result carries whether it belongs to the pool. \<open>resolverMap.result\<close> sets three fields of an object from the
  pool and leaves the others as they are; \<open>HandleWithConsumer\<close> then sets the consumer.
\<close>

definition fillResult :: "resolutionResult \<Rightarrow> resolutionResult \<Rightarrow> resolutionResult" where
  "fillResult res old = old\<lparr>rrCached := rrCached res, rrSource := rrSource res, rrResolver := rrResolver res\<rparr>"

definition setConsumer :: "string \<Rightarrow> resolutionResult \<Rightarrow> resolutionResult" where
  "setConsumer name r = r\<lparr>rrConsumer := name\<rparr>"

section \<open>Requests and the worker side by side\<close>

text \<open>Where a request stands: with which context, with which result, handed to the recorder, put back.\<close>

datatype phase = Waiting | HasContext nat | HasResult nat nat | Enqueued nat nat | Released

text \<open>
  A job is what \<open>Handle\<close> would give the recorder and whether its result comes from the resolvers, and so from
  the pool, or was made for it (a refused, blocked or malformed request, or one no resolver answered).
\<close>

type_synonym job = "recorderCall \<times> bool"

record recycling =
  ryContexts :: "requestContext list"
  ryFreeContexts :: "nat list"
  ryResults :: "(bool \<times> resolutionResult) list"
  ryFreeResults :: "nat list"
  ryPhases :: "phase list"
  ryQueue :: "(nat \<times> InfoRecord \<times> nat \<times> nat) list"
  ryRead :: "(nat \<times> InfoRecord) list"

definition jobContext :: "job \<Rightarrow> requestContext" where
  "jobContext j = the (rlContext (fst j))"

abbreviation jobResult :: "job \<Rightarrow> resolutionResult" where
  "jobResult j \<equiv> rlResult (fst j)"

text \<open>What \<open>queue\<close> puts on the channel, from the objects as they are then, and what the worker finds.\<close>

definition enqueueInfo :: "InfoRecord \<Rightarrow> int \<Rightarrow> job \<Rightarrow> requestContext \<Rightarrow> resolutionResult \<Rightarrow> InfoRecord" where
  "enqueueInfo pooled now j rc res = queueRecord pooled ((fst j)\<lparr>rlContext := Some rc, rlResult := res\<rparr>) now"

definition readInfo :: "InfoRecord \<Rightarrow> requestContext \<Rightarrow> resolutionResult \<Rightarrow> InfoRecord" where
  "readInfo info rc res = info\<lparr>irResult := Some res, irRequestContext := Some rc\<rparr>"

inductive recycleStep :: "job list \<Rightarrow> recycling \<Rightarrow> recycling \<Rightarrow> bool" for jobs where
  started: "i < length jobs \<Longrightarrow> ryPhases st ! i = Waiting \<Longrightarrow>
    poolGet newContext choice (ryContexts st, ryFreeContexts st) = Some (c, cs, free) \<Longrightarrow>
    recycleStep jobs st (st\<lparr>ryContexts := cs[c := startContext (jobContext (jobs ! i)) (cs ! c)], ryFreeContexts := free,
      ryPhases := (ryPhases st)[i := HasContext c]\<rparr>)"
| resolved: "i < length jobs \<Longrightarrow> ryPhases st ! i = HasContext c \<Longrightarrow> snd (jobs ! i) \<Longrightarrow>
    poolGet (False, emptyResult) choice (ryResults st, ryFreeResults st) = Some (r, rs, free) \<Longrightarrow>
    recycleStep jobs st (st\<lparr>ryContexts := (ryContexts st)[c := (ryContexts st ! c)\<lparr>rqGroups := rqGroups (jobContext (jobs ! i))\<rparr>],
      ryResults := rs[r := (True, setConsumer (rrConsumer (jobResult (jobs ! i))) (fillResult (jobResult (jobs ! i)) (snd (rs ! r))))],
      ryFreeResults := free, ryPhases := (ryPhases st)[i := HasResult c r]\<rparr>)"
| own: "i < length jobs \<Longrightarrow> ryPhases st ! i = HasContext c \<Longrightarrow> \<not> snd (jobs ! i) \<Longrightarrow>
    recycleStep jobs st (st\<lparr>ryContexts := (ryContexts st)[c := (ryContexts st ! c)\<lparr>rqGroups := rqGroups (jobContext (jobs ! i))\<rparr>],
      ryResults := ryResults st @ [(False, jobResult (jobs ! i))], ryPhases := (ryPhases st)[i := HasResult c (length (ryResults st))]\<rparr>)"
| enqueue: "i < length jobs \<Longrightarrow> ryPhases st ! i = HasResult c r \<Longrightarrow> length (ryQueue st) < recordQueueSize \<Longrightarrow>
    recycleStep jobs st (st\<lparr>ryQueue := ryQueue st @ [(i, enqueueInfo pooled now (jobs ! i) (ryContexts st ! c) (snd (ryResults st ! r)), c, r)],
      ryPhases := (ryPhases st)[i := Enqueued c r]\<rparr>)"
| release: "i < length jobs \<Longrightarrow> ryPhases st ! i = Enqueued c r \<Longrightarrow>
    recycleStep jobs st (st\<lparr>ryContexts := (ryContexts st)[c := clearContext (ryContexts st ! c)], ryFreeContexts := c # ryFreeContexts st,
      ryFreeResults := (if fst (ryResults st ! r) then r # ryFreeResults st else ryFreeResults st),
      ryPhases := (ryPhases st)[i := Released]\<rparr>)"
| work: "ryQueue st = (i, info, c, r) # q \<Longrightarrow>
    recycleStep jobs st (st\<lparr>ryQueue := q, ryRead := ryRead st @ [(i, readInfo info (ryContexts st ! c) (snd (ryResults st ! r)))]\<rparr>)"

definition recycleInit :: "job list \<Rightarrow> recycling" where
  "recycleInit jobs = \<lparr>ryContexts = [], ryFreeContexts = [], ryResults = [], ryFreeResults = [], ryPhases = map (\<lambda>j. Waiting) jobs,
     ryQueue = [], ryRead = []\<rparr>"

inductive recycleReach :: "job list \<Rightarrow> recycling \<Rightarrow> bool" for jobs where
  init: "recycleReach jobs (recycleInit jobs)"
| step: "recycleReach jobs st \<Longrightarrow> recycleStep jobs st st' \<Longrightarrow> recycleReach jobs st'"

text \<open>
  A job whose result comes from the resolvers has nothing to say about rules: \<open>resolverMap.result\<close> fills in the
  cache, the source and the resolver only.
\<close>

definition jobOk :: "job \<Rightarrow> bool" where
  "jobOk j \<longleftrightarrow> rlContext (fst j) \<noteq> None \<and>
     (snd j \<longrightarrow> jobResult j = setConsumer (rrConsumer (jobResult j)) (fillResult (jobResult j) emptyResult))"

section \<open>No object in two hands\<close>

fun heldContext :: "phase \<Rightarrow> nat option" where
  "heldContext (HasContext c) = Some c"
| "heldContext (HasResult c r) = Some c"
| "heldContext (Enqueued c r) = Some c"
| "heldContext p = None"

fun heldResult :: "phase \<Rightarrow> nat option" where
  "heldResult (HasResult c r) = Some r"
| "heldResult (Enqueued c r) = Some r"
| "heldResult p = None"

text \<open>How often an object is in the pool or with a request.\<close>

definition uses :: "(phase \<Rightarrow> nat option) \<Rightarrow> nat list \<Rightarrow> phase list \<Rightarrow> nat \<Rightarrow> nat" where
  "uses f free ps a = count_list free a + sum_list (map (\<lambda>p. if f p = Some a then 1 else 0) ps)"

lemma uses_update:
  assumes "i < length ps"
  shows "uses f free' (ps[i := p]) a + (if f (ps ! i) = Some a then 1 else 0) + count_list free a =
    uses f free ps a + (if f p = Some a then 1 else 0) + count_list free' a"
  using sum_update [OF assms, of "\<lambda>p. if f p = Some a then 1 else 0" p] by (simp add: uses_def)

lemma member_le_sum: "i < length ps \<Longrightarrow> (g (ps ! i) :: nat) \<le> sum_list (map g ps)"
  by (intro member_le_sum_list) auto

lemma two_le_sum:
  assumes "i < length ps" "j < length ps" "i \<noteq> j"
  shows "(g (ps ! i) :: nat) + g (ps ! j) \<le> sum_list (map g ps)"
proof -
  have "g (ps ! i) + g (ps ! j) = (\<Sum>k \<in> {i, j}. g (ps ! k))"
    using assms(3) by simp
  also have "\<dots> \<le> (\<Sum>k \<in> {0..<length ps}. g (ps ! k))"
    using assms(1,2) by (intro sum_mono2) auto
  finally show ?thesis
    by (simp add: sum_list_sum_nth)
qed

definition exclusive :: "(phase \<Rightarrow> nat option) \<Rightarrow> nat list \<Rightarrow> phase list \<Rightarrow> bool" where
  "exclusive f free ps \<longleftrightarrow> (\<forall>a. uses f free ps a \<le> 1)"

lemma exclusive_free:
  assumes "exclusive f free ps" "a \<in> set free" "i < length ps"
  shows "f (ps ! i) \<noteq> Some a"
proof
  assume "f (ps ! i) = Some a"
  then have "1 \<le> sum_list (map (\<lambda>p. if f p = Some a then 1 else (0 :: nat)) ps)"
    using member_le_sum [OF assms(3), of "\<lambda>p. if f p = Some a then 1 else 0"] by simp
  moreover have "count_list free a \<noteq> 0"
    using assms(2) by (simp add: count_list_0_iff)
  ultimately show False
    using assms(1) [unfolded exclusive_def uses_def, rule_format, of a] by linarith
qed

lemma exclusive_held:
  assumes "exclusive f free ps" "i < length ps" "j < length ps" "i \<noteq> j" "f (ps ! i) = Some a"
  shows "f (ps ! j) \<noteq> Some a"
  using two_le_sum [OF assms(2-4), of "\<lambda>p. if f p = Some a then 1 else 0"] assms(1) [unfolded exclusive_def uses_def, rule_format, of a] assms(5)
  by (auto split: if_splits)

lemma exclusive_same: "exclusive f free ps \<Longrightarrow> i < length ps \<Longrightarrow> f p = f (ps ! i) \<Longrightarrow> exclusive f free (ps[i := p])"
  unfolding exclusive_def using uses_update [of i ps f free p _ free] by (metis add_right_cancel)

lemma exclusive_take:
  assumes "exclusive f free ps" "i < length ps" "f (ps ! i) = None" "f p = Some a" "a \<in> set free"
  shows "exclusive f (remove1 a free) (ps[i := p])"
  unfolding exclusive_def
proof
  fix b
  have "count_list free b = count_list (remove1 a free) b + (if b = a then 1 else 0)"
    using assms(5) by (induction free) auto
  then show "uses f (remove1 a free) (ps[i := p]) b \<le> 1"
    using uses_update [OF assms(2), of f "remove1 a free" p b free] assms(1) [unfolded exclusive_def, rule_format, of b] assms(3,4)
    by (auto split: if_splits)
qed

lemma uses_0:
  assumes "a \<notin> set free" "\<And>i. i < length ps \<Longrightarrow> f (ps ! i) \<noteq> Some a"
  shows "uses f free ps a = 0"
proof -
  have "\<forall>p \<in> set ps. f p \<noteq> Some a"
    using assms(2) by (auto simp: in_set_conv_nth)
  then show ?thesis
    using assms(1) by (simp add: uses_def count_list_0_iff)
qed

lemma exclusive_new:
  assumes "exclusive f free ps" "i < length ps" "f (ps ! i) = None" "f p = Some a" "uses f free ps a = 0"
  shows "exclusive f free (ps[i := p])"
  unfolding exclusive_def
proof
  fix b
  show "uses f free (ps[i := p]) b \<le> 1"
    using uses_update [OF assms(2), of f free p b free] assms(1) [unfolded exclusive_def, rule_format, of b] assms(3-5)
    by (auto split: if_splits)
qed

lemma exclusive_put:
  assumes "exclusive f free ps" "i < length ps" "f (ps ! i) = Some a" "f p = None"
  shows "exclusive f (a # free) (ps[i := p])" "exclusive f free (ps[i := p])"
proof -
  show "exclusive f (a # free) (ps[i := p])" "exclusive f free (ps[i := p])"
    unfolding exclusive_def
  proof
    fix b
    show "uses f (a # free) (ps[i := p]) b \<le> 1"
      using uses_update [OF assms(2), of f "a # free" p b free] assms(1) [unfolded exclusive_def, rule_format, of b] assms(3,4)
      by (auto split: if_splits)
  next
    show "\<forall>b. uses f free (ps[i := p]) b \<le> 1"
    proof
      fix b
      show "uses f free (ps[i := p]) b \<le> 1"
        using uses_update [OF assms(2), of f free p b free] assms(1) [unfolded exclusive_def, rule_format, of b] assms(3,4)
        by (auto split: if_splits)
    qed
  qed
qed

section \<open>What the worker reads\<close>

definition clean :: "resolutionResult \<Rightarrow> bool" where
  "clean res \<longleftrightarrow> rrMessage res = [] \<and> \<not> rrBlocked res \<and> rrMatch res = MatchNone \<and> rrMatchList res = None \<and> rrMatchRule res = []"

lemma clean_fill [simp]: "clean (setConsumer c (fillResult res old)) = clean old"
  by (simp add: clean_def setConsumer_def fillResult_def)

lemma fill_clean: "clean old \<Longrightarrow> setConsumer c (fillResult res old) = setConsumer c (fillResult res emptyResult)"
  by (simp add: clean_def setConsumer_def fillResult_def emptyResult_def)

lemma clean_empty [simp]: "clean emptyResult"
  by (simp add: clean_def emptyResult_def)

definition storeOk :: "job list \<Rightarrow> recycling \<Rightarrow> bool" where
  "storeOk jobs st \<longleftrightarrow> length (ryPhases st) = length jobs \<and>
     (\<forall>c \<in> set (ryFreeContexts st). c < length (ryContexts st) \<and> rqGroups (ryContexts st ! c) = []) \<and>
     (\<forall>r \<in> set (ryFreeResults st). r < length (ryResults st) \<and> fst (ryResults st ! r)) \<and>
     (\<forall>x \<in> set (ryResults st). fst x \<longrightarrow> clean (snd x)) \<and>
     exclusive heldContext (ryFreeContexts st) (ryPhases st) \<and> exclusive heldResult (ryFreeResults st) (ryPhases st)"

text \<open>Until it is put back, the context and the result of a request are its own.\<close>

fun phaseOk :: "job \<Rightarrow> recycling \<Rightarrow> phase \<Rightarrow> bool" where
  "phaseOk j st (HasContext c) = (c < length (ryContexts st) \<and> ryContexts st ! c = (jobContext j)\<lparr>rqGroups := []\<rparr>)"
| "phaseOk j st (HasResult c r) = (c < length (ryContexts st) \<and> ryContexts st ! c = jobContext j \<and>
     r < length (ryResults st) \<and> ryResults st ! r = (snd j, jobResult j))"
| "phaseOk j st (Enqueued c r) = (c < length (ryContexts st) \<and> ryContexts st ! c = jobContext j \<and>
     r < length (ryResults st) \<and> ryResults st ! r = (snd j, jobResult j))"
| "phaseOk j st p = True"

definition queuedOk :: "job list \<Rightarrow> recycling \<Rightarrow> nat \<times> InfoRecord \<times> nat \<times> nat \<Rightarrow> bool" where
  "queuedOk jobs st = (\<lambda>(i, info, c, r). i < length jobs \<and> r < length (ryResults st) \<and> fst (ryResults st ! r) = snd (jobs ! i) \<and>
     (\<not> snd (jobs ! i) \<longrightarrow> snd (ryResults st ! r) = jobResult (jobs ! i)) \<and>
     (\<exists>pooled now. info = queueRecord pooled (fst (jobs ! i)) now))"

definition readOk :: "job list \<Rightarrow> nat \<times> InfoRecord \<Rightarrow> bool" where
  "readOk jobs = (\<lambda>(i, seen). i < length jobs \<and>
     (\<exists>pooled now rc res. seen = readInfo (queueRecord pooled (fst (jobs ! i)) now) rc res \<and>
       (if snd (jobs ! i) then clean res else res = jobResult (jobs ! i))))"

definition recycleInv :: "job list \<Rightarrow> recycling \<Rightarrow> bool" where
  "recycleInv jobs st \<longleftrightarrow> storeOk jobs st \<and> (\<forall>i < length jobs. phaseOk (jobs ! i) st (ryPhases st ! i)) \<and>
     (\<forall>x \<in> set (ryQueue st). queuedOk jobs st x) \<and> (\<forall>x \<in> set (ryRead st). readOk jobs x)"

text \<open>What a step does to the objects of the others.\<close>

lemma phaseOk_frame:
  assumes "phaseOk j st p" "length (ryContexts st) \<le> length (ryContexts st')" "length (ryResults st) \<le> length (ryResults st')"
    and "\<And>c. heldContext p = Some c \<Longrightarrow> c < length (ryContexts st) \<Longrightarrow> ryContexts st' ! c = ryContexts st ! c"
    and "\<And>r. heldResult p = Some r \<Longrightarrow> r < length (ryResults st) \<Longrightarrow> ryResults st' ! r = ryResults st ! r"
  shows "phaseOk j st' p"
  using assms by (cases p) auto

lemma queuedOk_frame:
  assumes "queuedOk jobs st x" "length (ryResults st) \<le> length (ryResults st')"
    and "\<And>r. r < length (ryResults st) \<Longrightarrow> fst (ryResults st' ! r) = fst (ryResults st ! r) \<and>
      (\<not> fst (ryResults st ! r) \<longrightarrow> ryResults st' ! r = ryResults st ! r)"
  shows "queuedOk jobs st' x"
  using assms by (cases x) (auto simp: queuedOk_def)

lemma phases_update:
  assumes "\<forall>k < length jobs. phaseOk (jobs ! k) st (ps ! k)" "i < length jobs" "length ps = length jobs"
    and "phaseOk (jobs ! i) st' p"
    and "\<And>k. k < length jobs \<Longrightarrow> k \<noteq> i \<Longrightarrow> phaseOk (jobs ! k) st (ps ! k) \<Longrightarrow> phaseOk (jobs ! k) st' (ps ! k)"
  shows "\<forall>k < length jobs. phaseOk (jobs ! k) st' (ps[i := p] ! k)"
  using assms by (auto simp: nth_list_update)

lemma phaseOk_fresh:
  assumes "\<forall>k < length jobs. phaseOk (jobs ! k) st (ryPhases st ! k)" "length (ryPhases st) = length jobs" "k < length (ryPhases st)"
  shows "heldContext (ryPhases st ! k) \<noteq> Some (length (ryContexts st))" "heldResult (ryPhases st ! k) \<noteq> Some (length (ryResults st))"
proof -
  have "phaseOk (jobs ! k) st (ryPhases st ! k)"
    using assms by simp
  then show "heldContext (ryPhases st ! k) \<noteq> Some (length (ryContexts st))" "heldResult (ryPhases st ! k) \<noteq> Some (length (ryResults st))"
    by (cases "ryPhases st ! k"; auto)+
qed

lemma poolGet_cases:
  assumes "poolGet new choice (objects, free) = Some (a, objects', free')"
  obtains (fresh) "a = length objects" "objects' = objects @ [new]" "free' = free"
  | (reused) "a \<in> set free" "objects' = objects" "free' = remove1 a free"
proof (cases choice)
  case None
  then show thesis
    using assms by (intro fresh) (simp_all add: poolGet_def)
next
  case (Some b)
  then show thesis
    using assms by (intro reused) (auto simp: poolGet_def split: if_splits)
qed

lemma exclusive_get:
  assumes "poolGet new choice (objects, free) = Some (a, objects', free')" "exclusive f free ps" "i < length ps" "f (ps ! i) = None" "f p = Some a"
    and "\<forall>a \<in> set free. a < length objects" "\<And>k. k < length ps \<Longrightarrow> f (ps ! k) \<noteq> Some (length objects)"
  shows "exclusive f free' (ps[i := p])"
  using assms(1)
proof (cases rule: poolGet_cases)
  case fresh
  then show ?thesis
    using exclusive_new [OF assms(2-5)] uses_0 [of a free ps f] assms(6,7) by auto
next
  case reused
  then show ?thesis
    using exclusive_take [OF assms(2-5)] by simp
qed

lemma poolGet_others:
  assumes "poolGet new choice (objects, free) = Some (a, objects', free')" "exclusive f free ps" "k < length ps" "f (ps ! k) = Some b" "b < length objects"
  shows "b \<noteq> a" "objects' ! b = objects ! b"
proof -
  have "b \<noteq> a \<and> objects' ! b = objects ! b"
    using assms(1)
  proof (cases rule: poolGet_cases)
    case reused
    then show ?thesis
      using exclusive_free [OF assms(2) _ assms(3)] assms(4) by auto
  qed (use assms(5) in \<open>simp add: nth_append\<close>)
  then show "b \<noteq> a" "objects' ! b = objects ! b"
    by simp_all
qed

lemma poolGet_length: "poolGet new choice (objects, free) = Some (a, objects', free') \<Longrightarrow> \<forall>a \<in> set free. a < length objects \<Longrightarrow>
    a < length objects' \<and> length objects \<le> length objects' \<and> set free' \<subseteq> set free \<and> set objects' \<subseteq> insert new (set objects)"
  by (erule poolGet_cases) (auto dest: subsetD [OF set_remove1_subset])

lemma inv_started:
  assumes inv: "recycleInv jobs st" and i: "i < length jobs" "ryPhases st ! i = Waiting"
    and get: "poolGet newContext choice (ryContexts st, ryFreeContexts st) = Some (c, cs, free)"
  shows "recycleInv jobs (st\<lparr>ryContexts := cs[c := startContext (jobContext (jobs ! i)) (cs ! c)], ryFreeContexts := free,
      ryPhases := (ryPhases st)[i := HasContext c]\<rparr>)" (is "recycleInv jobs ?st'")
proof -
  have store: "storeOk jobs st" and phases: "\<forall>i < length jobs. phaseOk (jobs ! i) st (ryPhases st ! i)"
    using inv by (simp_all add: recycleInv_def)
  have len: "length (ryPhases st) = length jobs" and bound: "\<forall>c \<in> set (ryFreeContexts st). c < length (ryContexts st)"
    using store by (simp_all add: storeOk_def)
  note got = poolGet_length [OF get bound]
  have groups: "rqGroups (cs ! c) = []"
    using get by (cases rule: poolGet_cases) (use store in \<open>auto simp: storeOk_def newContext_def\<close>)
  have free: "\<forall>d \<in> set free. d < length cs \<and> rqGroups (cs[c := startContext (jobContext (jobs ! i)) (cs ! c)] ! d) = []"
    using get
  proof (cases rule: poolGet_cases)
    case fresh
    then show ?thesis
      using store by (auto simp: storeOk_def nth_append nth_list_update)
  next
    case reused
    then show ?thesis
      using store groups by (auto simp: storeOk_def nth_list_update startContext_def dest: subsetD [OF set_remove1_subset])
  qed
  have "storeOk jobs ?st'"
    using store free exclusive_get [OF get _ _ _ _ bound, of heldContext "ryPhases st" i "HasContext c"] phaseOk_fresh [OF phases len] i len
      exclusive_same [of heldResult "ryFreeResults st" "ryPhases st" i "HasContext c"]
    by (simp add: storeOk_def)
  moreover have "\<forall>k < length jobs. phaseOk (jobs ! k) ?st' ((ryPhases st)[i := HasContext c] ! k)"
  proof (rule phases_update [OF phases i(1) len])
    show "phaseOk (jobs ! i) ?st' (HasContext c)"
      using got groups by (simp add: startContext_def)
    fix k
    assume k: "k < length jobs" "k \<noteq> i" "phaseOk (jobs ! k) st (ryPhases st ! k)"
    show "phaseOk (jobs ! k) ?st' (ryPhases st ! k)"
    proof (rule phaseOk_frame [OF k(3)])
      fix d
      assume "heldContext (ryPhases st ! k) = Some d" "d < length (ryContexts st)"
      with poolGet_others [OF get, of heldContext "ryPhases st" k d] k(1) len store show "ryContexts ?st' ! d = ryContexts st ! d"
        by (simp add: storeOk_def)
    qed (use got in simp_all)
  qed
  moreover have "queuedOk jobs ?st' x" if "queuedOk jobs st x" for x
    by (rule queuedOk_frame [OF that]) simp_all
  ultimately show ?thesis
    using inv by (simp add: recycleInv_def)
qed

text \<open>Setting the groups of a context that request \<open>i\<close> holds leaves the contexts of the others and of the pool alone.\<close>

lemma contexts_others:
  assumes "storeOk jobs st" "i < length jobs" "heldContext (ryPhases st ! i) = Some c" "k < length jobs" "k \<noteq> i" "heldContext (ryPhases st ! k) = Some d"
  shows "(ryContexts st)[c := x] ! d = ryContexts st ! d"
  using exclusive_held [of heldContext "ryFreeContexts st" "ryPhases st" i k c] assms by (auto simp: storeOk_def)

lemma contexts_free:
  assumes "storeOk jobs st" "i < length jobs" "heldContext (ryPhases st ! i) = Some c" "d \<in> set (ryFreeContexts st)"
  shows "(ryContexts st)[c := x] ! d = ryContexts st ! d"
  using exclusive_free [of heldContext "ryFreeContexts st" "ryPhases st" d i] assms by (auto simp: storeOk_def)

lemma inv_resolved:
  assumes inv: "recycleInv jobs st" and i: "i < length jobs" "ryPhases st ! i = HasContext c" and pooled: "snd (jobs ! i)" and ok: "jobOk (jobs ! i)"
    and get: "poolGet (False, emptyResult) choice (ryResults st, ryFreeResults st) = Some (r, rs, free)"
  shows "recycleInv jobs (st\<lparr>ryContexts := (ryContexts st)[c := (ryContexts st ! c)\<lparr>rqGroups := rqGroups (jobContext (jobs ! i))\<rparr>],
      ryResults := rs[r := (True, setConsumer (rrConsumer (jobResult (jobs ! i))) (fillResult (jobResult (jobs ! i)) (snd (rs ! r))))],
      ryFreeResults := free, ryPhases := (ryPhases st)[i := HasResult c r]\<rparr>)" (is "recycleInv jobs ?st'")
proof -
  have store: "storeOk jobs st" and phases: "\<forall>i < length jobs. phaseOk (jobs ! i) st (ryPhases st ! i)"
    using inv by (simp_all add: recycleInv_def)
  have len: "length (ryPhases st) = length jobs" and bound: "\<forall>r \<in> set (ryFreeResults st). r < length (ryResults st)"
    using store by (simp_all add: storeOk_def)
  have c: "heldContext (ryPhases st ! i) = Some c" "c < length (ryContexts st)" "ryContexts st ! c = (jobContext (jobs ! i))\<lparr>rqGroups := []\<rparr>"
    using phases i by auto
  note got = poolGet_length [OF get bound]
  have old: "clean (snd (rs ! r))"
    using get by (cases rule: poolGet_cases) (use store in \<open>auto simp: storeOk_def\<close>)
  have result: "setConsumer (rrConsumer (jobResult (jobs ! i))) (fillResult (jobResult (jobs ! i)) (snd (rs ! r))) = jobResult (jobs ! i)"
    using fill_clean [OF old] ok pooled by (simp add: jobOk_def)
  have free: "\<forall>d \<in> set free. d < length rs \<and> fst (rs[r := (True, x)] ! d)" for x
    using get by (cases rule: poolGet_cases)
      (use store in \<open>auto simp: storeOk_def nth_append nth_list_update dest: subsetD [OF set_remove1_subset]\<close>)
  have cleaned: "\<forall>x \<in> set (rs[r := (True, setConsumer (rrConsumer (jobResult (jobs ! i))) (fillResult (jobResult (jobs ! i)) (snd (rs ! r))))]). fst x \<longrightarrow> clean (snd x)"
    using got store old set_update_subset_insert [of rs r] by (fastforce simp: storeOk_def)
  have "storeOk jobs ?st'"
    using store free cleaned exclusive_get [OF get _ _ _ _ bound, of heldResult "ryPhases st" i "HasResult c r"] phaseOk_fresh [OF phases len] i len
      exclusive_same [of heldContext "ryFreeContexts st" "ryPhases st" i "HasResult c r"] contexts_free [OF store i(1) c(1)]
    by (simp add: storeOk_def)
  moreover have "\<forall>k < length jobs. phaseOk (jobs ! k) ?st' ((ryPhases st)[i := HasResult c r] ! k)"
  proof (rule phases_update [OF phases i(1) len])
    show "phaseOk (jobs ! i) ?st' (HasResult c r)"
      using got c result pooled by simp
    fix k
    assume k: "k < length jobs" "k \<noteq> i" "phaseOk (jobs ! k) st (ryPhases st ! k)"
    show "phaseOk (jobs ! k) ?st' (ryPhases st ! k)"
    proof (rule phaseOk_frame [OF k(3)])
      fix d
      assume "heldResult (ryPhases st ! k) = Some d" "d < length (ryResults st)"
      with poolGet_others [OF get, of heldResult "ryPhases st" k d] k(1) len store show "ryResults ?st' ! d = ryResults st ! d"
        by (simp add: storeOk_def)
    qed (use got contexts_others [OF store i(1) c(1) k(1,2)] in simp_all)
  qed
  moreover have "queuedOk jobs ?st' x" if "queuedOk jobs st x" for x
  proof (rule queuedOk_frame [OF that])
    fix d
    assume d: "d < length (ryResults st)"
    show "fst (ryResults ?st' ! d) = fst (ryResults st ! d) \<and> (\<not> fst (ryResults st ! d) \<longrightarrow> ryResults ?st' ! d = ryResults st ! d)"
      using get by (cases rule: poolGet_cases) (use store d in \<open>auto simp: storeOk_def nth_append nth_list_update\<close>)
  qed (use got in simp)
  ultimately show ?thesis
    using inv by (simp add: recycleInv_def)
qed

lemma inv_own:
  assumes inv: "recycleInv jobs st" and i: "i < length jobs" "ryPhases st ! i = HasContext c" and own: "\<not> snd (jobs ! i)"
  shows "recycleInv jobs (st\<lparr>ryContexts := (ryContexts st)[c := (ryContexts st ! c)\<lparr>rqGroups := rqGroups (jobContext (jobs ! i))\<rparr>],
      ryResults := ryResults st @ [(False, jobResult (jobs ! i))], ryPhases := (ryPhases st)[i := HasResult c (length (ryResults st))]\<rparr>)"
    (is "recycleInv jobs ?st'")
proof -
  have store: "storeOk jobs st" and phases: "\<forall>i < length jobs. phaseOk (jobs ! i) st (ryPhases st ! i)"
    using inv by (simp_all add: recycleInv_def)
  have len: "length (ryPhases st) = length jobs"
    using store by (simp add: storeOk_def)
  have c: "heldContext (ryPhases st ! i) = Some c" "c < length (ryContexts st)" "ryContexts st ! c = (jobContext (jobs ! i))\<lparr>rqGroups := []\<rparr>"
    using phases i by auto
  have "uses heldResult (ryFreeResults st) (ryPhases st) (length (ryResults st)) = 0"
    using uses_0 phaseOk_fresh(2) [OF phases len] store by (metis less_irrefl storeOk_def)
  then have "storeOk jobs ?st'"
    using store exclusive_new [of heldResult "ryFreeResults st" "ryPhases st" i "HasResult c (length (ryResults st))"] i len
      exclusive_same [of heldContext "ryFreeContexts st" "ryPhases st" i "HasResult c (length (ryResults st))"] contexts_free [OF store i(1) c(1)]
    by (auto simp: storeOk_def nth_append)
  moreover have "\<forall>k < length jobs. phaseOk (jobs ! k) ?st' ((ryPhases st)[i := HasResult c (length (ryResults st))] ! k)"
  proof (rule phases_update [OF phases i(1) len])
    show "phaseOk (jobs ! i) ?st' (HasResult c (length (ryResults st)))"
      using c own by simp
    fix k
    assume k: "k < length jobs" "k \<noteq> i" "phaseOk (jobs ! k) st (ryPhases st ! k)"
    show "phaseOk (jobs ! k) ?st' (ryPhases st ! k)"
      by (rule phaseOk_frame [OF k(3)]) (use contexts_others [OF store i(1) c(1) k(1,2)] in \<open>simp_all add: nth_append\<close>)
  qed
  moreover have "queuedOk jobs ?st' x" if "queuedOk jobs st x" for x
    by (rule queuedOk_frame [OF that]) (simp_all add: nth_append)
  ultimately show ?thesis
    using inv by (simp add: recycleInv_def)
qed

lemma inv_enqueue:
  assumes inv: "recycleInv jobs st" and i: "i < length jobs" "ryPhases st ! i = HasResult c r" and ok: "jobOk (jobs ! i)"
  shows "recycleInv jobs (st\<lparr>ryQueue := ryQueue st @ [(i, enqueueInfo pooled now (jobs ! i) (ryContexts st ! c) (snd (ryResults st ! r)), c, r)],
      ryPhases := (ryPhases st)[i := Enqueued c r]\<rparr>)" (is "recycleInv jobs ?st'")
proof -
  have store: "storeOk jobs st" and phases: "\<forall>i < length jobs. phaseOk (jobs ! i) st (ryPhases st ! i)"
    using inv by (simp_all add: recycleInv_def)
  have len: "length (ryPhases st) = length jobs"
    using store by (simp add: storeOk_def)
  have held: "phaseOk (jobs ! i) st (HasResult c r)"
    using phases i by metis
  have "(fst (jobs ! i))\<lparr>rlContext := Some (jobContext (jobs ! i)), rlResult := jobResult (jobs ! i)\<rparr> = fst (jobs ! i)"
    using ok by (simp add: jobOk_def jobContext_def)
  then have "queuedOk jobs st (i, enqueueInfo pooled now (jobs ! i) (ryContexts st ! c) (snd (ryResults st ! r)), c, r)"
    using held i by (auto simp: queuedOk_def enqueueInfo_def)
  moreover have frame: "queuedOk jobs ?st' x" if "queuedOk jobs st x" for x
    by (rule queuedOk_frame [OF that]) simp_all
  moreover have "storeOk jobs ?st'"
    using store i len exclusive_same [of heldContext "ryFreeContexts st" "ryPhases st" i "Enqueued c r"]
      exclusive_same [of heldResult "ryFreeResults st" "ryPhases st" i "Enqueued c r"]
    by (simp add: storeOk_def)
  moreover have "\<forall>k < length jobs. phaseOk (jobs ! k) ?st' ((ryPhases st)[i := Enqueued c r] ! k)"
    by (rule phases_update [OF phases i(1) len]) (use held phaseOk_frame in auto)
  ultimately show ?thesis
    using inv by (simp add: recycleInv_def)
qed

lemma inv_release:
  assumes inv: "recycleInv jobs st" and i: "i < length jobs" "ryPhases st ! i = Enqueued c r"
  shows "recycleInv jobs (st\<lparr>ryContexts := (ryContexts st)[c := clearContext (ryContexts st ! c)], ryFreeContexts := c # ryFreeContexts st,
      ryFreeResults := (if fst (ryResults st ! r) then r # ryFreeResults st else ryFreeResults st),
      ryPhases := (ryPhases st)[i := Released]\<rparr>)" (is "recycleInv jobs ?st'")
proof -
  have store: "storeOk jobs st" and phases: "\<forall>i < length jobs. phaseOk (jobs ! i) st (ryPhases st ! i)"
    using inv by (simp_all add: recycleInv_def)
  have len: "length (ryPhases st) = length jobs"
    using store by (simp add: storeOk_def)
  have c: "heldContext (ryPhases st ! i) = Some c" and held: "phaseOk (jobs ! i) st (Enqueued c r)"
    using phases i by auto
  have "storeOk jobs ?st'"
    using store i len held exclusive_put [of heldContext "ryFreeContexts st" "ryPhases st" i c Released]
      exclusive_put [of heldResult "ryFreeResults st" "ryPhases st" i r Released] contexts_free [OF store i(1) c]
    by (auto simp: storeOk_def clearContext_def)
  moreover have "\<forall>k < length jobs. phaseOk (jobs ! k) ?st' ((ryPhases st)[i := Released] ! k)"
  proof (rule phases_update [OF phases i(1) len])
    fix k
    assume k: "k < length jobs" "k \<noteq> i" "phaseOk (jobs ! k) st (ryPhases st ! k)"
    show "phaseOk (jobs ! k) ?st' (ryPhases st ! k)"
      by (rule phaseOk_frame [OF k(3)]) (use contexts_others [OF store i(1) c k(1,2)] in simp_all)
  qed simp
  moreover have "queuedOk jobs ?st' x" if "queuedOk jobs st x" for x
    by (rule queuedOk_frame [OF that]) simp_all
  ultimately show ?thesis
    using inv by (simp add: recycleInv_def)
qed

lemma inv_work:
  assumes inv: "recycleInv jobs st" and q: "ryQueue st = (i, info, c, r) # q"
  shows "recycleInv jobs (st\<lparr>ryQueue := q, ryRead := ryRead st @ [(i, readInfo info (ryContexts st ! c) (snd (ryResults st ! r)))]\<rparr>)"
    (is "recycleInv jobs ?st'")
proof -
  have store: "storeOk jobs st" and queued: "queuedOk jobs st (i, info, c, r)"
    using inv q by (simp_all add: recycleInv_def)
  have "snd (jobs ! i) \<Longrightarrow> clean (snd (ryResults st ! r))"
    using store queued by (auto simp: storeOk_def queuedOk_def)
  then have "readOk jobs (i, readInfo info (ryContexts st ! c) (snd (ryResults st ! r)))"
    using queued by (auto simp: queuedOk_def readOk_def)
  moreover have "queuedOk jobs ?st' x" if "queuedOk jobs st x" for x
    by (rule queuedOk_frame [OF that]) simp_all
  moreover have "phaseOk j ?st' p" if "phaseOk j st p" for j p
    by (rule phaseOk_frame [OF that]) simp_all
  moreover have "storeOk jobs ?st'"
    using store by (simp add: storeOk_def)
  ultimately show ?thesis
    using inv q by (simp add: recycleInv_def)
qed

lemma recycleInv_step: "recycleStep jobs st st' \<Longrightarrow> list_all jobOk jobs \<Longrightarrow> recycleInv jobs st \<Longrightarrow> recycleInv jobs st'"
  by (induction rule: recycleStep.induct) (simp_all add: inv_started inv_resolved inv_own inv_enqueue inv_release inv_work list_all_length)

lemma recycleReach_inv: "recycleReach jobs st \<Longrightarrow> list_all jobOk jobs \<Longrightarrow> recycleInv jobs st"
proof (induction rule: recycleReach.induct)
  case init
  show ?case
    by (auto simp: recycleInv_def recycleInit_def storeOk_def exclusive_def uses_def comp_def sum_list_0)
qed (rule recycleInv_step)

text \<open>Until \<open>Put\<close>, a request has its context and its result to itself.\<close>

lemma no_object_shared:
  assumes "recycleReach jobs st" "list_all jobOk jobs" "i < length jobs" "k < length jobs" "i \<noteq> k"
  shows "heldResult (ryPhases st ! i) = Some r \<Longrightarrow> heldResult (ryPhases st ! k) \<noteq> Some r \<and> r \<notin> set (ryFreeResults st)"
    and "heldContext (ryPhases st ! i) = Some c \<Longrightarrow> heldContext (ryPhases st ! k) \<noteq> Some c \<and> c \<notin> set (ryFreeContexts st)"
  using recycleReach_inv [OF assms(1,2)] assms(3-5) exclusive_held exclusive_free unfolding recycleInv_def storeOk_def by metis+

section \<open>Rows\<close>

definition rowOf :: "dnslib \<Rightarrow> (int \<Rightarrow> string) \<Rightarrow> nameLookup \<Rightarrow> (string \<times> string) list \<Rightarrow> InfoRecord \<Rightarrow> bufferRow" where
  "rowOf D rcodeText L names info = bufferOf (fst (condition D rcodeText L info names))"

lemma conditionRequest_pointers:
  "conditionRequest D (info\<lparr>irResult := x\<rparr>) = (conditionRequest D info)\<lparr>irResult := x\<rparr>"
  "conditionRequest D (info\<lparr>irRequestContext := y\<rparr>) = (conditionRequest D info)\<lparr>irRequestContext := y\<rparr>"
  by (simp_all add: conditionRequest_def split: option.split list.split)

lemma conditionResponse_pointers:
  "conditionResponse D rt (info\<lparr>irResult := x\<rparr>) = (conditionResponse D rt info)\<lparr>irResult := x\<rparr>"
  "conditionResponse D rt (info\<lparr>irRequestContext := y\<rparr>) = (conditionResponse D rt info)\<lparr>irRequestContext := y\<rparr>"
  by (simp_all add: conditionResponse_def Let_def split: option.split list.split)

lemma conditionResult_context:
  "conditionResult (info\<lparr>irRequestContext := y\<rparr>) = (conditionResult info)\<lparr>irRequestContext := y\<rparr>"
  by (simp add: conditionResult_def Let_def split: option.split)

lemma conditionResult_kept: "irAddress (conditionResult info) = irAddress info"
  by (simp add: conditionResult_def Let_def split: option.split)

lemma conditioned:
  "irMatch (conditionResponse D rt (conditionRequest D info)) = irMatch info"
  "irCached (conditionResponse D rt (conditionRequest D info)) = irCached info"
  by (simp_all add: conditionRequest_def conditionResponse_def Let_def split: option.split list.split)

text \<open>The row sees the context through nothing but the moment the record was queued.\<close>

lemma rowOf_eq:
  "rowOf D rt L names info = (bufferOf (conditionResult (conditionResponse D rt (conditionRequest D info))))
     \<lparr>bfClientName := fst (reverseLookup L (irAddress (conditionResponse D rt (conditionRequest D info))) names)\<rparr>"
  by (simp add: rowOf_def condition_def bufferOf_def Let_def conditionResult_kept split: option.split prod.split)

lemma rowOf_context: "rowOf D rt L names (info\<lparr>irRequestContext := y\<rparr>) = rowOf D rt L names info"
  by (simp add: rowOf_eq conditionRequest_pointers conditionResponse_pointers conditionResult_context bufferOf_def)

text \<open>A result without a rule reaches the row through the consumer and the mark of the cache only.\<close>

lemma conditionResult_clean:
  assumes "clean res" "irMatch info = MatchNone"
  shows "conditionResult (info\<lparr>irResult := Some res\<rparr>) = info\<lparr>irResult := Some res, irConsumer := rrConsumer res, irCached := rrCached res \<or> irCached info\<rparr>"
  using assms by (cases info) (simp add: conditionResult_def clean_def Let_def)

lemma rowOf_clean:
  assumes "clean res" "irMatch info = MatchNone"
  shows "rowOf D rt L names (info\<lparr>irResult := Some res\<rparr>) =
    (rowOf D rt L names (info\<lparr>irResult := None\<rparr>))\<lparr>bfConsumer := rrConsumer res, bfCached := rrCached res \<or> irCached info\<rparr>"
proof -
  let ?i = "conditionResponse D rt (conditionRequest D info)"
  have "conditionResult (?i\<lparr>irResult := None\<rparr>) = ?i\<lparr>irResult := None\<rparr>"
    by (simp add: conditionResult_def)
  moreover have "conditionResult (?i\<lparr>irResult := Some res\<rparr>) = ?i\<lparr>irResult := Some res, irConsumer := rrConsumer res, irCached := rrCached res \<or> irCached ?i\<rparr>"
    by (rule conditionResult_clean) (simp_all add: assms conditioned)
  ultimately show ?thesis
    by (simp add: rowOf_eq conditionRequest_pointers conditionResponse_pointers bufferOf_def conditioned)
qed

lemma queueRecord_result:
  "(queueRecord pooled call now)\<lparr>irResult := Some (rlResult call)\<rparr> = queueRecord pooled call now"
  "irMatch (queueRecord pooled call now) = MatchNone" "irCached (queueRecord pooled call now) = False"
  by (simp_all add: queueRecord_def infoClear_def Let_def)

lemma row_of_queued:
  "bfAddress (rowOf D rt L names ((queueRecord pooled call now)\<lparr>irResult := x\<rparr>)) = IP_String (rlAddress call)"
  "msgQuestion (rlRequest call) = q # qs \<Longrightarrow> bfRequestDomain (rowOf D rt L names ((queueRecord pooled call now)\<lparr>irResult := x\<rparr>)) = Qname q"
  by (auto simp: rowOf_eq bufferOf_def conditionResult_def conditionResponse_def conditionRequest_def queueRecord_def Let_def split: option.split list.split)

section \<open>Properties\<close>

text \<open>
  C10. What the log says about blocking is true, however requests and the worker interleave and whatever
  objects are used again: the row of a request that the engine decided itself (blocked by a rule, refused
  or malformed) is the row \<open>Handle\<close> meant, and every other row differs from it in the name of the consumer
  and the mark of the cache at most.
\<close>

theorem blocking_recorded_truly:
  assumes "list_all jobOk jobs" "recycleReach jobs st" "(i, seen) \<in> set (ryRead st)"
  shows "i < length jobs \<and> (\<exists>pooled now.
    let told = rowOf D rcodeText L names seen; meant = rowOf D rcodeText L names (queueRecord pooled (fst (jobs ! i)) now) in
    told\<lparr>bfConsumer := bfConsumer meant, bfCached := bfCached meant\<rparr> = meant \<and> (\<not> snd (jobs ! i) \<longrightarrow> told = meant))"
proof -
  have "readOk jobs (i, seen)"
    using recycleReach_inv [OF assms(2,1)] assms(3) by (simp add: recycleInv_def)
  then obtain pooled now rc res where i: "i < length jobs"
    and seen: "seen = readInfo (queueRecord pooled (fst (jobs ! i)) now) rc res"
    and res: "if snd (jobs ! i) then clean res else res = jobResult (jobs ! i)"
    by (auto simp: readOk_def)
  let ?info = "queueRecord pooled (fst (jobs ! i)) now"
  have told: "rowOf D rcodeText L names seen = rowOf D rcodeText L names (?info\<lparr>irResult := Some res\<rparr>)"
    by (simp add: seen readInfo_def rowOf_context)
  show ?thesis
  proof (cases "snd (jobs ! i)")
    case True
    then have "jobResult (jobs ! i) = setConsumer (rrConsumer (jobResult (jobs ! i))) (fillResult (jobResult (jobs ! i)) emptyResult)"
      using assms(1) i by (auto simp: list_all_length jobOk_def)
    then have "clean (jobResult (jobs ! i))"
      by (metis clean_empty clean_fill)
    from rowOf_clean [OF this, of ?info D rcodeText L names] rowOf_clean [of res ?info D rcodeText L names] res True
    show ?thesis
      using i told by (intro conjI exI [of _ pooled] exI [of _ now]) (simp_all add: queueRecord_result Let_def)
  next
    case False
    then show ?thesis
      using i told res by (intro conjI exI [of _ pooled] exI [of _ now]) (simp_all add: queueRecord_result Let_def)
  qed
qed

text \<open>
  C33. A request that was resolved can be recorded under another client's consumer: its result and its
  context go back to their pools once the record is queued, the next request gets the same two objects
  and fills them, and only then does the worker read the first record. The row has the address and the domain
  of the first request and the consumer, and the mark of the cache, of the second.
\<close>

theorem record_of_another_client:
  assumes "jobOk (a, True)" "jobOk (b, True)"
  shows "\<exists>st seen. recycleReach [(a, True), (b, True)] st \<and> ryRead st = [(0, seen)] \<and>
    (let told = rowOf D rcodeText L names seen in
     bfAddress told = IP_String (rlAddress a) \<and>
     (\<forall>q qs. msgQuestion (rlRequest a) = q # qs \<longrightarrow> bfRequestDomain told = Qname q) \<and>
     bfConsumer told = rrConsumer (rlResult b) \<and> bfCached told = rrCached (rlResult b))"
proof -
  let ?jobs = "[(a, True), (b, True)]"
  let ?fill = "\<lambda>j. setConsumer (rrConsumer (rlResult j)) (fillResult (rlResult j) emptyResult)"
  let ?info = "enqueueInfo undefined 0 (a, True) (the (rlContext a)) (rlResult a)"
  obtain ca cb where ctx: "rlContext a = Some ca" "rlContext b = Some cb"
    using assms by (auto simp: jobOk_def)
  have fill: "?fill a = rlResult a" "?fill b = rlResult b"
    using assms by (auto simp: jobOk_def)
  have refill: "setConsumer (rrConsumer (rlResult b)) (fillResult (rlResult b) (rlResult a)) = rlResult b"
    using fill fill_clean [of "rlResult a"] by (metis clean_empty clean_fill)
  have cont: "startContext c newContext = c\<lparr>rqGroups := []\<rparr>" "startContext c (clearContext d) = c\<lparr>rqGroups := []\<rparr>" for c d
    by (simp_all add: startContext_def newContext_def clearContext_def)
  let ?st = "\<lambda>cs fc rs fr ps q rd. \<lparr>ryContexts = cs, ryFreeContexts = fc, ryResults = rs, ryFreeResults = fr, ryPhases = ps, ryQueue = q, ryRead = rd\<rparr>"
  let ?s1 = "?st [ca\<lparr>rqGroups := []\<rparr>] [] [] [] [HasContext 0, Waiting] [] []"
  let ?s2 = "?st [ca] [] [(True, rlResult a)] [] [HasResult 0 0, Waiting] [] []"
  let ?s3 = "?st [ca] [] [(True, rlResult a)] [] [Enqueued 0 0, Waiting] [(0, ?info, 0, 0)] []"
  let ?s4 = "?st [clearContext ca] [0] [(True, rlResult a)] [0] [Released, Waiting] [(0, ?info, 0, 0)] []"
  let ?s5 = "?st [cb\<lparr>rqGroups := []\<rparr>] [] [(True, rlResult a)] [0] [Released, HasContext 0] [(0, ?info, 0, 0)] []"
  let ?s6 = "?st [cb] [] [(True, rlResult b)] [] [Released, HasResult 0 0] [(0, ?info, 0, 0)] []"
  let ?s7 = "?st [cb] [] [(True, rlResult b)] [] [Released, HasResult 0 0] [] [(0, readInfo ?info cb (rlResult b))]"
  have "recycleStep ?jobs (recycleInit ?jobs) ?s1"
    using recycleStep.started [of 0 ?jobs "recycleInit ?jobs" None 0 "[newContext]" "[]"]
    by (simp add: recycleInit_def poolGet_def jobContext_def ctx cont)
  moreover have "recycleStep ?jobs ?s1 ?s2"
    using recycleStep.resolved [of 0 ?jobs ?s1 0 None 0 "[(False, emptyResult)]" "[]"]
    by (simp add: poolGet_def jobContext_def ctx fill)
  moreover have "recycleStep ?jobs ?s2 ?s3"
    using recycleStep.enqueue [of 0 ?jobs ?s2 0 0 undefined 0] by (simp add: recordQueueSize_def ctx)
  moreover have "recycleStep ?jobs ?s3 ?s4"
    using recycleStep.release [of 0 ?jobs ?s3 0 0] by simp
  moreover have "recycleStep ?jobs ?s4 ?s5"
    using recycleStep.started [of 1 ?jobs ?s4 "Some 0" 0 "[clearContext ca]" "[]"] by (simp add: poolGet_def jobContext_def ctx cont)
  moreover have "recycleStep ?jobs ?s5 ?s6"
    using recycleStep.resolved [of 1 ?jobs ?s5 0 "Some 0" 0 "[(True, rlResult a)]" "[]"] by (simp add: poolGet_def jobContext_def ctx refill)
  moreover have "recycleStep ?jobs ?s6 ?s7"
    using recycleStep.work [of ?s6 0 ?info 0 0 "[]" ?jobs] by simp
  ultimately have reach: "recycleReach ?jobs ?s7"
    by (meson recycleReach.intros)
  have same: "a\<lparr>rlContext := Some ca\<rparr> = a"
    using ctx(1) by simp
  have "clean (rlResult b)"
    using fill(2) by (metis clean_empty clean_fill)
  then have "rowOf D rcodeText L names (readInfo ?info cb (rlResult b)) =
      (rowOf D rcodeText L names ((queueRecord undefined a 0)\<lparr>irResult := None\<rparr>))\<lparr>bfConsumer := rrConsumer (rlResult b), bfCached := rrCached (rlResult b)\<rparr>"
    using rowOf_clean [of "rlResult b" "queueRecord undefined a 0" D rcodeText L names]
    by (simp add: readInfo_def rowOf_context enqueueInfo_def ctx same queueRecord_result)
  then show ?thesis
    using reach by (intro exI [of _ ?s7] exI conjI) (auto simp: Let_def row_of_queued)
qed

definition demoCall :: "string \<Rightarrow> recorderCall" where
  "demoCall consumer = \<lparr>rlAddress = [10, 0, 0, 1], rlRequest = demoQuery ''x.ads.com.'', rlResponse = None,
     rlContext = Some \<lparr>rqStarted = 1000000, rqProtocol = ''udp'', rqGroups = [''default'']\<rparr>,
     rlResult = emptyResult\<lparr>rrConsumer := consumer\<rparr>, rlFinished = 4000000\<rparr>"

definition demoBlockedCall :: recorderCall where
  "demoBlockedCall = (demoCall ''kids'')\<lparr>rlResult := emptyResult\<lparr>rrConsumer := ''kids'', rrMatch := MatchBlock, rrMatchRule := ''ads.com''\<rparr>\<rparr>"

lemma demoCall_ok: "jobOk (demoCall consumer, True)" "jobOk (demoBlockedCall, False)"
  by (simp_all add: jobOk_def demoCall_def demoBlockedCall_def setConsumer_def fillResult_def emptyResult_def)

theorem record_of_another_client_witness:
  "\<exists>st seen. recycleReach [(demoCall ''parents'', True), (demoCall ''kids'', True)] st \<and> ryRead st = [(0, seen)] \<and>
     bfConsumer (rowOf demoDns (\<lambda>c. []) demoNames [] seen) = ''kids''"
  using record_of_another_client [OF demoCall_ok(1) demoCall_ok(1), of "''parents''" "''kids''" demoDns "\<lambda>c. []" demoNames "[]"]
  by (auto simp: demoCall_def Let_def)

lemma demoBlocked_read: "\<exists>st seen. recycleReach [(demoBlockedCall, False)] st \<and> (0, seen) \<in> set (ryRead st)"
proof -
  let ?jobs = "[(demoBlockedCall, False)]"
  obtain s1 where s1: "recycleReach ?jobs s1" "ryPhases s1 = [HasContext 0]" "ryQueue s1 = []"
    using recycleReach.step [OF recycleReach.init recycleStep.started [of 0 ?jobs "recycleInit ?jobs" None 0 "[newContext]" "[]"]]
    by (fastforce simp: recycleInit_def poolGet_def)
  then obtain s2 r where s2: "recycleReach ?jobs s2" "ryPhases s2 = [HasResult 0 r]" "ryQueue s2 = []"
    using recycleReach.step [OF s1(1) recycleStep.own [of 0 ?jobs s1 0]] by fastforce
  then obtain s3 info where s3: "recycleReach ?jobs s3" "ryQueue s3 = [(0, info, 0, r)]"
    using recycleReach.step [OF s2(1) recycleStep.enqueue [of 0 ?jobs s2 0 r undefined 0]] by (fastforce simp: recordQueueSize_def)
  from recycleReach.step [OF s3(1) recycleStep.work [OF s3(2)]] show ?thesis
    by fastforce
qed

theorem blocking_recorded_truly_witness:
  "\<exists>st seen pooled now. recycleReach [(demoBlockedCall, False)] st \<and> (0, seen) \<in> set (ryRead st) \<and>
     rowOf demoDns (\<lambda>c. []) demoNames [] seen = rowOf demoDns (\<lambda>c. []) demoNames [] (queueRecord pooled demoBlockedCall now)"
proof -
  obtain st seen where s: "recycleReach [(demoBlockedCall, False)] st" "(0, seen) \<in> set (ryRead st)"
    using demoBlocked_read by blast
  then show ?thesis
    using blocking_recorded_truly [OF _ s, of demoDns "\<lambda>c. []" demoNames "[]"] demoCall_ok(2) by (fastforce simp: Let_def)
qed

end
