(* ===== verification/Handshake.thy ===== *)
theory Handshake
  imports Config_Facts
begin

text \<open>
  The goroutines of the recorder and how they are told to end: the worker of \<^verbatim>\<open>src/engine/recorder.go\<close> with its
  timers and the channel \<open>doneChan\<close>, and the listener for multicast DNS of \<^verbatim>\<open>src/engine/mdns.go\<close> with the goroutine
  that reads its socket, the one that keeps names, and the channel \<open>mdnsCloseChan\<close>.

  Both are step relations: a step is one operation on a channel, or the work between two of them. A send
  on a channel without a buffer and the receive that takes it are one step.
\<close>

section \<open>The timers of the worker\<close>

record timers =
  tmMdns :: "int option"
  tmMetrics :: "int option"
  tmFlush :: "int option"
  tmPrune :: "int option"

text \<open>
  The start of \<open>worker\<close>; a duration that does not parse is zero, and a ticker needs a positive one. A timer
  that is stopped, or was never started, is \<^const>\<open>None\<close>. The flush interval is set by \<open>NewRecorder\<close>.
\<close>

definition flushInterval :: "hostenv \<Rightarrow> GudgeonConfig \<Rightarrow> int run" where
  "flushInterval H conf = (case cfDatabase conf of
       None \<Rightarrow> Panic
     | Some db \<Rightarrow> Ret (case ParseDuration H (dbFlush db) of Inl e \<Rightarrow> second | Inr d \<Rightarrow> d))"

definition workerTimers :: "hostenv \<Rightarrow> GudgeonConfig \<Rightarrow> bool \<Rightarrow> timers run" where
  "workerTimers H conf db = (case (cfQueryLog conf, cfMetrics conf) of
       (Some ql, Some mt) \<Rightarrow>
         (case (qlReverseLookup ql, qlMdnsLookup ql, mtEnabled mt) of
            (Some reverse, Some mdns, Some metrics) \<Rightarrow>
              (let interval = (case ParseDuration H (mtInterval mt) of Inl e \<Rightarrow> 0 | Inr d \<Rightarrow> d) in
               if interval \<le> 0 then Panic
               else bind_run (flushInterval H conf) (\<lambda>flush.
                 Ret \<lparr>tmMdns = (if reverse \<and> mdns then Some second else None),
                      tmMetrics = (if metrics then Some interval else None),
                      tmFlush = (if db then Some flush else None),
                      tmPrune = (if db then Some hour else None)\<rparr>))
          | _ \<Rightarrow> Panic)
     | _ \<Rightarrow> Panic)"

text \<open>Every query for names on the network doubles the time to the next, up to half an hour.\<close>

definition nextMdns :: "int \<Rightarrow> int" where
  "nextMdns d = (if d * 2 > 30 * minute then 30 * minute else d * 2)"

lemma nextMdns_bounds: "second \<le> d \<Longrightarrow> d \<le> 30 * minute \<Longrightarrow> second \<le> nextMdns d \<and> nextMdns d \<le> 30 * minute"
  by (simp add: nextMdns_def)

lemma mdns_backoff: "second \<le> (nextMdns ^^ k) second \<and> (nextMdns ^^ k) second \<le> 30 * minute"
  by (induction k) (use nextMdns_bounds in auto)

lemma mdns_settles: "11 \<le> k \<Longrightarrow> (nextMdns ^^ k) second = 30 * minute"
proof (induction k rule: dec_induct)
  case base
  show ?case
    by (simp add: eval_nat_numeral nextMdns_def)
next
  case (step k)
  then show ?case
    by (simp add: nextMdns_def)
qed

section \<open>The worker and the end of the recorder\<close>

text \<open>
  The worker waits in its \<open>select\<close>, works on an event, leaves once it has received from \<open>doneChan\<close>, and its
  deferred function sends there; \<open>shutdown\<close> sends, waits for a message and closes the channel, which has room for
  one message. A worker that waits in the \<open>select\<close> is given the message at once; one that works finds it when
  it is back, if it is still there. A closed channel can always be received from and never be sent to.
\<close>

datatype workerState = Parked | Busy | Leaving | Left | Crashed

datatype shutdownState = Calling | AwaitDone | Closing | Ended

record doneState =
  dnWorker :: workerState
  dnShutdown :: shutdownState
  dnBuffer :: nat
  dnClosed :: bool

inductive doneStep :: "doneState \<Rightarrow> doneState \<Rightarrow> bool" where
  takeEvent: "dnWorker st = Parked \<Longrightarrow> doneStep st (st\<lparr>dnWorker := Busy\<rparr>)"
| park: "dnWorker st = Busy \<Longrightarrow> dnBuffer st = 0 \<Longrightarrow> \<not> dnClosed st \<Longrightarrow> doneStep st (st\<lparr>dnWorker := Parked\<rparr>)"
| takeDone: "dnWorker st = Busy \<Longrightarrow> dnBuffer st = 1 \<Longrightarrow> doneStep st (st\<lparr>dnWorker := Leaving, dnBuffer := 0\<rparr>)"
| takeClosed: "dnWorker st = Busy \<or> dnWorker st = Parked \<Longrightarrow> dnBuffer st = 0 \<Longrightarrow> dnClosed st \<Longrightarrow> doneStep st (st\<lparr>dnWorker := Leaving\<rparr>)"
| leave: "dnWorker st = Leaving \<Longrightarrow> \<not> dnClosed st \<Longrightarrow> dnBuffer st = 0 \<Longrightarrow> doneStep st (st\<lparr>dnWorker := Left, dnBuffer := 1\<rparr>)"
| leaveClosed: "dnWorker st = Leaving \<Longrightarrow> dnClosed st \<Longrightarrow> doneStep st (st\<lparr>dnWorker := Crashed\<rparr>)"
| sendParked: "dnShutdown st = Calling \<Longrightarrow> dnWorker st = Parked \<Longrightarrow> doneStep st (st\<lparr>dnWorker := Leaving, dnShutdown := AwaitDone\<rparr>)"
| sendBusy: "dnShutdown st = Calling \<Longrightarrow> dnWorker st = Busy \<Longrightarrow> dnBuffer st = 0 \<Longrightarrow> doneStep st (st\<lparr>dnShutdown := AwaitDone, dnBuffer := 1\<rparr>)"
| receive: "dnShutdown st = AwaitDone \<Longrightarrow> dnBuffer st = 1 \<Longrightarrow> doneStep st (st\<lparr>dnShutdown := Closing, dnBuffer := 0\<rparr>)"
| closeDone: "dnShutdown st = Closing \<Longrightarrow> doneStep st (st\<lparr>dnShutdown := Ended, dnClosed := True\<rparr>)"

definition doneAt :: "workerState \<Rightarrow> shutdownState \<Rightarrow> nat \<Rightarrow> bool \<Rightarrow> doneState" where
  "doneAt w s b c = \<lparr>dnWorker = w, dnShutdown = s, dnBuffer = b, dnClosed = c\<rparr>"

lemma doneAt_simps [simp]:
  "dnWorker (doneAt w s b c) = w" "dnShutdown (doneAt w s b c) = s" "dnBuffer (doneAt w s b c) = b" "dnClosed (doneAt w s b c) = c"
  "(doneAt w s b c)\<lparr>dnWorker := w'\<rparr> = doneAt w' s b c" "(doneAt w s b c)\<lparr>dnShutdown := s'\<rparr> = doneAt w s' b c"
  "(doneAt w s b c)\<lparr>dnBuffer := b'\<rparr> = doneAt w s b' c" "(doneAt w s b c)\<lparr>dnClosed := c'\<rparr> = doneAt w s b c'"
  by (simp_all add: doneAt_def)

inductive_cases doneAt_step: "doneStep (doneAt w s b c) st"

text \<open>A worker that was waiting and one that was not: the states that follow the message of \<open>shutdown\<close>.\<close>

definition orderly :: "doneState set" where
  "orderly = {doneAt Leaving AwaitDone 0 False, doneAt Left AwaitDone 1 False, doneAt Left Closing 0 False, doneAt Left Ended 0 True}"

definition selfReceived :: "doneState set" where
  "selfReceived = {doneAt Busy Closing 0 False, doneAt Parked Closing 0 False, doneAt Busy Ended 0 True, doneAt Parked Ended 0 True,
     doneAt Leaving Ended 0 True, doneAt Crashed Ended 0 True}"

lemma orderly_step: "doneStep st st' \<Longrightarrow> st \<in> orderly \<Longrightarrow> st' \<in> orderly"
  unfolding orderly_def by (auto elim!: doneAt_step)

lemma selfReceived_step: "doneStep st st' \<Longrightarrow> st \<in> selfReceived \<Longrightarrow> st' \<in> selfReceived"
  unfolding selfReceived_def by (auto elim!: doneAt_step)

lemma closed_under_steps:
  assumes "doneStep\<^sup>*\<^sup>* st st'" "st \<in> A" "\<And>s s'. doneStep s s' \<Longrightarrow> s \<in> A \<Longrightarrow> s' \<in> A"
  shows "st' \<in> A"
  using assms(1,2) by (induction rule: rtranclp_induct) (auto intro: assms(3))

lemma orderly_ends: "st \<in> orderly \<Longrightarrow> doneStep\<^sup>*\<^sup>* st (doneAt Left Ended 0 True)"
proof -
  have "doneStep (doneAt Leaving AwaitDone 0 False) (doneAt Left AwaitDone 1 False)"
    using leave [of "doneAt Leaving AwaitDone 0 False"] by simp
  moreover have "doneStep (doneAt Left AwaitDone 1 False) (doneAt Left Closing 0 False)"
    using receive [of "doneAt Left AwaitDone 1 False"] by simp
  moreover have "doneStep (doneAt Left Closing 0 False) (doneAt Left Ended 0 True)"
    using closeDone [of "doneAt Left Closing 0 False"] by simp
  ultimately show "st \<in> orderly \<Longrightarrow> doneStep\<^sup>*\<^sup>* st (doneAt Left Ended 0 True)"
    unfolding orderly_def by (auto intro: converse_rtranclp_into_rtranclp)
qed

lemma selfReceived_crashes:
  assumes "st \<in> selfReceived"
  shows "doneStep\<^sup>*\<^sup>* st (doneAt Crashed Ended 0 True)"
proof -
  have leaving: "doneStep\<^sup>*\<^sup>* (doneAt Leaving Ended 0 True) (doneAt Crashed Ended 0 True)"
    using leaveClosed [of "doneAt Leaving Ended 0 True"] by auto
  have closed: "doneStep\<^sup>*\<^sup>* (doneAt w Ended 0 True) (doneAt Crashed Ended 0 True)" if "w = Busy \<or> w = Parked" for w
    using converse_rtranclp_into_rtranclp [OF _ leaving] takeClosed [of "doneAt w Ended 0 True"] that by auto
  have "doneStep\<^sup>*\<^sup>* (doneAt w Closing 0 False) (doneAt Crashed Ended 0 True)" if "w = Busy \<or> w = Parked" for w
    using converse_rtranclp_into_rtranclp [OF _ closed] closeDone [of "doneAt w Closing 0 False"] that by auto
  with leaving closed show ?thesis
    using assms by (auto simp: selfReceived_def)
qed

section \<open>The listener for multicast DNS\<close>

text \<open>
  The listener waits in its \<open>select\<close>, forwards a message, or, told to end, has closed its socket and the channel
  of messages and answers. The reader reads the socket or offers a message; it stops at an error when the
  listener is ending. The keeper of names receives, works, and ends with its channel. The caller, which is
  \<open>shutdown\<close>, asks and waits for the answer. None of the channels has a buffer.
\<close>

datatype listener = Selecting | Forwarding | Answering | ListenerGone

datatype reader = Reading | Offering | ReaderGone

datatype keeper = Receiving | Keeping | KeeperGone

datatype caller = NotCalled | Asking | Awaiting | Answered

record mdnsState =
  mdListener :: listener
  mdReader :: reader
  mdKeeper :: keeper
  mdCaller :: caller
  mdRunning :: bool
  mdMsgOpen :: bool

definition mdnsInit :: mdnsState where
  "mdnsInit = \<lparr>mdListener = Selecting, mdReader = Reading, mdKeeper = Receiving, mdCaller = NotCalled, mdRunning = True, mdMsgOpen = True\<rparr>"

inductive mdnsStep :: "mdnsState \<Rightarrow> mdnsState \<Rightarrow> bool" where
  readMsg: "mdReader st = Reading \<Longrightarrow> mdRunning st \<Longrightarrow> mdnsStep st (st\<lparr>mdReader := Offering\<rparr>)"
| readQuit: "mdReader st = Reading \<Longrightarrow> \<not> mdRunning st \<Longrightarrow> mdnsStep st (st\<lparr>mdReader := ReaderGone\<rparr>)"
| pass: "mdReader st = Offering \<Longrightarrow> mdListener st = Selecting \<Longrightarrow> mdnsStep st (st\<lparr>mdReader := Reading, mdListener := Forwarding\<rparr>)"
| forward: "mdListener st = Forwarding \<Longrightarrow> mdKeeper st = Receiving \<Longrightarrow> mdnsStep st (st\<lparr>mdListener := Selecting, mdKeeper := Keeping\<rparr>)"
| keep: "mdKeeper st = Keeping \<Longrightarrow> mdnsStep st (st\<lparr>mdKeeper := Receiving\<rparr>)"
| keeperEnds: "mdKeeper st = Receiving \<Longrightarrow> \<not> mdMsgOpen st \<Longrightarrow> mdnsStep st (st\<lparr>mdKeeper := KeeperGone\<rparr>)"
| call: "mdCaller st = NotCalled \<Longrightarrow> mdnsStep st (st\<lparr>mdCaller := Asking\<rparr>)"
| asked: "mdCaller st = Asking \<Longrightarrow> mdListener st = Selecting \<Longrightarrow>
    mdnsStep st (st\<lparr>mdCaller := Awaiting, mdListener := Answering, mdRunning := False, mdMsgOpen := False\<rparr>)"
| answer: "mdCaller st = Awaiting \<Longrightarrow> mdListener st = Answering \<Longrightarrow> mdnsStep st (st\<lparr>mdCaller := Answered, mdListener := ListenerGone\<rparr>)"

definition mdnsInv :: "mdnsState \<Rightarrow> bool" where
  "mdnsInv st \<longleftrightarrow>
     (case mdCaller st of
        Awaiting \<Rightarrow> mdListener st = Answering \<and> \<not> mdMsgOpen st \<and> \<not> mdRunning st
      | Answered \<Rightarrow> mdListener st = ListenerGone \<and> \<not> mdMsgOpen st \<and> \<not> mdRunning st
      | _ \<Rightarrow> mdListener st \<in> {Selecting, Forwarding} \<and> mdMsgOpen st \<and> mdRunning st \<and> mdKeeper st \<noteq> KeeperGone \<and> mdReader st \<noteq> ReaderGone)"

lemma mdnsInv_step: "mdnsStep st st' \<Longrightarrow> mdnsInv st \<Longrightarrow> mdnsInv st'"
  by (induction rule: mdnsStep.induct) (auto simp: mdnsInv_def split: caller.splits)

lemma mdnsInv_reach: "mdnsStep\<^sup>*\<^sup>* mdnsInit st \<Longrightarrow> mdnsInv st"
  by (induction rule: rtranclp_induct) (auto simp: mdnsInv_def mdnsInit_def intro: mdnsInv_step [unfolded mdnsInv_def])

text \<open>From every state the call can be answered: the keeper takes what is being forwarded.\<close>

lemma mdns_select:
  assumes "mdnsInv st" "mdCaller st = Asking"
  shows "\<exists>st'. mdnsStep\<^sup>*\<^sup>* st st' \<and> mdCaller st' = Asking \<and> mdListener st' = Selecting"
proof (cases "mdListener st = Selecting")
  case False
  then have f: "mdListener st = Forwarding" "mdKeeper st \<noteq> KeeperGone"
    using assms by (auto simp: mdnsInv_def)
  have fw: "mdnsStep\<^sup>*\<^sup>* s (s\<lparr>mdListener := Selecting, mdKeeper := Keeping\<rparr>)" if "mdListener s = Forwarding" "mdKeeper s = Receiving" for s
    using forward [OF that] by auto
  show ?thesis
  proof (cases "mdKeeper st")
    case Receiving
    then show ?thesis
      using fw [OF f(1)] assms(2) by (intro exI [of _ "st\<lparr>mdListener := Selecting, mdKeeper := Keeping\<rparr>"]) simp
  next
    case Keeping
    have "mdnsStep\<^sup>*\<^sup>* st ((st\<lparr>mdKeeper := Receiving\<rparr>)\<lparr>mdListener := Selecting, mdKeeper := Keeping\<rparr>)"
      by (rule converse_rtranclp_into_rtranclp [OF keep [OF Keeping] fw]) (simp_all add: f)
    then show ?thesis
      using assms(2) by (intro exI conjI) (assumption, simp_all)
  qed (use f in simp)
qed (use assms(2) in auto)

lemma mdns_answered:
  assumes "mdnsInv st"
  shows "\<exists>st'. mdnsStep\<^sup>*\<^sup>* st st' \<and> mdCaller st' = Answered"
proof -
  have awaiting: "\<exists>st'. mdnsStep\<^sup>*\<^sup>* s st' \<and> mdCaller st' = Answered" if "mdCaller s = Awaiting" "mdListener s = Answering" for s
    using answer [OF that] by (intro exI conjI, rule r_into_rtranclp) simp_all
  have asking: "\<exists>st'. mdnsStep\<^sup>*\<^sup>* s st' \<and> mdCaller st' = Answered" if s: "mdnsInv s" "mdCaller s = Asking" for s
  proof -
    obtain s1 where s1: "mdnsStep\<^sup>*\<^sup>* s s1" "mdCaller s1 = Asking" "mdListener s1 = Selecting"
      using mdns_select [OF s] by blast
    obtain s2 where "mdnsStep s1 s2" "mdCaller s2 = Awaiting" "mdListener s2 = Answering"
      using asked [OF s1(2,3)] by fastforce
    with s1(1) awaiting [of s2] show ?thesis
      by (meson rtranclp.rtrancl_into_rtrancl rtranclp_trans)
  qed
  show ?thesis
  proof (cases "mdCaller st")
    case NotCalled
    note called = call [OF NotCalled]
    from asking [OF mdnsInv_step [OF called assms]] converse_rtranclp_into_rtranclp [where r = mdnsStep, OF called] show ?thesis
      by auto
  next
    case Asking
    then show ?thesis
      by (rule asking [OF assms])
  next
    case Awaiting
    then show ?thesis
      using assms by (intro awaiting) (simp_all add: mdnsInv_def)
  qed auto
qed

text \<open>A reader that offers a message when the listener ends is never heard again.\<close>

lemma reader_stuck:
  assumes "mdnsStep\<^sup>*\<^sup>* st st'" "mdReader st = Offering" "mdListener st = Answering \<or> mdListener st = ListenerGone"
  shows "mdReader st' = Offering \<and> (mdListener st' = Answering \<or> mdListener st' = ListenerGone)"
  using assms by (induction rule: rtranclp_induct) (auto elim!: mdnsStep.cases)


section \<open>Properties\<close>

text \<open>The worker of a program with a loaded configuration starts: its ticker has a positive interval.\<close>

lemma worker_starts:
  assumes "stdParse_ok H" "Load H readFile unmarshal filename = Inr (conf, warnings)"
  shows "\<exists>t. workerTimers H conf db = Ret t \<and> (\<forall>d. tmMetrics t = Some d \<longrightarrow> second \<le> d) \<and> (\<forall>d. tmFlush t = Some d \<longrightarrow> 500 * millisecond \<le> d)"
proof -
  obtain c where conf: "conf = fst (verifyAndInit H c)"
    using assms(2) by (rule Load_verified)
  let ?mt = "fst (verifyMetrics H (withDefault emptyMetrics (cfMetrics c)))"
  let ?ql = "fst (verifyQueryLog H (withDefault emptyQueryLog (cfQueryLog c)))"
  let ?db = "fst (verifyDatabase H (withDefault \<lparr>dbFlush = ''1s''\<rparr> (cfDatabase c)))"
  have parts: "cfMetrics conf = Some ?mt" "cfQueryLog conf = Some ?ql" "cfDatabase conf = Some ?db"
    by (simp_all add: conf verifyAndInit_settings)
  obtain interval where "ParseDuration H (mtInterval ?mt) = Inr interval" "second \<le> interval"
    using verifyMetrics_ok(1) [OF assms(1)] by blast
  moreover obtain flush where "ParseDuration H (dbFlush ?db) = Inr flush" "500 * millisecond \<le> flush"
    using verifyDatabase_flush [OF assms(1)] by blast
  moreover obtain metrics where "mtEnabled ?mt = Some metrics"
    using verifyMetrics_ok(3) [OF assms(1)] by blast
  moreover obtain reverse mdns where "qlReverseLookup ?ql = Some reverse" "qlMdnsLookup ?ql = Some mdns"
    using verifyQueryLog_ok(2-) [OF assms(1)] by blast
  ultimately show ?thesis
    by (simp add: workerTimers_def flushInterval_def parts)
qed

text \<open>
  C34. Ending the recorder while its worker is at work can bring the program down. When the worker waits in
  its \<open>select\<close>, every run of the handshake comes to a proper end. When it works, the message stays in the
  buffer of \<open>doneChan\<close>, where \<open>shutdown\<close> may take it back itself for the worker's answer and close the channel;
  from then on the worker can no longer leave in order, and whatever it does next it can still crash, by
  sending on the closed channel.
\<close>

theorem shutdown_races_worker:
  "(\<forall>st. doneStep\<^sup>*\<^sup>* (doneAt Leaving AwaitDone 0 False) st \<longrightarrow> dnWorker st \<noteq> Crashed \<and> doneStep\<^sup>*\<^sup>* st (doneAt Left Ended 0 True)) \<and>
   doneStep (doneAt Parked Calling 0 False) (doneAt Leaving AwaitDone 0 False) \<and>
   doneStep\<^sup>*\<^sup>* (doneAt Busy Calling 0 False) (doneAt Busy Closing 0 False) \<and>
   (\<forall>st. doneStep\<^sup>*\<^sup>* (doneAt Busy Closing 0 False) st \<longrightarrow> dnWorker st \<noteq> Left \<and> doneStep\<^sup>*\<^sup>* st (doneAt Crashed Ended 0 True))"
proof (intro conjI allI impI)
  fix st
  assume run: "doneStep\<^sup>*\<^sup>* (doneAt Leaving AwaitDone 0 False) st"
  have st: "st \<in> orderly"
    by (rule closed_under_steps [OF run _ orderly_step]) (simp_all add: orderly_def)
  then show "dnWorker st \<noteq> Crashed"
    by (auto simp: orderly_def)
  show "doneStep\<^sup>*\<^sup>* st (doneAt Left Ended 0 True)"
    by (rule orderly_ends [OF st])
next
  show "doneStep (doneAt Parked Calling 0 False) (doneAt Leaving AwaitDone 0 False)"
    using sendParked [of "doneAt Parked Calling 0 False"] by simp
next
  have "doneStep (doneAt Busy Calling 0 False) (doneAt Busy AwaitDone 1 False)"
    using sendBusy [of "doneAt Busy Calling 0 False"] by simp
  moreover have "doneStep (doneAt Busy AwaitDone 1 False) (doneAt Busy Closing 0 False)"
    using receive [of "doneAt Busy AwaitDone 1 False"] by simp
  ultimately show "doneStep\<^sup>*\<^sup>* (doneAt Busy Calling 0 False) (doneAt Busy Closing 0 False)"
    by (meson r_into_rtranclp rtranclp.rtrancl_into_rtrancl)
next
  fix st
  assume run: "doneStep\<^sup>*\<^sup>* (doneAt Busy Closing 0 False) st"
  have st: "st \<in> selfReceived"
    by (rule closed_under_steps [OF run _ selfReceived_step]) (simp_all add: selfReceived_def)
  then show "dnWorker st \<noteq> Left"
    by (auto simp: selfReceived_def)
  show "doneStep\<^sup>*\<^sup>* st (doneAt Crashed Ended 0 True)"
    by (rule selfReceived_crashes [OF st])
qed

theorem shutdown_races_worker_witness:
  "doneStep\<^sup>*\<^sup>* (doneAt Busy Calling 0 False) (doneAt Crashed Ended 0 True)"
proof (rule rtranclp_trans)
  note race = shutdown_races_worker [THEN conjunct2, THEN conjunct2]
  show "doneStep\<^sup>*\<^sup>* (doneAt Busy Calling 0 False) (doneAt Busy Closing 0 False)"
    by (rule race [THEN conjunct1])
  show "doneStep\<^sup>*\<^sup>* (doneAt Busy Closing 0 False) (doneAt Crashed Ended 0 True)"
    by (rule race [THEN conjunct2, rule_format, THEN conjunct2]) simp
qed

text \<open>
  C35. The listener for multicast DNS can always be ended: whatever the network sends and however its
  goroutines interleave, from every state the call of \<open>shutdown\<close> can be answered, and no message is forwarded
  once the channel of messages is closed. What may remain is the goroutine that reads the socket: if it offers
  a message at that moment, it does so for ever.
\<close>

theorem mdns_listener_ends:
  assumes "mdnsStep\<^sup>*\<^sup>* mdnsInit st"
  shows "(\<exists>st'. mdnsStep\<^sup>*\<^sup>* st st' \<and> mdCaller st' = Answered) \<and>
    (\<not> mdMsgOpen st \<longrightarrow> mdListener st = Answering \<or> mdListener st = ListenerGone) \<and>
    (mdReader st = Offering \<and> \<not> mdMsgOpen st \<longrightarrow> (\<forall>st'. mdnsStep\<^sup>*\<^sup>* st st' \<longrightarrow> mdReader st' = Offering))"
proof -
  have inv: "mdnsInv st"
    by (rule mdnsInv_reach [OF assms])
  then have "\<not> mdMsgOpen st \<longrightarrow> mdListener st = Answering \<or> mdListener st = ListenerGone"
    by (auto simp: mdnsInv_def split: caller.splits)
  then show ?thesis
    using mdns_answered [OF inv] reader_stuck by blast
qed

theorem mdns_listener_ends_witness:
  "\<exists>st. mdnsStep\<^sup>*\<^sup>* mdnsInit st \<and> mdReader st = Offering \<and> \<not> mdMsgOpen st \<and> (\<forall>st'. mdnsStep\<^sup>*\<^sup>* st st' \<longrightarrow> mdReader st' = Offering)"
proof -
  let ?s = "\<lambda>l r c b. \<lparr>mdListener = l, mdReader = r, mdKeeper = Receiving, mdCaller = c, mdRunning = b, mdMsgOpen = b\<rparr>"
  have "mdnsStep mdnsInit (?s Selecting Offering NotCalled True)"
    using readMsg [of mdnsInit] by (simp add: mdnsInit_def)
  moreover have "mdnsStep (?s Selecting Offering NotCalled True) (?s Selecting Offering Asking True)"
    using call [of "?s Selecting Offering NotCalled True"] by simp
  moreover have "mdnsStep (?s Selecting Offering Asking True) (?s Answering Offering Awaiting False)"
    using asked [of "?s Selecting Offering Asking True"] by simp
  ultimately have run: "mdnsStep\<^sup>*\<^sup>* mdnsInit (?s Answering Offering Awaiting False)"
    by auto
  show ?thesis
    using mdns_listener_ends [OF run] run by (intro exI [of _ "?s Answering Offering Awaiting False"]) simp
qed

end
