(* ===== verification/Spec2Isabelle.thy ===== *)
theory Spec2Isabelle
  imports Program Web Names Recycling Handshake
begin

text \<open>
  A verification development of gudgeon, a caching DNS proxy that blocks domains by rule lists, written in
  Go.

  \<^bold>\<open>The program.\<close> A configuration file is loaded, checked and completed (\<open>config\<close>). From it the engine is built
  (\<open>engine/engine_init.go\<close>): lists are downloaded and their lines loaded into a rule store (\<open>rule\<close>), resolvers
  are built over their sources (\<open>resolver\<close>) with a shared response cache (\<open>cache\<close>), and consumers, the kinds of
  clients, get groups of lists and resolvers. The provider takes requests off the sockets and asks the
  engine (\<open>engine/engine.go\<close>): it finds the consumer of the address, asks the store whether a rule of the
  consumer's groups blocks the domain, answers NXDOMAIN if one does, and otherwise resolves. Upstream servers
  are asked over pooled connections (\<open>pool\<close>). Every request is handed to the recorder
  (\<open>engine/recorder.go\<close>), which writes the query log (\<open>engine/qlog.go\<close>) and the metrics (\<open>engine/metrics.go\<close>)
  in batches and looks up the names of clients (\<open>engine/mdns.go\<close>, \<open>util/netbios.go\<close>). Files are watched and
  changes announced on an event bus (\<open>events\<close>); a changed list is loaded again, a changed configuration
  replaces the engine (\<open>engine/reloading_engine.go\<close>). The web interface (\<open>web\<close>) reads all of it. \<open>cmd/gudgeon.go\<close>
  starts the parts one after the other and, at a signal, ends them all at once.

  \<^bold>\<open>Conventions.\<close> A Go call is a function; its outcome is of type \<open>run\<close> (a value, a panic, or fuel used up), an
  error is the left side of a sum, a nil pointer is \<^const>\<open>None\<close>. Where two parts of the program share a message
  through pointers, messages live in a heap (\<open>world\<close>) and pointers are positions. Operations on channels
  have an outcome of type \<open>chan\<close>: done, waiting, or a panic. A database table is a list of rows and a statement a
  function on it. Time is a number of nanoseconds read from a clock that ticks with every reading. Integers
  keep their width where the program can reach its end: \<open>word\<close> types for addresses, types, identifiers and
  times to live, explicit wrapping for counters of 64 bits. Code that is not part of the repository is a
  parameter: the DNS library (\<open>dnslib\<close>), glob and regular expression matching, hash functions and Bloom filters
  (\<open>storelib\<close>), the item store behind the cache (\<open>backer\<close>), exchange with servers (\<open>srclib\<close>), parsing of
  YAML and durations (\<open>hostenv\<close>), SQL's \<open>LIKE\<close> and the order of rows that compare equal. What is relied on is a
  named hypothesis (\<open>SetReply_ok\<close>, \<open>backer_ok\<close>, \<open>stdParse_ok\<close>, \<open>bootstrap_ok\<close> and others), each instantiated
  in a witness.

  \<^bold>\<open>Theories\<close>, with the code they model and what they show.
  \<^item> \<open>Gudgeon_Prelude\<close>, \<open>Channel\<close>: outcomes, Go's string functions, list lemmas.
  \<^item> \<open>Util\<close> (\<open>util/strings.go\<close>, \<open>util/domains.go\<close>, \<open>util/files.go\<close>), \<open>Dns\<close> (\<open>util/dns.go\<close>): helpers, addresses,
    messages.
  \<^item> \<open>Config\<close>, \<open>Config_Init\<close>, \<open>Config_Facts\<close> (\<open>config/\<close>, \<open>util/time.go\<close>): the configuration and its verification; a
    loaded configuration finds its parts by lower-case name, has its defaults, and its intervals parse and
    are in range.
  \<^item> \<open>Rule\<close>, \<open>Store_Spec\<close>, \<open>Store_Memory\<close>, \<open>Store_Filter\<close>, \<open>Store_Sql\<close>, \<open>Stores\<close> (\<open>rule/\<close>): rules, the four backends,
    the stack of stores with loading and reloading. The locale \<open>rule_store\<close> is the contract of a backend and
    is interpreted by the memory and both hash stores; \<open>backed_store\<close> extends it to the stack that
    \<open>CreateStore\<close> builds. The memory store decides exactly as the lines of the list files call for, a reload is
    the same as a restart, a filter in front of the database changes no decision, a Bloom filter misses
    nothing but forgets nothing either.
  \<^item> \<open>Cache\<close> (\<open>cache/cache.go\<close>): the locale \<open>response_cache\<close> and its interpretation by the cache over any item store that
    keeps its contract; round trip, expiry, and the invariant of any history.
  \<^item> \<open>Sources\<close>, \<open>Resolver\<close>, \<open>Resolver_Heap\<close>, \<open>Resolver_Init\<close> (\<open>resolver/\<close>): hosts files, zones, upstream
    servers, resolvers calling each other. Recursion runs on fuel; on a map built from any configuration every
    resolution returns with as much fuel as there are resolvers and sources, because no resolver is asked twice.
  \<^item> \<open>Resolver_Close\<close> (the \<open>Close\<close> methods in \<open>resolver/\<close>): closing comes back exactly when no pool and no load balancer is
    shared and none was closed before.
  \<^item> \<open>Pool\<close> (\<open>pool/dns_pool.go\<close>): connections and the interleavings of clients as a step relation; exclusive use, and
    how a failed dial and a shutdown break it.
  \<^item> \<open>Engine\<close>, \<open>Engine_Facts\<close>, \<open>Engine_Consumers\<close>, \<open>Engine_Init\<close>, \<open>Engine_Build\<close> (\<open>engine/engine.go\<close>, \<open>engine_init.go\<close>,
    \<open>downloader.go\<close>): from an address to a consumer, from a request to a reply, from a configuration to an engine.
    An engine built from a configuration blocks exactly what the lists of the client's groups block; every
    request gets a reply; handling returns unless aliases form a loop, and then it does not.
  \<^item> \<open>Metrics\<close>, \<open>Metrics_Facts\<close>, \<open>Metrics_Query\<close>, \<open>Recorder\<close>, \<open>Query_Log\<close> (\<open>engine/metrics.go\<close>, \<open>metrics_details.go\<close>,
    \<open>recorder.go\<close>, \<open>qlog.go\<close>): counters and snapshots account for the queries, the log and the tables keep
    every row, a blocked request can be found again, and statements for the log do not depend on what a
    client types.
  \<^item> \<open>Recycling\<close> (\<open>Handle\<close>, \<open>RequestContext.Put\<close>, \<open>resolverMap.result\<close>, \<open>recorder.queue\<close>): \<open>Recorder\<close> copies what a
    request hands over when it is queued; here the contexts and results are objects of pools, and requests and
    worker interleave. No object is in two hands, what the log says about blocking is true, and a resolved request
    can be recorded with the consumer of another.
  \<^item> \<open>Handshake\<close> (\<open>worker\<close> and \<open>shutdown\<close> of the recorder, \<open>MulticastMdnsListen\<close>): the timers of the worker, and the
    goroutines that end each other over channels, as step relations. \<open>Lifecycle\<close> takes the handshake over
    \<open>doneChan\<close> in its proper order; here all orders are considered, and one ends in a panic.
  \<^item> \<open>Names\<close> (\<open>engine/mdns.go\<close>, \<open>util/netbios.go\<close>): names of clients; reading stays inside its buffer.
  \<^item> \<open>Events\<close> (\<open>events/\<close>): the bus as a step relation, the watching of files.
  \<^item> \<open>Reload\<close>, \<open>Lifecycle\<close> (\<open>engine/reloading_engine.go\<close> and the \<open>Shutdown\<close> of engine and recorder): swapping engines; a
    failed reload keeps the rules, and four ways in which a reload or the one after it never ends.
  \<^item> \<open>Provider\<close> (\<open>provider/provider.go\<close>): what is written back to a client. The locale \<open>dns_engine\<close> is what the provider
    relies on; the engine and the reloading engine are its interpretations.
  \<^item> \<open>Web\<close> (\<open>web/\<close>): the handlers; pages of the query log put together are the log.
  \<^item> \<open>Program\<close> (\<open>cmd/gudgeon.go\<close>, \<open>config/options.go\<close>, \<open>version/version.go\<close>, \<open>db/db.go\<close>, \<open>createEngineDB\<close> and \<open>NewEngine\<close>): from
    the command line to a running program and to its end; no loaded configuration makes the start run into a nil
    pointer, and exactly when \<open>Shutdown\<close> returns.
  \<^item> This theory: what the program as a whole answers to a request its files block.

  \<^bold>\<open>Bounds and fuel.\<close> The number before the environment of resolution and handling is fuel. \<open>NoFuel\<close> is not a result
  of the program; \<open>resolution_always_returns\<close> and \<open>handling_returns_without_alias\<close> show from which fuel on it
  does not occur, and \<open>alias_loop_never_returns\<close> that it occurs for every fuel there. The queue of the bus
  has ten places, the queue of the recorder a hundred, as in the code.

  \<^bold>\<open>Not modelled.\<close> Sockets, deadlines and TLS (what is read from a connection is a parameter), the SQL driver and the
  migrations, routing and JSON of the web interface, templates, session folders and \<open>ClearDirectory\<close>, the unsafe
  conversions of bytes, the profiling port, the test helpers (\<open>testutil\<close>), and logging other than the query log.
  Records of a zone are handed out without the sharing the code has
  between replies. Queries on an engine that was closed are modelled on the pool only (\<open>Pool\<close>). Floating point
  arithmetic is done on integers: durations in seconds and milliseconds are divided and truncated. Case
  mapping and white space are those of ASCII.
\<close>

section \<open>The program as a whole\<close>

lemma demoLaunch_runs:
  assumes "demoBoot = Ret (Inr (eg, fs', w0))"
  obtains g pv where "demoLaunch = Ret (Runs (g, fs', w0))" "gdConfig g = demoPolicy" "gdEngine g = Some \<lparr>reConfPath = ''g.yml'', reCurrent = Some eg\<rparr>"
    "gdProvider g = Some pv"
proof -
  obtain ws where parts: "Options (\<lambda>args. (demoOptions, None)) [''gudgeon'', ''-c'', ''g.yml''] = ChosenOptions demoOptions" "opConfigPath demoOptions = ''g.yml''"
    "Load demoHost (\<lambda>f. Inr []) (\<lambda>s. Inr (Some demoYamlPolicy)) ''g.yml'' = Inr (demoPolicy, ws)"
    "NewEngine demoHost 5 demoSrc demoEnv (\<lambda>u. Inl ''offline'') demoDb demoMetrics demoPolicy demoFiles = demoBoot"
    by (rule demoLaunch_parts)
  obtain g pv where "demoLaunch = Ret (Runs (g, fs', w0))" "gdConfig g = demoPolicy"
    "gdEngine g = Some \<lparr>reConfPath = opConfigPath demoOptions, reCurrent = Some eg\<rparr>" "gdProvider g = Some pv"
    unfolding demoLaunch_def
    by (rule gudgeonMain_starts [where build = "\<lambda>conf. NewEngine demoHost 5 demoSrc demoEnv (\<lambda>u. Inl ''offline'') demoDb demoMetrics conf demoFiles",
        OF parts(1) parts(3) [folded parts(2)] parts(4) [unfolded assms], of "[]"])
  then show thesis
    using parts(2) by (intro that) simp_all
qed

text \<open>
  C4. From the command line to the wire. When \<open>main\<close> comes up over the memory store, every request of a client whose
  consumer is not blocked as a whole, for a domain that the files of the lists of the consumer's groups block, is
  answered by the provider with NXDOMAIN, no records, the identifier of the request and its question. The files
  are those on disk after the downloads at the start, the lists and groups those of the loaded
  configuration, and no line of a list may be one the memory store mishandles.
\<close>

theorem program_blocks_by_its_files:
  assumes "compareFold_ok (slRule E)" "SetReply_ok (srcDns S)"
    and "gudgeonMain parse H readFile unmarshal (\<lambda>conf. NewEngine H depth S E fetch lib metrics conf fs) activated args = Ret (Runs (g, fs', w0))"
    and "groupsNamed (gdConfig g)" "cfStorage (gdConfig g) = Some st" "ToLower (stRuleStorage st) \<in> {[], ''mem'', ''memory''}"
    and "\<forall>l. Some l \<in> set (cfLists (gdConfig g)) \<longrightarrow> (\<forall>r \<in> set (fileRules fs' (\<lambda>l. PathToList H (gdConfig g) (Some l)) l). safeRule l r)"
  shows "\<exists>pv re eg. gdProvider g = Some pv \<and> gdEngine g = Some re \<and> reCurrent re = Some eg \<and>
    (\<forall>client request c n B w. getConsumerForIP eg (remoteIP client) = Some c \<and> \<not> csBlock (ecConfig c) \<and> validRequest request \<and>
       fst (filesMatch (slRule E) EqualFold fs' (\<lambda>l. PathToList H (gdConfig g) (Some l)) (somes (cfLists (gdConfig g)))
         (policyLists (gdConfig g) (policyGroups (gdConfig g) (ecConfig c))) (withoutDot (Qname (hd (msgQuestion request))))) = MatchBlock \<longrightarrow>
       (\<exists>m w'. handle n S E B pv client request w = Ret (Some m, w') \<and> msgRcode m = RcodeNameError \<and> msgAnswer m = [] \<and>
          msgId m = msgId request \<and> msgQuestion m = [hd (msgQuestion request)]))"
proof -
  obtain re eg pv where built: "NewEngine H depth S E fetch lib metrics (gdConfig g) fs = Ret (Inr (eg, fs', w0))"
    and parts: "gdEngine g = Some re" "reCurrent re = Some eg" "gdProvider g = Some pv" "pvEngine pv = Some re"
    using assms(3) by (rule gudgeonMain_runs)
  have pv: "handle n S E B pv client request w = handle n S E B (NewProvider (Some re)) client request w" for n B client request w
    using parts(4) by (simp add: handle_def NewProvider_def)
  note boot = built [unfolded NewEngine_def]
  note engine = bootstrap_engine [OF boot]
  have "\<exists>m w'. handle n S E B pv client request w = Ret (Some m, w') \<and> msgRcode m = RcodeNameError \<and> msgAnswer m = [] \<and>
      msgId m = msgId request \<and> msgQuestion m = [hd (msgQuestion request)]"
    if c: "getConsumerForIP eg (remoteIP client) = Some c" "\<not> csBlock (ecConfig c)" and request: "validRequest request"
      and verdict: "fst (filesMatch (slRule E) EqualFold fs' (\<lambda>l. PathToList H (gdConfig g) (Some l)) (somes (cfLists (gdConfig g)))
        (policyLists (gdConfig g) (policyGroups (gdConfig g) (ecConfig c))) (withoutDot (Qname (hd (msgQuestion request))))) = MatchBlock"
    for client request c n B w
  proof -
    obtain k where k: "c = newConsumer (engineGroups (gdConfig g)) k"
      using consumer_of_configuration [OF engine(2,3) c(1)] by blast
    let ?matched = "domainRuleMatchedForGroups E eg (getGroups (Some c)) (Qname (hd (msgQuestion request)))"
    have "fst (decision ?matched) = MatchBlock"
      using memory_engine_lists [OF assms(1) boot assms(5-7)] groupLists_consumer [OF assms(4) engine(1)] verdict
      by (simp add: domainRuleMatchedForGroups_def k)
    then have "onCurrent False (\<lambda>eg. ruleBlocks E eg (remoteIP client) request) re"
      using parts(2) c request by (cases ?matched) (auto simp: decision_def onCurrent_def ruleBlocks_def)
    from reloading.blocked_on_the_wire [OF assms(2) this, of n B "remoteProtocol client" w] show ?thesis
      unfolding pv by (cases client) simp_all
  qed
  then show ?thesis
    using parts by blast
qed

theorem program_blocks_by_its_files_witness:
  "\<exists>g fs' w0 pv m w'. demoLaunch = Ret (Runs (g, fs', w0)) \<and> gdProvider g = Some pv \<and>
     handle 0 demoSrc demoEnv demoBacker pv (UDPAddr [10, 0, 0, 1]) (demoQuery ''X.ads.com.'') w0 = Ret (Some m, w') \<and> msgRcode m = RcodeNameError"
proof -
  obtain eg fs' w0 c where b: "demoBoot = Ret (Inr (eg, fs', w0))"
    and c: "getConsumerForIP eg [10, 0, 0, 1] = Some c" "csName (ecConfig c) = ''lan''" "\<not> csBlock (ecConfig c)"
    and rules: "\<forall>l \<in> set (somes (cfLists demoPolicy)). \<forall>r \<in> set (fileRules fs' (\<lambda>l. PathToList demoHost demoPolicy (Some l)) l). safeRule l r"
      "fst (filesMatch demoLib EqualFold fs' (\<lambda>l. PathToList demoHost demoPolicy (Some l)) (somes (cfLists demoPolicy))
        (policyLists demoPolicy (policyGroups demoPolicy (ecConfig c))) ''X.ads.com'') = MatchBlock"
    by (rule demoPolicy_engine)
  obtain g pv where g: "demoLaunch = Ret (Runs (g, fs', w0))" "gdConfig g = demoPolicy" "gdEngine g = Some \<lparr>reConfPath = ''g.yml'', reCurrent = Some eg\<rparr>"
    and pv: "gdProvider g = Some pv"
    by (rule demoLaunch_runs [OF b])
  obtain st where st: "cfStorage (gdConfig g) = Some st" "ToLower (stRuleStorage st) \<in> {[], ''mem'', ''memory''}"
    using demoPolicy_ok(2,3) g(2) by auto
  have named: "groupsNamed (gdConfig g)"
    using demoPolicy_ok(1) g(2) by simp
  have lists: "\<forall>l. Some l \<in> set (cfLists (gdConfig g)) \<longrightarrow> (\<forall>r \<in> set (fileRules fs' (\<lambda>l. PathToList demoHost (gdConfig g) (Some l)) l). safeRule l r)"
    using rules(1) by (simp add: g(2))
  have lib: "compareFold_ok (slRule demoEnv)" "SetReply_ok (srcDns demoSrc)" "slRule demoEnv = demoLib"
    using demoDns_ok demoLib_compareFold by (simp_all add: demoSrc_def)
  have dot: "HasSuffix ''X.ads.com.'' ''.''" "butlast ''X.ads.com.'' = ''X.ads.com''"
    by code_simp+
  let ?q = "demoQuery ''X.ads.com.''"
  have "getConsumerForIP eg (remoteIP (UDPAddr [10, 0, 0, 1])) = Some c \<and> \<not> csBlock (ecConfig c) \<and> validRequest ?q \<and>
      fst (filesMatch (slRule demoEnv) EqualFold fs' (\<lambda>l. PathToList demoHost (gdConfig g) (Some l)) (somes (cfLists (gdConfig g)))
        (policyLists (gdConfig g) (policyGroups (gdConfig g) (ecConfig c))) (withoutDot (Qname (hd (msgQuestion ?q))))) = MatchBlock"
    using c(1,3) rules(2) unfolding g(2) lib(3) demoPolicy_ok(5) by (simp add: dot demoPolicy_ok(4))
  with program_blocks_by_its_files [OF lib(1,2) g(1) [unfolded demoLaunch_def] named st lists] g(3) pv
  have "\<exists>m w'. handle 0 demoSrc demoEnv demoBacker pv (UDPAddr [10, 0, 0, 1]) ?q w0 = Ret (Some m, w') \<and> msgRcode m = RcodeNameError"
    by (metis option.inject reloadingEngine.select_convs(2))
  with g(1) pv show ?thesis
    by blast
qed

end
